(* ===== verification/Go_Prelude.thy ===== *)
theory Go_Prelude
  imports Main "HOL-Library.Word" "HOL-Library.Signed_Division"
begin

unbundle bit_operations_syntax

text \<open>
  What every component of the development shares: the Go types and standard-library
  operations the sources use. Go's \<open>uintN\<close> is \<open>N word\<close>; \<open>int64\<close> and \<open>time.Duration\<close> are
  \<open>int\<close> with the two's-complement wrap-around written out by \<open>i64\<close>; \<open>time.Time\<close> is the
  number of nanoseconds since the zero time (year 1), so that \<open>IsZero\<close> is equality with
  0; \<open>net.IP\<close> is a byte slice whose empty value is the nil slice; \<open>encoding/binary\<close> is
  the pair \<open>le_bytes\<close>/\<open>le_word\<close> and its big-endian mirror, with the round-trip laws that
  every wire format of the system rests on. The locale \<open>wire_codec\<close> is the contract of a
  fixed wire format.
\<close>

named_theorems codec_simps "facts that evaluate encoders and decoders"
named_theorems width_simps "bounds of machine integers"

type_synonym byte = "8 word"
type_synonym uint8 = "8 word"
type_synonym uint16 = "16 word"
type_synonym uint32 = "32 word"
type_synonym uint64 = "64 word"

subsection \<open>Byte order: encoding/binary\<close>

fun le_bytes :: "nat \<Rightarrow> 'a::len word \<Rightarrow> byte list" where
  "le_bytes 0 w = []"
| "le_bytes (Suc n) w = ucast w # le_bytes n (drop_bit 8 w)"

fun le_word :: "byte list \<Rightarrow> 'a::len word" where
  "le_word [] = 0"
| "le_word (b # bs) = ucast b OR push_bit 8 (le_word bs)"

definition be_bytes :: "nat \<Rightarrow> 'a::len word \<Rightarrow> byte list" where
  "be_bytes n w = rev (le_bytes n w)"

definition be_word :: "byte list \<Rightarrow> 'a::len word" where
  "be_word bs = le_word (rev bs)"

lemma length_le_bytes [simp]: "length (le_bytes n w) = n"
  by (induction n arbitrary: w) auto

lemma length_be_bytes [simp]: "length (be_bytes n w) = n"
  by (simp add: be_bytes_def)

lemma le_word_le_bytes_take:
  fixes w :: "'a::len word"
  shows "(le_word (le_bytes n w) :: 'a word) = take_bit (8 * n) w"
proof (induction n arbitrary: w)
  case 0
  then show ?case by simp
next
  case (Suc n)
  show ?case
    by (rule bit_word_eqI) (auto simp: Suc bit_simps)
qed

lemma le_word_le_bytes [simp]:
  fixes w :: "'a::len word"
  assumes "LENGTH('a) \<le> 8 * n"
  shows "(le_word (le_bytes n w) :: 'a word) = w"
  using assms by (simp add: le_word_le_bytes_take take_bit_word_eq_self)

lemma be_word_be_bytes [simp]:
  fixes w :: "'a::len word"
  assumes "LENGTH('a) \<le> 8 * n"
  shows "(be_word (be_bytes n w) :: 'a word) = w"
  using assms by (simp add: be_word_def be_bytes_def)

lemma le_bytes_le_word:
  assumes "8 * length bs \<le> LENGTH('a::len)"
  shows "le_bytes (length bs) (le_word bs :: 'a word) = bs"
  using assms
proof (induction bs)
  case Nil
  then show ?case by simp
next
  case (Cons b bs)
  have 1: "ucast (ucast b OR push_bit 8 (le_word bs :: 'a word)) = b"
    by (rule bit_word_eqI) (use Cons.prems in \<open>auto simp: bit_simps\<close>)
  have 2: "drop_bit 8 (ucast b OR push_bit 8 (le_word bs :: 'a word))
      = take_bit (LENGTH('a) - 8) (le_word bs)"
    by (rule bit_word_eqI) (auto simp: bit_simps dest: bit_imp_le_length)
  have 3: "bit (le_word bs :: 'a word) n \<Longrightarrow> n < 8 * length bs" for n
  proof (induction bs arbitrary: n)
    case Nil
    then show ?case by simp
  next
    case (Cons c cs)
    then show ?case
      by (cases "n < 8") (fastforce simp: bit_simps dest: bit_imp_le_length)+
  qed
  have 4: "take_bit (LENGTH('a) - 8) (le_word bs :: 'a word) = le_word bs"
    by (rule bit_word_eqI) (use 3 Cons.prems in \<open>force simp: bit_simps\<close>)
  have "le_bytes (length bs) (le_word bs :: 'a word) = bs"
    using Cons by simp
  then show ?case
    by (simp only: list.size le_word.simps le_bytes.simps add_Suc_right add_0_right 1 2 4)
qed

lemma be_bytes_be_word:
  assumes "8 * length bs \<le> LENGTH('a::len)"
  shows "be_bytes (length bs) (be_word bs :: 'a word) = bs"
  using le_bytes_le_word [of "rev bs", where 'a = 'a] assms
  by (simp add: be_bytes_def be_word_def)

subsection \<open>Slices\<close>

text \<open>\<open>b[lo:hi]\<close> within the length of the slice.\<close>

definition subslice :: "'a list \<Rightarrow> nat \<Rightarrow> nat \<Rightarrow> 'a list" where
  "subslice xs lo hi = take (hi - lo) (drop lo xs)"

lemma length_subslice [simp]: "hi \<le> length xs \<Longrightarrow> length (subslice xs lo hi) = hi - lo"
  by (simp add: subslice_def)

lemma subslice_append_left: "hi \<le> length xs \<Longrightarrow> subslice (xs @ ys) lo hi = subslice xs lo hi"
  by (simp add: subslice_def)

lemma subslice_append_right:
  "length xs \<le> lo \<Longrightarrow> subslice (xs @ ys) lo hi = subslice ys (lo - length xs) (hi - length xs)"
  by (simp add: subslice_def)

lemma subslice_all: "hi = length xs \<Longrightarrow> subslice xs 0 hi = xs"
  by (simp add: subslice_def)

lemma subslice_join:
  assumes "lo \<le> mid" and "mid \<le> hi"
  shows "subslice xs lo mid @ subslice xs mid hi = subslice xs lo hi"
proof -
  have 1: "hi - lo = (mid - lo) + (hi - mid)" and 2: "drop mid xs = drop (mid - lo) (drop lo xs)"
    using assms by simp_all
  show ?thesis
    by (simp only: subslice_def 1 2 take_add)
qed

subsection \<open>Integers: int64, time.Duration, time.Time\<close>

type_synonym duration = int
type_synonym gotime = int

definition i64 :: "int \<Rightarrow> int" where
  "i64 x = signed_take_bit 63 x"

lemma i64_id [simp]: "- (2 ^ 63) \<le> x \<Longrightarrow> x < 2 ^ 63 \<Longrightarrow> i64 x = x"
  by (simp add: i64_def signed_take_bit_int_eq_self)

lemma i64_range [width_simps]: "- (2 ^ 63) \<le> i64 x" "i64 x < 2 ^ 63"
  using signed_take_bit_int_greater_eq_minus_exp [of 63 x] signed_take_bit_int_less_exp [of 63 x]
  by (simp_all add: i64_def)

definition microsecond :: duration where "microsecond = 1000"
definition millisecond :: duration where "millisecond = 1000 * 1000"
definition second :: duration where "second = 1000 * 1000 * 1000"

definition zero_time :: gotime where "zero_time = 0"

definition IsZero :: "gotime \<Rightarrow> bool" where
  "IsZero t = (t = zero_time)"

text \<open>\<open>t.Sub(u)\<close> saturates at the bounds of \<open>time.Duration\<close>.\<close>

definition time_sub :: "gotime \<Rightarrow> gotime \<Rightarrow> duration" where
  "time_sub t u = max (- (2 ^ 63)) (min (2 ^ 63 - 1) (t - u))"

lemma time_sub_pos_iff: "time_sub t u > 0 \<longleftrightarrow> u < t"
  by (auto simp: time_sub_def)

subsection \<open>Text of numbers, and addresses: strconv and net\<close>

lemma unat_byte_less: "unat (b :: byte) < 256"
  using unsigned_less [where 'a = nat, of b] by simp

definition digit :: "nat \<Rightarrow> char" where "digit d = char_of (48 + d)"

fun itoa :: "nat \<Rightarrow> string" where
  "itoa n = (if n < 10 then [digit n] else itoa (n div 10) @ [digit (n mod 10)])"

declare itoa.simps [simp del]

type_synonym IP = "byte list"

definition To4 :: "IP \<Rightarrow> IP" where
  "To4 ip =
     (if length ip = 4 then ip
      else if length ip = 16 \<and> take 10 ip = replicate 10 0 \<and> ip ! 10 = 0xFF \<and> ip ! 11 = 0xFF
      then drop 12 ip
      else [])"

lemma To4_four: "length ip = 4 \<Longrightarrow> To4 ip = ip"
  by (simp add: To4_def)

lemma length_To4: "To4 ip \<noteq> [] \<Longrightarrow> length (To4 ip) = 4"
  by (auto simp: To4_def split: if_splits)

text \<open>\<open>String\<close> of the result of \<open>To4\<close>: nil or four bytes.\<close>

definition ip4_String :: "IP \<Rightarrow> string" where
  "ip4_String ip =
     (if ip = [] then ''<nil>''
      else itoa (unat (ip ! 0)) @ ''.'' @ itoa (unat (ip ! 1)) @ ''.''
         @ itoa (unat (ip ! 2)) @ ''.'' @ itoa (unat (ip ! 3)))"

record IPNet =
  NetIP :: IP
  Mask :: "byte list"

definition CIDRMask32 :: "nat \<Rightarrow> byte list" where
  "CIDRMask32 ones = (if ones > 32 then []
     else map (\<lambda>i. if ones \<ge> 8 * i + 8 then 0xFF else NOT (drop_bit (ones - 8 * i) 0xFF)) [0..<4])"

text \<open>\<open>IPMask.Size\<close>: the number of leading ones, and 0, 0 for a mask that is not of this form.\<close>

fun leadingOnes :: "nat \<Rightarrow> byte \<Rightarrow> nat option" where
  "leadingOnes 0 v = (if v = 0 then Some 0 else None)"
| "leadingOnes (Suc k) v =
     (if v AND 0x80 \<noteq> 0 then map_option Suc (leadingOnes k (push_bit 1 v)) else if v = 0 then Some 0 else None)"

fun simpleMaskLength :: "byte list \<Rightarrow> nat option" where
  "simpleMaskLength [] = Some 0"
| "simpleMaskLength (v # m) =
     (if v = 0xFF then map_option (\<lambda>n. n + 8) (simpleMaskLength m)
      else if list_all (\<lambda>x. x = 0) m then leadingOnes 8 v else None)"

definition mask_Size :: "byte list \<Rightarrow> nat \<times> nat" where
  "mask_Size m = (case simpleMaskLength m of None \<Rightarrow> (0, 0) | Some n \<Rightarrow> (n, 8 * length m))"

text \<open>\<open>IPNet.Contains\<close>, with the network number and the mask it compares under.\<close>

definition networkNumberAndMask :: "IPNet \<Rightarrow> IP \<times> byte list" where
  "networkNumberAndMask n =
     (let ip = (if To4 (NetIP n) \<noteq> [] then To4 (NetIP n) else NetIP n); m = Mask n in
      if length ip \<noteq> 4 \<and> length ip \<noteq> 16 then ([], [])
      else if length m = 4 then if length ip \<noteq> 4 then ([], []) else (ip, m)
      else if length m = 16 then if length ip = 4 then (ip, drop 12 m) else (ip, m)
      else ([], []))"

definition IPNet_Contains :: "IPNet \<Rightarrow> IP \<Rightarrow> bool" where
  "IPNet_Contains n ip =
     (case networkNumberAndMask n of (nn, m) \<Rightarrow>
      let x = (if To4 ip \<noteq> [] then To4 ip else ip) in
      length x = length nn \<and> list_all (\<lambda>i. nn ! i AND m ! i = x ! i AND m ! i) [0..<length x])"

subsection \<open>A wire format as a contract\<close>

text \<open>
  A format is an encoder, a decoder that may refuse, and the well-formed values; the
  provider promises that decoding an encoded well-formed value gives it back.
\<close>

locale wire_codec =
  fixes enc :: "'a \<Rightarrow> byte list"
    and dec :: "byte list \<Rightarrow> 'e + 'a"
    and wf :: "'a \<Rightarrow> bool"
  assumes dec_enc: "wf x \<Longrightarrow> dec (enc x) = Inr x"
begin

lemma enc_inj:
  assumes "wf x" and "wf y" and "enc x = enc y"
  shows "x = y"
proof -
  have "Inr x = dec (enc x)" using assms(1) by (simp add: dec_enc)
  also have "\<dots> = dec (enc y)" by (simp only: assms(3))
  also have "\<dots> = Inr y" using assms(2) by (simp add: dec_enc)
  finally show ?thesis by simp
qed

lemma enc_inj_on: "inj_on enc {x. wf x}"
  by (rule inj_onI) (auto dest: enc_inj)

end

subsection \<open>State machines\<close>

text \<open>The contract of an invariant: every step keeps it. Then every run keeps it.\<close>

locale step_invariant =
  fixes step :: "'s \<Rightarrow> 's \<Rightarrow> bool"
    and inv :: "'s \<Rightarrow> bool"
  assumes step_inv: "step s t \<Longrightarrow> inv s \<Longrightarrow> inv t"
begin

lemma run_inv: "step\<^sup>*\<^sup>* s t \<Longrightarrow> inv s \<Longrightarrow> inv t"
  by (induction rule: rtranclp_induct) (auto intro: step_inv)

end

end
