(* ===== verification/Container_Heap.thy ===== *)
theory Container_Heap
  imports "HOL-Library.Multiset" Go_Prelude
begin

text \<open>
  The binary heap of the Go standard library (container/heap) over a slice: \<open>up\<close>, \<open>down\<close>,
  \<open>Push\<close> and \<open>Pop\<close> as index loops that swap elements, for any \<open>Less\<close>. The locale
  \<open>heap_order\<close> states what \<open>Less\<close> has to be, a strict weak order, and holds the
  correctness of the two loops; the locale \<open>priority_queue\<close> is the contract a queue of events
  gives its clients.
\<close>

definition swap :: "'a list \<Rightarrow> nat \<Rightarrow> nat \<Rightarrow> 'a list" where
  "swap xs i j = xs[i := xs ! j, j := xs ! i]"

lemma length_swap [simp]: "length (swap xs i j) = length xs"
  by (simp add: swap_def)

lemma mset_swap_idx [simp]: "i < length xs \<Longrightarrow> j < length xs \<Longrightarrow> mset (swap xs i j) = mset xs"
  by (simp add: swap_def mset_swap)

lemma nth_swap:
  "i < length xs \<Longrightarrow> j < length xs \<Longrightarrow>
     swap xs i j ! k = (if k = j then xs ! i else if k = i then xs ! j else xs ! k)"
  by (simp add: swap_def nth_list_update)

definition parent :: "nat \<Rightarrow> nat" where
  "parent j = (j - 1) div 2"

lemma parent_less [simp]: "0 < j \<Longrightarrow> parent j < j"
  by (simp add: parent_def)

lemma parent_iff: "0 < k \<Longrightarrow> parent k = i \<longleftrightarrow> k = 2 * i + 1 \<or> k = 2 * i + 2"
  unfolding parent_def by arith

function heap_up :: "('a \<Rightarrow> 'a \<Rightarrow> bool) \<Rightarrow> 'a list \<Rightarrow> nat \<Rightarrow> 'a list" where
  "heap_up Less xs j =
     (let i = parent j in
      if i = j \<or> \<not> Less (xs ! j) (xs ! i) then xs else heap_up Less (swap xs i j) i)"
  by pat_completeness auto
termination
  by (relation "measure (\<lambda>(Less, xs, j). j)") (auto simp: parent_def)

function heap_down :: "('a \<Rightarrow> 'a \<Rightarrow> bool) \<Rightarrow> 'a list \<Rightarrow> nat \<Rightarrow> nat \<Rightarrow> 'a list" where
  "heap_down Less xs i n =
     (let j1 = 2 * i + 1 in
      if n \<le> j1 then xs
      else let j2 = j1 + 1; j = (if j2 < n \<and> Less (xs ! j2) (xs ! j1) then j2 else j1) in
        if \<not> Less (xs ! j) (xs ! i) then xs else heap_down Less (swap xs i j) j n)"
  by pat_completeness auto
termination
  by (relation "measure (\<lambda>(Less, xs, i, n). n - i)") (auto split: if_splits)

declare heap_up.simps [simp del] heap_down.simps [simp del]

definition heap_Push :: "('a \<Rightarrow> 'a \<Rightarrow> bool) \<Rightarrow> 'a list \<Rightarrow> 'a \<Rightarrow> 'a list" where
  "heap_Push Less h x = (let h' = h @ [x] in heap_up Less h' (length h' - 1))"

definition heap_Pop :: "('a \<Rightarrow> 'a \<Rightarrow> bool) \<Rightarrow> 'a list \<Rightarrow> 'a \<times> 'a list" where
  "heap_Pop Less h =
     (let n = length h - 1; h' = heap_down Less (swap h 0 n) 0 n in (h' ! n, take n h'))"

lemma length_heap_up [simp]: "length (heap_up Less xs j) = length xs"
  by (induction Less xs j rule: heap_up.induct) (subst heap_up.simps, simp add: Let_def)

lemma length_heap_down [simp]: "length (heap_down Less xs i n) = length xs"
  by (induction Less xs i n rule: heap_down.induct) (subst heap_down.simps, simp add: Let_def)

lemma mset_heap_up: "j < length xs \<Longrightarrow> mset (heap_up Less xs j) = mset xs"
proof (induction Less xs j rule: heap_up.induct)
  case (1 Less xs j)
  have "parent j \<le> j" by (simp add: parent_def)
  with 1 show ?case
    by (subst heap_up.simps) (simp add: Let_def)
qed

lemma mset_heap_down: "i < length xs \<Longrightarrow> n \<le> length xs \<Longrightarrow> mset (heap_down Less xs i n) = mset xs"
proof (induction Less xs i n rule: heap_down.induct)
  case (1 Less xs i n)
  then show ?case
    by (subst heap_down.simps) (simp add: Let_def)
qed

lemma heap_down_above:
  "i < n \<Longrightarrow> n \<le> length xs \<Longrightarrow> n \<le> k \<Longrightarrow> heap_down Less xs i n ! k = xs ! k"
proof (induction Less xs i n rule: heap_down.induct)
  case (1 Less xs i n)
  then show ?case
    by (subst heap_down.simps) (simp add: Let_def nth_swap)
qed

subsection \<open>The heap property\<close>

definition is_heap :: "('a \<Rightarrow> 'a \<Rightarrow> bool) \<Rightarrow> 'a list \<Rightarrow> nat \<Rightarrow> bool" where
  "is_heap Less xs n \<longleftrightarrow> (\<forall>k < n. 0 < k \<longrightarrow> \<not> Less (xs ! k) (xs ! parent k))"

text \<open>A heap but for the edge above \<open>j\<close>, and but for the edges below \<open>i\<close>.\<close>

definition heap_up_to :: "('a \<Rightarrow> 'a \<Rightarrow> bool) \<Rightarrow> 'a list \<Rightarrow> nat \<Rightarrow> nat \<Rightarrow> bool" where
  "heap_up_to Less xs n j \<longleftrightarrow>
     (\<forall>k < n. 0 < k \<and> k \<noteq> j \<longrightarrow> \<not> Less (xs ! k) (xs ! parent k)) \<and>
     (\<forall>k < n. 0 < k \<and> parent k = j \<and> 0 < j \<longrightarrow> \<not> Less (xs ! k) (xs ! parent j))"

definition heap_below :: "('a \<Rightarrow> 'a \<Rightarrow> bool) \<Rightarrow> 'a list \<Rightarrow> nat \<Rightarrow> nat \<Rightarrow> bool" where
  "heap_below Less xs n i \<longleftrightarrow>
     (\<forall>k < n. 0 < k \<and> parent k \<noteq> i \<longrightarrow> \<not> Less (xs ! k) (xs ! parent k)) \<and>
     (\<forall>k < n. 0 < k \<and> parent k = i \<and> 0 < i \<longrightarrow> \<not> Less (xs ! k) (xs ! parent i))"

locale heap_order =
  fixes Less :: "'a \<Rightarrow> 'a \<Rightarrow> bool"
  assumes asym: "Less a b \<Longrightarrow> \<not> Less b a"
    and le_trans: "\<not> Less b a \<Longrightarrow> \<not> Less c b \<Longrightarrow> \<not> Less c a"
begin

lemma up_step:
  assumes "heap_up_to Less xs n j" and "Less (xs ! j) (xs ! parent j)" and "0 < j" "j < n"
    and "n \<le> length xs"
  shows "heap_up_to Less (swap xs (parent j) j) n (parent j)"
proof -
  let ?i = "parent j" let ?ys = "swap xs ?i j"
  have i: "?i < j" using assms(3) by simp
  have ys: "?ys ! k = (if k = j then xs ! ?i else if k = ?i then xs ! j else xs ! k)" for k
    using i assms(4,5) by (simp add: nth_swap)
  have h: "\<not> Less (xs ! k) (xs ! parent k)" if "k < n" "0 < k" "k \<noteq> j" for k
    using assms(1) that by (auto simp: heap_up_to_def)
  have g: "\<not> Less (xs ! k) (xs ! ?i)" if "k < n" "0 < k" "parent k = j" for k
    using assms(1,3) that by (auto simp: heap_up_to_def)
  have "\<not> Less (?ys ! k) (?ys ! parent k)" if k: "k < n" "0 < k" "k \<noteq> ?i" for k
  proof (cases "k = j")
    case True
    then show ?thesis using i asym [OF assms(2)] by (simp add: ys)
  next
    case False
    show ?thesis
    proof (cases "parent k = ?i")
      case True
      then have "\<not> Less (xs ! k) (xs ! ?i)" using h [OF k(1,2) False] by simp
      with asym [OF assms(2)] have "\<not> Less (xs ! k) (xs ! j)" using le_trans by blast
      then show ?thesis using True False k(3) i by (simp add: ys)
    next
      case pi: False
      show ?thesis
        using g [OF k(1,2)] h [OF k(1,2) False] False k(3) pi i by (auto simp: ys)
    qed
  qed
  moreover have "\<not> Less (?ys ! k) (?ys ! parent ?i)"
    if k: "k < n" "0 < k" "parent k = ?i" "0 < ?i" for k
  proof -
    have pi: "parent ?i < ?i" using k(4) by simp
    have 1: "\<not> Less (xs ! ?i) (xs ! parent ?i)"
      using h [of ?i] k(4) i assms(4) by simp
    show ?thesis
    proof (cases "k = j")
      case True
      then show ?thesis using 1 pi i by (simp add: ys)
    next
      case False
      then have "\<not> Less (xs ! k) (xs ! ?i)" using h [OF k(1,2)] k(3) by simp
      with 1 have "\<not> Less (xs ! k) (xs ! parent ?i)" using le_trans by blast
      moreover have "k \<noteq> ?i" using k(2,3) parent_less [OF k(2)] by auto
      ultimately show ?thesis using False pi i by (simp add: ys)
    qed
  qed
  ultimately show ?thesis by (simp add: heap_up_to_def)
qed

lemma heap_up_correct:
  "heap_up_to Less xs n j \<Longrightarrow> j < n \<Longrightarrow> n \<le> length xs \<Longrightarrow> is_heap Less (heap_up Less xs j) n"
proof (induction j arbitrary: xs rule: less_induct)
  case (less j)
  show ?case
  proof (cases "parent j = j \<or> \<not> Less (xs ! j) (xs ! parent j)")
    case True
    have "\<not> Less (xs ! k) (xs ! parent k)" if "k < n" "0 < k" for k
      using that less.prems(1) True parent_less [OF that(2)] by (cases "k = j") (auto simp: heap_up_to_def)
    then show ?thesis using True by (subst heap_up.simps) (auto simp: Let_def is_heap_def)
  next
    case False
    then have j: "0 < j" by (cases j) (auto simp: parent_def)
    have "heap_up_to Less (swap xs (parent j) j) n (parent j)"
      using less.prems False j by (intro up_step) auto
    then have "is_heap Less (heap_up Less (swap xs (parent j) j) (parent j)) n"
      using less.prems j parent_less [OF j] by (intro less.IH) auto
    then show ?thesis using False by (subst heap_up.simps) (auto simp: Let_def)
  qed
qed


lemma down_step:
  assumes "heap_below Less xs n i" and "j < n" and "0 < j" and "parent j = i"
    and "Less (xs ! j) (xs ! i)" and "n \<le> length xs"
    and min: "\<And>k. k < n \<Longrightarrow> 0 < k \<Longrightarrow> parent k = i \<Longrightarrow> \<not> Less (xs ! k) (xs ! j)"
  shows "heap_below Less (swap xs i j) n j"
proof -
  let ?ys = "swap xs i j"
  have i: "i < j" using assms(3,4) parent_less by blast
  have ys: "?ys ! k = (if k = j then xs ! i else if k = i then xs ! j else xs ! k)" for k
    using i assms(2,6) by (simp add: nth_swap)
  have h: "\<not> Less (xs ! k) (xs ! parent k)" if "k < n" "0 < k" "parent k \<noteq> i" for k
    using assms(1) that by (auto simp: heap_below_def)
  have g: "\<not> Less (xs ! k) (xs ! parent i)" if "k < n" "0 < k" "parent k = i" "0 < i" for k
    using assms(1) that by (auto simp: heap_below_def)
  have "\<not> Less (?ys ! k) (?ys ! parent k)" if k: "k < n" "0 < k" "parent k \<noteq> j" for k
  proof (cases "parent k = i")
    case True
    then show ?thesis
      using min [OF k(1,2) True] asym [OF assms(5)] i parent_less [OF k(2)] by (auto simp: ys)
  next
    case False
    then have "k \<noteq> j" using assms(4) by auto
    moreover have "\<not> Less (xs ! j) (xs ! parent i)" if "k = i"
      using g [OF assms(2,3,4)] k(2) that by simp
    ultimately show ?thesis
      using h [OF k(1,2) False] False k(3) by (auto simp: ys)
  qed
  moreover have "\<not> Less (?ys ! k) (?ys ! parent j)" if k: "k < n" "0 < k" "parent k = j" for k
  proof -
    have "\<not> Less (xs ! k) (xs ! j)" using h [OF k(1,2)] k(3) i by auto
    moreover have "k \<noteq> j" "k \<noteq> i" using k(3) i parent_less [OF k(2)] by auto
    ultimately show ?thesis using i by (simp add: ys assms(4))
  qed
  ultimately show ?thesis by (simp add: heap_below_def)
qed

lemma heap_below_stop:
  assumes "heap_below Less xs n i" and "\<And>k. k < n \<Longrightarrow> 0 < k \<Longrightarrow> parent k = i \<Longrightarrow> \<not> Less (xs ! k) (xs ! i)"
  shows "is_heap Less xs n"
  unfolding is_heap_def
proof (intro allI impI)
  fix k assume "k < n" "0 < k"
  then show "\<not> Less (xs ! k) (xs ! parent k)"
    using assms by (cases "parent k = i") (auto simp: heap_below_def)
qed

lemma heap_down_correct:
  "heap_below Less xs n i \<Longrightarrow> n \<le> length xs \<Longrightarrow> is_heap Less (heap_down Less xs i n) n"
proof (induction "n - i" arbitrary: xs i rule: less_induct)
  case less
  let ?j1 = "2 * i + 1" and ?j2 = "2 * i + 1 + 1"
  let ?j = "if ?j2 < n \<and> Less (xs ! ?j2) (xs ! ?j1) then ?j2 else ?j1"
  have refl: "\<not> Less a a" for a using asym by blast
  show ?case
  proof (cases "n \<le> ?j1")
    case True
    then have "is_heap Less xs n"
      using less.prems(1) by (rule_tac heap_below_stop) (auto simp: parent_iff)
    then show ?thesis using True by (subst heap_down.simps) (simp add: Let_def)
  next
    case False
    have min: "\<not> Less (xs ! k) (xs ! ?j)" if "k < n" "0 < k" "parent k = i" for k
      using that refl asym [of "xs ! ?j2" "xs ! ?j1"] by (auto simp: parent_iff)
    show ?thesis
    proof (cases "Less (xs ! ?j) (xs ! i)")
      case True
      have "heap_below Less (swap xs i ?j) n ?j"
        using less.prems False True min by (intro down_step) (auto simp: parent_iff)
      then have "is_heap Less (heap_down Less (swap xs i ?j) ?j n) n"
        using less.prems(2) False by (intro less.hyps) auto
      moreover have "heap_down Less xs i n = heap_down Less (swap xs i ?j) ?j n"
        using True False by (subst heap_down.simps) (simp only: Let_def if_False not_True_eq_False)
      ultimately show ?thesis by (simp only:)
    next
      case stop: False
      have "is_heap Less xs n"
      proof (rule heap_below_stop [OF less.prems(1)])
        fix k assume "k < n" "0 < k" "parent k = i"
        from min [OF this] stop show "\<not> Less (xs ! k) (xs ! i)" using le_trans by blast
      qed
      then show ?thesis using stop False by (subst heap_down.simps) (auto simp: Let_def)
    qed
  qed
qed

lemma heap_root_least:
  assumes "is_heap Less xs n" and "j < n"
  shows "\<not> Less (xs ! j) (xs ! 0)"
  using assms(2)
proof (induction j rule: less_induct)
  case (less j)
  show ?case
  proof (cases "j = 0")
    case True
    then show ?thesis using asym by blast
  next
    case False
    then have "parent j < j" by simp
    then have "\<not> Less (xs ! parent j) (xs ! 0)"
      using less.prems by (intro less.IH) auto
    moreover have "\<not> Less (xs ! j) (xs ! parent j)"
      using assms(1) less.prems False by (auto simp: is_heap_def)
    ultimately show ?thesis using le_trans by blast
  qed
qed

lemma heap_Push_correct:
  assumes "is_heap Less h (length h)"
  shows "is_heap Less (heap_Push Less h x) (length (heap_Push Less h x))"
    and "mset (heap_Push Less h x) = add_mset x (mset h)"
proof -
  have "heap_up_to Less (h @ [x]) (length h + 1) (length h)"
    unfolding heap_up_to_def
  proof (intro conjI allI impI)
    fix k assume k: "k < length h + 1" "0 < k \<and> k \<noteq> length h"
    moreover from k have "parent k < k" by simp
    ultimately have "k < length h" "parent k < length h" by auto
    then show "\<not> Less ((h @ [x]) ! k) ((h @ [x]) ! parent k)"
      using assms k by (simp add: nth_append is_heap_def)
  next
    fix k assume "k < length h + 1" "0 < k \<and> parent k = length h \<and> 0 < length h"
    then show "\<not> Less ((h @ [x]) ! k) ((h @ [x]) ! parent (length h))"
      using parent_less [of k] by auto
  qed
  then show "is_heap Less (heap_Push Less h x) (length (heap_Push Less h x))"
    using heap_up_correct [of "h @ [x]" "length h + 1" "length h"] by (simp add: heap_Push_def)
  show "mset (heap_Push Less h x) = add_mset x (mset h)"
    by (simp add: heap_Push_def mset_heap_up)
qed

lemma heap_below_swap:
  assumes "is_heap Less h (length h)" and "h \<noteq> []" and "n = length h - 1"
  shows "heap_below Less (swap h 0 n) n 0"
  unfolding heap_below_def
proof (intro conjI allI impI)
  fix k assume k: "k < n" "0 < k \<and> parent k \<noteq> 0"
  then have "parent k < k" by simp
  with k have "parent k < n" by simp
  then show "\<not> Less (swap h 0 n ! k) (swap h 0 n ! parent k)"
    using assms k by (simp add: nth_swap is_heap_def)
qed simp

lemma heap_Pop_correct:
  assumes "is_heap Less h (length h)" and "h \<noteq> []" and "heap_Pop Less h = (x, h')"
  shows "x = h ! 0" and "is_heap Less h' (length h')" and "mset h = add_mset x (mset h')"
    and "\<And>y. y \<in> set h \<Longrightarrow> \<not> Less y x"
proof -
  let ?n = "length h - 1" let ?d = "heap_down Less (swap h 0 ?n) 0 ?n"
  have x: "x = ?d ! ?n" and h': "h' = take ?n ?d"
    using assms(3) by (auto simp: heap_Pop_def Let_def)
  have n: "?n < length h" using assms(2) by simp
  have "?d ! ?n = swap h 0 ?n ! ?n"
  proof (cases "?n = 0")
    case True
    then show ?thesis by (subst heap_down.simps) (simp add: Let_def)
  next
    case False
    then show ?thesis by (intro heap_down_above) auto
  qed
  also have "\<dots> = h ! 0" using n assms(2) by (simp add: nth_swap)
  finally show x0: "x = h ! 0" using x by simp
  have "is_heap Less ?d ?n"
    using heap_below_swap [OF assms(1,2) refl] n by (intro heap_down_correct) auto
  then show "is_heap Less h' (length h')"
    by (simp add: h' is_heap_def parent_def)
  have "mset h = mset ?d"
    using n assms(2) by (subst mset_heap_down) auto
  also have "?d = h' @ [x]"
    using n h' x by (metis Suc_pred' assms(2) length_greater_0_conv length_heap_down length_swap
      lessI take_Suc_conv_app_nth take_all_iff order_refl)
  finally show "mset h = add_mset x (mset h')" by simp
  show "\<not> Less y x" if "y \<in> set h" for y
    using that heap_root_least [OF assms(1)] x0 by (auto simp: in_set_conv_nth)
qed

end

subsection \<open>A queue of prioritised items as a contract\<close>

text \<open>Popping up to \<open>n\<close> times.\<close>

fun drain :: "('q \<Rightarrow> ('i \<times> 'q) option) \<Rightarrow> nat \<Rightarrow> 'q \<Rightarrow> 'i list" where
  "drain pop 0 q = []"
| "drain pop (Suc n) q = (case pop q of None \<Rightarrow> [] | Some (x, q') \<Rightarrow> x # drain pop n q')"

locale priority_queue =
  fixes push :: "'i \<Rightarrow> 'q \<Rightarrow> 'q" and pop :: "'q \<Rightarrow> ('i \<times> 'q) option"
    and items :: "'q \<Rightarrow> 'i multiset" and wf :: "'q \<Rightarrow> bool"
    and room :: "'q \<Rightarrow> bool" and stamp :: "'i \<Rightarrow> 'q \<Rightarrow> 'i" and before :: "'i \<Rightarrow> 'i \<Rightarrow> bool"
  assumes push_items: "wf q \<Longrightarrow> items (push x q) = add_mset (stamp x q) (items q)"
    and push_wf: "wf q \<Longrightarrow> room q \<Longrightarrow> wf (push x q)"
    and pop_None: "wf q \<Longrightarrow> pop q = None \<longleftrightarrow> items q = {#}"
    and pop_Some: "wf q \<Longrightarrow> pop q = Some (x, q') \<Longrightarrow>
      wf q' \<and> items q = add_mset x (items q') \<and> (\<forall>y \<in># items q'. before x y)"
begin

lemma drain_sorted:
  "wf q \<Longrightarrow> size (items q) \<le> n \<Longrightarrow> mset (drain pop n q) = items q \<and> sorted_wrt before (drain pop n q)"
proof (induction n arbitrary: q)
  case 0
  then show ?case by simp
next
  case (Suc n)
  show ?case
  proof (cases "pop q")
    case None
    then show ?thesis using Suc.prems(1) pop_None [OF Suc.prems(1)] by simp
  next
    case (Some p)
    obtain x q' where p: "p = (x, q')" by (cases p)
    from pop_Some [OF Suc.prems(1)] Some p
    have q': "wf q'" "items q = add_mset x (items q')" "\<forall>y \<in># items q'. before x y" by auto
    with Suc.prems(2) have "mset (drain pop n q') = items q' \<and> sorted_wrt before (drain pop n q')"
      by (intro Suc.IH) auto
    moreover from this have "set (drain pop n q') = set_mset (items q')"
      by (metis set_mset_mset)
    ultimately show ?thesis using Some p q' by auto
  qed
qed

end

end
