(* ===== verification/Liveness_Packet.thy ===== *)
theory Liveness_Packet
  imports Go_Prelude
begin

text \<open>
  The control packet of the route-liveness protocol
  (client/doublezerod/internal/liveness/packet.go and the version record of version.go):
  the session states with the order the code compares them by, the packet record, the
  40-byte big-endian encoder and the decoder with its three refusals. The encoder and the
  decoder interpret the contract \<open>wire_codec\<close>.
\<close>

subsection \<open>States\<close>

datatype State = StateAdminDown | StateDown | StateInit | StateUp

fun state_code :: "State \<Rightarrow> byte" where
  "state_code StateAdminDown = 0"
| "state_code StateDown = 1"
| "state_code StateInit = 2"
| "state_code StateUp = 3"

text \<open>The conversion \<open>State(x)\<close> of a two-bit value.\<close>

definition state_of_code :: "byte \<Rightarrow> State" where
  "state_of_code x =
     (if x = 0 then StateAdminDown else if x = 1 then StateDown
      else if x = 2 then StateInit else StateUp)"

fun state_String :: "State \<Rightarrow> string" where
  "state_String StateAdminDown = ''admin_down''"
| "state_String StateDown = ''down''"
| "state_String StateInit = ''init''"
| "state_String StateUp = ''up''"

instantiation State :: linorder
begin

definition less_eq_State :: "State \<Rightarrow> State \<Rightarrow> bool" where
  "less_eq_State a b = (state_code a \<le> state_code b)"

definition less_State :: "State \<Rightarrow> State \<Rightarrow> bool" where
  "less_State a b = (state_code a < state_code b)"

instance
proof
  fix a b c :: State
  show "(a < b) = (a \<le> b \<and> \<not> b \<le> a)" by (auto simp: less_eq_State_def less_State_def)
  show "a \<le> a" by (simp add: less_eq_State_def)
  show "a \<le> b \<Longrightarrow> b \<le> c \<Longrightarrow> a \<le> c" by (auto simp: less_eq_State_def)
  show "a \<le> b \<Longrightarrow> b \<le> a \<Longrightarrow> a = b"
    by (cases a; cases b) (auto simp: less_eq_State_def word_le_nat_alt)
  show "a \<le> b \<or> b \<le> a" by (auto simp: less_eq_State_def)
qed

end

lemma StateInit_le_iff [simp]: "StateInit \<le> s \<longleftrightarrow> s = StateInit \<or> s = StateUp"
  by (cases s) (auto simp: less_eq_State_def word_le_nat_alt)

lemma state_of_code_code [simp]: "state_of_code (state_code s) = s"
  by (cases s) (auto simp: state_of_code_def)

subsection \<open>Packets\<close>

record ClientVersion =
  Major :: byte
  Minor :: byte
  Patch :: byte
  Channel :: byte

record ControlPacket =
  Version :: byte
  CtrlState :: State
  DetectMult :: byte
  Length :: byte
  LocalDiscr :: "32 word"
  PeerDiscr :: "32 word"
  DesiredMinTxUs :: "32 word"
  RequiredMinRxUs :: "32 word"
  Flags :: byte
  CtrlClientVersion :: ClientVersion

datatype packet_error = ErrShortPacket | ErrInvalidLength | ErrUnsupportedVersion byte

definition FlagPassive :: byte where "FlagPassive = push_bit 0 1"

definition Marshal :: "ControlPacket \<Rightarrow> byte list" where
  "Marshal c =
     [push_bit 5 (Version c AND 0x7), push_bit 6 (state_code (CtrlState c) AND 0x3),
      DetectMult c, 40]
     @ be_bytes 4 (LocalDiscr c) @ be_bytes 4 (PeerDiscr c)
     @ be_bytes 4 (DesiredMinTxUs c) @ be_bytes 4 (RequiredMinRxUs c)
     @ [Flags c, Major (CtrlClientVersion c), Minor (CtrlClientVersion c),
        Patch (CtrlClientVersion c), Channel (CtrlClientVersion c)]
     @ replicate 15 0"

definition rd_u32 :: "byte list \<Rightarrow> nat \<Rightarrow> 32 word" where
  "rd_u32 b off = be_word (subslice b off (off + 4))"

definition UnmarshalControlPacket :: "byte list \<Rightarrow> packet_error + ControlPacket" where
  "UnmarshalControlPacket b =
     (if length b < 40 then Inl ErrShortPacket
      else if b ! 3 \<noteq> 40 then Inl ErrInvalidLength
      else let vd = b ! 0; sf = b ! 1; ver = drop_bit 5 vd AND 0x7 in
        if ver \<noteq> 1 then Inl (ErrUnsupportedVersion ver)
        else Inr
          \<lparr>Version = ver, CtrlState = state_of_code (drop_bit 6 sf AND 0x3),
           DetectMult = b ! 2, Length = b ! 3,
           LocalDiscr = rd_u32 b 4, PeerDiscr = rd_u32 b 8,
           DesiredMinTxUs = rd_u32 b 12, RequiredMinRxUs = rd_u32 b 16,
           Flags = b ! 20,
           CtrlClientVersion =
             \<lparr>Major = b ! 21, Minor = b ! 22, Patch = b ! 23, Channel = b ! 24\<rparr>\<rparr>)"

definition SetPassive :: "ControlPacket \<Rightarrow> ControlPacket" where
  "SetPassive c = c\<lparr>Flags := Flags c OR FlagPassive\<rparr>"

definition IsPassive :: "ControlPacket \<Rightarrow> bool" where
  "IsPassive c = (Flags c AND FlagPassive \<noteq> 0)"

definition FlagsString :: "ControlPacket \<Rightarrow> string" where
  "FlagsString c =
     (if Flags c = 0 then ''none''
      else if Flags c AND FlagPassive \<noteq> 0 then ''passive'' else '''')"

subsection \<open>Laws\<close>


lemma state_bits:
  "drop_bit 6 (push_bit 6 (state_code s)) AND 3 = state_code s" "state_code s AND 3 = state_code s"
  by (cases s; simp)+

lemma length_Marshal [simp]: "length (Marshal c) = 40"
  by (simp add: Marshal_def)

lemma rd_u32_Marshal [simp]:
  "rd_u32 (Marshal c) 4 = LocalDiscr c"
  "rd_u32 (Marshal c) 8 = PeerDiscr c"
  "rd_u32 (Marshal c) 12 = DesiredMinTxUs c"
  "rd_u32 (Marshal c) 16 = RequiredMinRxUs c"
  by (simp_all add: rd_u32_def Marshal_def subslice_def)

lemma nth_Marshal:
  "Marshal c ! 0 = push_bit 5 (Version c AND 7)"
  "Marshal c ! Suc 0 = push_bit 6 (state_code (CtrlState c) AND 3)"
  "Marshal c ! 2 = DetectMult c"
  "Marshal c ! 3 = 40"
  "Marshal c ! 20 = Flags c"
  "Marshal c ! 21 = Major (CtrlClientVersion c)"
  "Marshal c ! 22 = Minor (CtrlClientVersion c)"
  "Marshal c ! 23 = Patch (CtrlClientVersion c)"
  "Marshal c ! 24 = Channel (CtrlClientVersion c)"
  by (simp_all add: Marshal_def nth_append)

lemma version_bits: "drop_bit 5 (push_bit 5 v) AND 7 = v AND (7 :: byte)"
proof -
  have "bit (7 :: byte) n \<longleftrightarrow> n < 3" for n
    using bit_mask_iff [where 'a = "8 word", of 3 n] by (auto simp: mask_eq_exp_minus_1)
  then show ?thesis
    by (intro bit_word_eqI) (auto simp: bit_simps)
qed

lemma Unmarshal_Marshal_gen:
  "UnmarshalControlPacket (Marshal c) =
     (if Version c AND 7 = 1 then Inr (c\<lparr>Version := 1, Length := 40\<rparr>)
      else Inl (ErrUnsupportedVersion (Version c AND 7)))"
  by (cases c) (simp add: UnmarshalControlPacket_def Let_def nth_Marshal version_bits state_bits)








text \<open>
  C29. Decoding an encoded packet gives the packet back with the version and the length the
  format fixes; a packet of another version (the encoder keeps its three low bits) is
  refused as such.
\<close>

theorem packet_roundtrip:
  "UnmarshalControlPacket (Marshal c) =
     (if Version c AND 7 = 1 then Inr (c\<lparr>Version := 1, Length := 40\<rparr>)
      else Inl (ErrUnsupportedVersion (Version c AND 7)))"
  by (rule Unmarshal_Marshal_gen)

text \<open>
  The decoder's refusals, in the order of its checks: fewer than 40 bytes, a length byte
  other than 40, a version other than 1; everything else is accepted.
\<close>

theorem decode_errors:
  "UnmarshalControlPacket b = Inl e \<longleftrightarrow>
     (length b < 40 \<and> e = ErrShortPacket)
     \<or> (40 \<le> length b \<and> b ! 3 \<noteq> 40 \<and> e = ErrInvalidLength)
     \<or> (40 \<le> length b \<and> b ! 3 = 40 \<and> drop_bit 5 (b ! 0) AND 7 \<noteq> 1
        \<and> e = ErrUnsupportedVersion (drop_bit 5 (b ! 0) AND 7))"
  by (auto simp: UnmarshalControlPacket_def Let_def)

end
