(* ===== verification/Liveness_Version.thy ===== *)
theory Liveness_Version
  imports Liveness_Packet
begin

text \<open>
  The build version a client advertises (client/doublezerod/internal/liveness/version.go):
  the release channels, the printer and the parser, over the operations of \<open>strings\<close> and
  \<open>strconv\<close> that the parser calls. Strings are ASCII: \<open>TrimSpace\<close> and \<open>ToLower\<close> act on the
  ASCII white space and letters.
\<close>

subsection \<open>strings and strconv\<close>

definition code :: "char \<Rightarrow> nat" where "code c = of_char c"

definition is_space :: "char \<Rightarrow> bool" where
  "is_space c = (code c = 32 \<or> 9 \<le> code c \<and> code c \<le> 13)"

definition TrimSpace :: "string \<Rightarrow> string" where
  "TrimSpace s = rev (dropWhile is_space (rev (dropWhile is_space s)))"

definition is_digit :: "char \<Rightarrow> bool" where
  "is_digit c = (48 \<le> code c \<and> code c \<le> 57)"

definition digits_value :: "string \<Rightarrow> nat" where
  "digits_value s = foldl (\<lambda>a c. a * 10 + (code c - 48)) 0 s"

definition parse_digits :: "string \<Rightarrow> nat option" where
  "parse_digits s = (if s \<noteq> [] \<and> list_all is_digit s then Some (digits_value s) else None)"

definition Atoi :: "string \<Rightarrow> int option" where
  "Atoi s =
     (let v = (case s of
          [] \<Rightarrow> None
        | c # cs \<Rightarrow>
            if c = CHR ''-'' then map_option (\<lambda>n. - int n) (parse_digits cs)
            else if c = CHR ''+'' then map_option int (parse_digits cs)
            else map_option int (parse_digits s))
      in case v of None \<Rightarrow> None
         | Some x \<Rightarrow> if - (2 ^ 63) \<le> x \<and> x < 2 ^ 63 then Some x else None)"

fun Split :: "string \<Rightarrow> char \<Rightarrow> string list" where
  "Split [] c = [[]]"
| "Split (x # xs) c =
     (if x = c then [] # Split xs c
      else (case Split xs c of [] \<Rightarrow> [[x]] | y # ys \<Rightarrow> (x # y) # ys))"

definition SplitN2 :: "string \<Rightarrow> char \<Rightarrow> string list" where
  "SplitN2 s c =
     (if c \<in> set s then [takeWhile (\<lambda>x. x \<noteq> c) s, tl (dropWhile (\<lambda>x. x \<noteq> c) s)] else [s])"

fun IndexAny :: "string \<Rightarrow> string \<Rightarrow> nat option" where
  "IndexAny [] cs = None"
| "IndexAny (x # xs) cs =
     (if x \<in> set cs then Some 0 else map_option Suc (IndexAny xs cs))"

definition lower_char :: "char \<Rightarrow> char" where
  "lower_char c = (if 65 \<le> code c \<and> code c \<le> 90 then char_of (code c + 32) else c)"

definition ToLower :: "string \<Rightarrow> string" where "ToLower s = map lower_char s"

fun Contains :: "string \<Rightarrow> string \<Rightarrow> bool" where
  "Contains [] p = (p = [])"
| "Contains (x # xs) p = (take (length p) (x # xs) = p \<or> Contains xs p)"

subsection \<open>Channels and versions\<close>

definition VersionChannelStable :: byte where "VersionChannelStable = 0"
definition VersionChannelAlpha :: byte where "VersionChannelAlpha = 1"
definition VersionChannelBeta :: byte where "VersionChannelBeta = 2"
definition VersionChannelRC :: byte where "VersionChannelRC = 3"
definition VersionChannelDev :: byte where "VersionChannelDev = 4"
definition VersionChannelOther :: byte where "VersionChannelOther = 5"

lemmas channel_defs = VersionChannelStable_def VersionChannelAlpha_def VersionChannelBeta_def
  VersionChannelRC_def VersionChannelDev_def VersionChannelOther_def

definition channel_String :: "byte \<Rightarrow> string" where
  "channel_String ch =
     (if ch = VersionChannelStable then ''''
      else if ch = VersionChannelAlpha then ''-alpha''
      else if ch = VersionChannelBeta then ''-beta''
      else if ch = VersionChannelRC then ''-rc''
      else if ch = VersionChannelDev then ''-dev''
      else if ch = VersionChannelOther then ''-other''
      else ''-unknown('' @ itoa (unat ch) @ '')'')"

definition version_String :: "ClientVersion \<Rightarrow> string" where
  "version_String v =
     itoa (unat (Major v)) @ ''.'' @ itoa (unat (Minor v)) @ ''.'' @ itoa (unat (Patch v))
     @ channel_String (Channel v)"

datatype version_error =
  EmptyVersion | ExpectedThreeParts | InvalidMajor | InvalidMinor | InvalidPatch

definition in_u8 :: "int option \<Rightarrow> bool" where
  "in_u8 x = (case x of None \<Rightarrow> False | Some n \<Rightarrow> \<not> (n < 0) \<and> \<not> (n > 255))"

definition suffix_channel :: "string \<Rightarrow> byte" where
  "suffix_channel suffix0 =
     (let suffix = (case IndexAny suffix0 ''+~.'' of
            None \<Rightarrow> suffix0 | Some idx \<Rightarrow> take idx suffix0);
          l = ToLower suffix
      in if l = ''alpha'' then VersionChannelAlpha
         else if l = ''beta'' then VersionChannelBeta
         else if l = ''rc'' then VersionChannelRC
         else if l = ''dev'' then VersionChannelDev
         else VersionChannelOther)"

definition ParseClientVersion :: "string \<Rightarrow> version_error + ClientVersion" where
  "ParseClientVersion s0 =
     (let s = TrimSpace s0 in
      if s = '''' then Inl EmptyVersion
      else let parts = SplitN2 s (CHR ''-'');
               rawNumeric = parts ! 0;
               (numeric, meta) =
                 (case IndexAny rawNumeric ''~+'' of
                    None \<Rightarrow> (rawNumeric, '''')
                  | Some idx \<Rightarrow>
                      (take idx rawNumeric,
                       if idx + 1 < length rawNumeric then drop (idx + 1) rawNumeric else ''''));
               nums = Split numeric (CHR ''.'')
           in if length nums \<noteq> 3 then Inl ExpectedThreeParts
              else if \<not> in_u8 (Atoi (nums ! 0)) then Inl InvalidMajor
              else if \<not> in_u8 (Atoi (nums ! 1)) then Inl InvalidMinor
              else if \<not> in_u8 (Atoi (nums ! 2)) then Inl InvalidPatch
              else let ch0 = (if length parts = 2 then suffix_channel (parts ! 1)
                              else VersionChannelStable);
                       ch = (if ch0 = VersionChannelStable
                             then if Contains (ToLower meta) ''git'' then VersionChannelDev else ch0
                             else ch0)
                   in Inr \<lparr>Major = word_of_int (the (Atoi (nums ! 0))),
                          Minor = word_of_int (the (Atoi (nums ! 1))),
                          Patch = word_of_int (the (Atoi (nums ! 2))),
                          Channel = ch\<rparr>)"

subsection \<open>Decimal numerals\<close>

lemma code_char_of [simp]: "code (char_of n) = n mod 256"
  by (simp add: code_def)

lemma code_digit: "d < 10 \<Longrightarrow> code (digit d) = 48 + d"
  by (simp add: digit_def)

lemma digits_value_snoc [simp]:
  "digits_value (s @ [c]) = digits_value s * 10 + (code c - 48)"
  by (simp add: digits_value_def)

lemma itoa_nonempty [simp]: "itoa n \<noteq> []"
  by (subst itoa.simps) simp

lemma is_digit_digit: "d < 10 \<Longrightarrow> is_digit (digit d)"
  by (simp add: is_digit_def code_digit)

lemma itoa_digits: "list_all is_digit (itoa n)"
proof (induction n rule: itoa.induct)
  case (1 n)
  then show ?case
    by (subst itoa.simps) (auto simp: is_digit_digit)
qed

lemma digits_value_itoa [simp]: "digits_value (itoa n) = n"
proof (induction n rule: itoa.induct)
  case (1 n)
  show ?case
  proof (cases "n < 10")
    case True
    then show ?thesis
      by (subst itoa.simps) (simp add: digits_value_def code_digit)
  next
    case False
    then show ?thesis
      using "1.IH" by (subst itoa.simps) (simp add: code_digit)
  qed
qed

lemma parse_digits_itoa [simp]: "parse_digits (itoa n) = Some n"
  by (simp add: parse_digits_def itoa_digits)

lemma digit_chars: "c \<in> set (itoa n) \<Longrightarrow> is_digit c"
  using itoa_digits by (auto simp: list_all_iff)

lemma not_digit_chars [simp]:
  "\<not> is_digit (CHR ''-'')" "\<not> is_digit (CHR ''+'')" "\<not> is_digit (CHR ''.'')" "\<not> is_digit (CHR ''~'')"
  by (simp_all add: is_digit_def code_def)

lemma Atoi_itoa:
  assumes "n < 256"
  shows "Atoi (itoa n) = Some (int n)"
proof -
  obtain c cs where s: "itoa n = c # cs"
    by (cases "itoa n") auto
  then have "is_digit c"
    using digit_chars [of c n] by simp
  then have "c \<noteq> CHR ''-''" and "c \<noteq> CHR ''+''"
    using not_digit_chars by metis+
  moreover have "parse_digits (c # cs) = Some n"
    using parse_digits_itoa [of n] by (simp add: s)
  ultimately show ?thesis
    using assms by (simp add: Atoi_def s)
qed

subsection \<open>Splitting\<close>

lemma Split_free: "c \<notin> set s \<Longrightarrow> Split s c = [s]"
  by (induction s) auto

lemma Split_Cons: "c \<notin> set s \<Longrightarrow> Split (s @ c # t) c = s # Split t c"
  by (induction s) auto

lemma IndexAny_None: "set s \<inter> set cs = {} \<Longrightarrow> IndexAny s cs = None"
  by (induction s) auto

lemma SplitN2_free: "c \<notin> set s \<Longrightarrow> SplitN2 s c = [s]"
  by (simp add: SplitN2_def)

lemma SplitN2_Cons:
  assumes "c \<notin> set s"
  shows "SplitN2 (s @ c # t) c = [s, t]"
proof -
  have "\<forall>x \<in> set s. x \<noteq> c" using assms by auto
  then show ?thesis by (simp add: SplitN2_def takeWhile_append2 dropWhile_append2)
qed

lemma dropWhile_none: "\<forall>x \<in> set s. \<not> P x \<Longrightarrow> dropWhile P s = s"
  by (cases s) auto

lemma TrimSpace_id: "\<forall>x \<in> set s. \<not> is_space x \<Longrightarrow> TrimSpace s = s"
  by (simp add: TrimSpace_def dropWhile_none)

lemma digit_not_space: "is_digit c \<Longrightarrow> \<not> is_space c"
  by (auto simp: is_digit_def is_space_def)

definition dotted3 :: "nat \<Rightarrow> nat \<Rightarrow> nat \<Rightarrow> string" where
  "dotted3 a b c = itoa a @ ''.'' @ itoa b @ ''.'' @ itoa c"

lemma set_itoa_free: "\<not> is_digit x \<Longrightarrow> x \<notin> set (itoa n)"
  using digit_chars by auto

lemma dotted3_free: "\<not> is_digit x \<Longrightarrow> x \<noteq> CHR ''.'' \<Longrightarrow> x \<notin> set (dotted3 a b c)"
  by (auto simp: dotted3_def set_itoa_free)

lemma Split_dotted3: "Split (dotted3 a b c) (CHR ''.'') = [itoa a, itoa b, itoa c]"
  by (simp add: dotted3_def Split_Cons Split_free set_itoa_free)

lemma dotted3_not_space: "\<forall>x \<in> set (dotted3 a b c). \<not> is_space x"
  by (auto simp: dotted3_def dest!: digit_chars digit_not_space) (simp add: is_space_def code_def)

lemma dotted3_nonempty [simp]: "dotted3 a b c \<noteq> []"
  by (simp add: dotted3_def)

lemma in_u8_Some [simp]: "n < 256 \<Longrightarrow> in_u8 (Some (int n))"
  by (simp add: in_u8_def)

lemma word_of_int_unat [simp]: "word_of_int (int (unat w)) = w"
  by simp

text \<open>Parsing a dotted triple with an optional suffix that carries no white space.\<close>

lemma Parse_dotted3_plain:
  assumes "a < 256" and "b < 256" and "c < 256"
  shows "ParseClientVersion (dotted3 a b c) =
    Inr \<lparr>Major = word_of_nat a, Minor = word_of_nat b, Patch = word_of_nat c,
         Channel = VersionChannelStable\<rparr>"
  using assms
  by (simp add: ParseClientVersion_def TrimSpace_id dotted3_not_space SplitN2_free dotted3_free
      IndexAny_None Split_dotted3 Atoi_itoa Let_def ToLower_def disjoint_iff)

lemma Parse_dotted3_suffix:
  assumes "a < 256" and "b < 256" and "c < 256"
    and "\<forall>x \<in> set suf. \<not> is_space x" and "suffix_channel suf \<noteq> VersionChannelStable"
  shows "ParseClientVersion (dotted3 a b c @ CHR ''-'' # suf) =
    Inr \<lparr>Major = word_of_nat a, Minor = word_of_nat b, Patch = word_of_nat c,
         Channel = suffix_channel suf\<rparr>"
proof -
  have "TrimSpace (dotted3 a b c @ CHR ''-'' # suf) = dotted3 a b c @ CHR ''-'' # suf"
    using assms(4) dotted3_not_space by (intro TrimSpace_id) (auto simp: is_space_def code_def)
  then show ?thesis
    using assms
    by (simp add: ParseClientVersion_def SplitN2_Cons dotted3_free
        IndexAny_None Split_dotted3 Atoi_itoa Let_def disjoint_iff)
qed

lemma version_String_dotted3:
  "version_String v =
     dotted3 (unat (Major v)) (unat (Minor v)) (unat (Patch v)) @ channel_String (Channel v)"
  by (simp add: version_String_def dotted3_def)

declare unat_byte_less [simp]

lemma lower_char_digit: "is_digit c \<Longrightarrow> lower_char c = c"
  by (simp add: is_digit_def lower_char_def)

lemma suffix_unknown: "suffix_channel (''unknown('' @ itoa n @ '')'') = VersionChannelOther"
proof -
  have "IndexAny (''unknown('' @ itoa n @ '')'') ''+~.'' = None"
    by (rule IndexAny_None) (auto dest: digit_chars)
  moreover have "ToLower (''unknown('' @ itoa n @ '')'') \<noteq> l"
    if "length l < 6" for l
    using that by (auto simp: ToLower_def)
  ultimately show ?thesis
    by (simp add: suffix_channel_def)
qed

lemma unknown_not_space: "\<forall>x \<in> set (''unknown('' @ itoa n @ '')''). \<not> is_space x"
  by (auto dest!: digit_chars digit_not_space) (simp_all add: is_space_def code_def)

lemma known_suffixes:
  "suffix_channel ''alpha'' = VersionChannelAlpha" "suffix_channel ''beta'' = VersionChannelBeta"
  "suffix_channel ''rc'' = VersionChannelRC" "suffix_channel ''dev'' = VersionChannelDev"
  "suffix_channel ''other'' = VersionChannelOther"
  by (simp_all add: suffix_channel_def ToLower_def lower_char_def code_def)

lemma channel_suffix_cases:
  "channel_String ch = [] \<and> ch = VersionChannelStable \<or>
   (\<exists>suf. channel_String ch = CHR ''-'' # suf \<and> (\<forall>x \<in> set suf. \<not> is_space x) \<and>
     suffix_channel suf = (if ch \<le> VersionChannelOther then ch else VersionChannelOther) \<and>
     suffix_channel suf \<noteq> VersionChannelStable)"
proof (cases "ch \<le> VersionChannelOther")
  case True
  then have "unat ch \<le> 5"
    by (simp add: channel_defs word_le_nat_alt)
  then have "unat ch = 0 \<or> unat ch = 1 \<or> unat ch = 2 \<or> unat ch = 3 \<or> unat ch = 4 \<or> unat ch = 5"
    by linarith
  then have "ch = 0 \<or> ch = 1 \<or> ch = 2 \<or> ch = 3 \<or> ch = 4 \<or> ch = 5"
    by (simp add: word_unat_eq_iff)
  with True show ?thesis
    by (elim disjE)
      (simp_all add: channel_String_def channel_defs
        known_suffixes [unfolded channel_defs] is_space_def code_def)
next
  case False
  then have "channel_String ch = CHR ''-'' # (''unknown('' @ itoa (unat ch) @ '')'')"
    by (auto simp: channel_String_def channel_defs word_le_nat_alt)
  with False show ?thesis
    using suffix_unknown [of "unat ch"] unknown_not_space [of "unat ch"]
    by (simp add: channel_defs)
qed

text \<open>
  C31. Parsing the printed form of a version gives the version back; a channel byte beyond
  the named ones is printed as "-unknown(n)" and read back as the channel "other".
\<close>

theorem version_print_parse:
  "ParseClientVersion (version_String v) =
     Inr (if Channel v \<le> VersionChannelOther then v else v\<lparr>Channel := VersionChannelOther\<rparr>)"
  using channel_suffix_cases [of "Channel v"]
proof (elim disjE exE conjE)
  assume "channel_String (Channel v) = []" and "Channel v = VersionChannelStable"
  then show ?thesis
    by (cases v) (simp add: version_String_dotted3 Parse_dotted3_plain channel_defs)
next
  fix suf
  assume "channel_String (Channel v) = CHR ''-'' # suf" and "\<forall>x \<in> set suf. \<not> is_space x"
    and "suffix_channel suf = (if Channel v \<le> VersionChannelOther then Channel v else VersionChannelOther)"
    and "suffix_channel suf \<noteq> VersionChannelStable"
  then show ?thesis
    by (cases v) (simp add: version_String_dotted3 Parse_dotted3_suffix)
qed

end
