(* ===== verification/Liveness_Session.thy ===== *)
theory Liveness_Session
  imports Liveness_Version
begin

text \<open>
  One liveness session (client/doublezerod/internal/liveness/session.go, with the route and
  peer types of manager.go and routing/routes.go): the session record with the fields of the
  Go struct, the interval computations, the transmit-time choice with back-off and jitter,
  the detection timer and the two operations that move the state machine, \<open>ExpireIfDue\<close> and
  \<open>HandleRx\<close>. The mutex of the struct makes each operation atomic, so each is a function on
  the record; clock readings and the random draw are arguments. \<open>rx_fsm\<close> is the abstract
  state machine that \<open>HandleRx\<close> refines, and \<open>sess_inv\<close> the invariant of every session the
  manager creates.
\<close>

subsection \<open>Addresses, routes and peers\<close>

record Route =
  Dst :: IPNet
  Src :: IP
  Table :: int
  NextHop :: IP
  Protocol :: int

record LRoute = Route +
  NoUninstall :: bool

record Peer =
  Interface :: string
  LocalIP :: string
  PeerIP :: string

record UDPAddr =
  UdpIP :: IP
  UdpPort :: int

datatype DownReason =
  DownReasonNone | DownReasonTimeout | DownReasonRemoteAdmin | DownReasonLocalAdmin
| DownReasonRemoteDown

datatype PeerMode = PeerModeUnknown | PeerModeActive | PeerModePassive

datatype KernelState = KernelStateUnknown | KernelStateAbsent | KernelStatePresent

subsection \<open>The session\<close>

record Session =
  route :: LRoute
  localDiscr :: "32 word"
  peerDiscr :: "32 word"
  state :: State
  upSince :: gotime
  downSince :: gotime
  lastDownReason :: DownReason
  lastUpdated :: gotime
  peerAdvertisedMode :: PeerMode
  peerClientVersion :: ClientVersion
  detectMult :: byte
  localTxMin :: duration
  localRxMin :: duration
  peerTxMin :: duration
  peerRxMin :: duration
  nextTx :: gotime
  detectDeadline :: gotime
  lastRx :: gotime
  peer :: Peer
  peerAddr :: UDPAddr
  alive :: bool
  minTxFloor :: duration
  maxTxCeil :: duration
  backoffMax :: duration
  backoffFactor :: "32 word"
  convUpStart :: gotime
  convDownStart :: gotime
  nextTxScheduled :: gotime
  nextDetectScheduled :: gotime

definition GetState :: "Session \<Rightarrow> State" where
  "GetState s = state s"

definition txInterval :: "Session \<Rightarrow> duration" where
  "txInterval s =
     (let iv = localTxMin s;
          iv = (if peerRxMin s > iv then peerRxMin s else iv);
          iv = (if iv < minTxFloor s then minTxFloor s else iv)
      in if iv > maxTxCeil s then maxTxCeil s else iv)"

definition rxInterval :: "Session \<Rightarrow> duration" where
  "rxInterval s =
     (let ref = peerTxMin s;
          ref = (if localRxMin s > ref then localRxMin s else ref);
          ref = (if ref = 0 then localRxMin s else ref);
          ref = (if ref < minTxFloor s then minTxFloor s else ref)
      in if ref > maxTxCeil s then maxTxCeil s else ref)"

definition detectTime :: "Session \<Rightarrow> duration" where
  "detectTime s = i64 (uint (detectMult s) * rxInterval s)"

text \<open>
  \<open>ComputeNextTx\<close>: the first two helpers are the effective interval and the new back-off
  factor; \<open>Int63n\<close> is the draw of the random source for the given span.
\<close>

definition startFactor :: "Session \<Rightarrow> 32 word" where
  "startFactor s = (if state s = StateDown \<and> backoffFactor s < 1 then 1 else backoffFactor s)"

definition effInterval :: "Session \<Rightarrow> duration" where
  "effInterval s =
     (let base = txInterval s in
      if state s = StateDown
      then let eff = i64 (base * uint (startFactor s))
           in if backoffMax s > 0 \<and> eff > backoffMax s then backoffMax s else eff
      else base)"

definition nextFactor :: "Session \<Rightarrow> 32 word" where
  "nextFactor s =
     (if state s = StateDown
      then if backoffMax s = 0 \<or> effInterval s < backoffMax s
           then (if startFactor s = 0 then 1 else startFactor s) * 2
           else startFactor s
      else 1)"

definition ComputeNextTx :: "(int \<Rightarrow> int) \<Rightarrow> gotime \<Rightarrow> Session \<Rightarrow> gotime \<times> Session" where
  "ComputeNextTx Int63n now s =
     (let eff = effInterval s;
          j = eff sdiv 10;
          span0 = i64 (i64 (2 * j) + 1);
          span = (if span0 < 1 then 1 else span0);
          off = Int63n span;
          jit = i64 (off - j);
          nxt = now + i64 (eff + jit)
      in (nxt, s\<lparr>nextTx := nxt, backoffFactor := nextFactor s\<rparr>))"

definition ArmDetect :: "gotime \<Rightarrow> Session \<Rightarrow> (gotime \<times> bool) \<times> Session" where
  "ArmDetect now s =
     (if \<not> alive s \<or> IsZero (detectDeadline s) then ((zero_time, False), s)
      else let ddl = detectDeadline s in
        if \<not> ddl > now
        then let ddl = now + detectTime s in ((ddl, True), s\<lparr>detectDeadline := ddl\<rparr>)
        else ((ddl, True), s))"

definition ExpireIfDue :: "gotime \<Rightarrow> Session \<Rightarrow> bool \<times> Session" where
  "ExpireIfDue now s =
     (if \<not> alive s then (False, s)
      else if (state s = StateUp \<or> state s = StateInit) \<and> \<not> IsZero (detectDeadline s)
              \<and> \<not> now < detectDeadline s
      then let s = (if state s = StateUp \<and> IsZero (convDownStart s)
                    then let start = lastRx s + rxInterval s
                         in s\<lparr>convDownStart := (if now > start then start else now)\<rparr>
                    else s)
           in (True,
               s\<lparr>state := StateDown, downSince := now, lastDownReason := DownReasonTimeout,
                 upSince := zero_time, backoffFactor := 1, detectDeadline := zero_time,
                 convUpStart := zero_time, lastUpdated := now\<rparr>)
      else (False, s))"

text \<open>\<open>HandleRx\<close>: learning the peer's mode and version, then one of the three branches.\<close>

definition learnPeer :: "ControlPacket \<Rightarrow> Session \<Rightarrow> Session" where
  "learnPeer ctrl s =
     s\<lparr>peerAdvertisedMode := (if IsPassive ctrl then PeerModePassive else PeerModeActive),
       peerClientVersion := CtrlClientVersion ctrl\<rparr>"

definition rxAdminDown :: "gotime \<Rightarrow> Session \<Rightarrow> Session" where
  "rxAdminDown now s =
     s\<lparr>convDownStart := (if (state s = StateUp \<or> state s = StateInit) \<and> IsZero (convDownStart s)
                         then now else convDownStart s),
       state := StateDown, downSince := now, lastDownReason := DownReasonRemoteAdmin,
       upSince := zero_time, detectDeadline := zero_time, backoffFactor := 1,
       lastUpdated := now\<rparr>"

definition staleDown :: "gotime \<Rightarrow> Session \<Rightarrow> bool" where
  "staleDown now s =
     (state s = StateUp \<and> \<not> IsZero (upSince s)
      \<and> detectTime s > 0 \<and> time_sub now (upSince s) < detectTime s)"

definition rxDown :: "gotime \<Rightarrow> Session \<Rightarrow> Session" where
  "rxDown now s =
     s\<lparr>convDownStart := (if IsZero (convDownStart s) then now else convDownStart s),
       state := StateDown, downSince := now, lastDownReason := DownReasonRemoteDown,
       upSince := zero_time, detectDeadline := zero_time, backoffFactor := 1,
       convUpStart := zero_time, lastUpdated := now\<rparr>"

definition clampPeer :: "Session \<Rightarrow> duration \<Rightarrow> duration" where
  "clampPeer s d =
     (if d < minTxFloor s then minTxFloor s
      else if maxTxCeil s > 0 \<and> d > maxTxCeil s then maxTxCeil s else d)"

definition rxTimers :: "gotime \<Rightarrow> ControlPacket \<Rightarrow> Session \<Rightarrow> Session" where
  "rxTimers now ctrl s =
     (let s1 = (if peerDiscr s = 0 \<and> LocalDiscr ctrl \<noteq> 0
                then s\<lparr>peerDiscr := LocalDiscr ctrl\<rparr> else s);
          rtx = uint (DesiredMinTxUs ctrl) * microsecond;
          rrx = uint (RequiredMinRxUs ctrl) * microsecond;
          s2 = s1\<lparr>peerTxMin := clampPeer s1 rtx, peerRxMin := clampPeer s1 rrx, lastRx := now\<rparr>
      in s2\<lparr>detectDeadline := now + detectTime s2\<rparr>)"

definition goUp :: "gotime \<Rightarrow> Session \<Rightarrow> Session" where
  "goUp now s =
     s\<lparr>state := StateUp, upSince := now, downSince := zero_time,
       lastDownReason := DownReasonNone, backoffFactor := 1, lastUpdated := now\<rparr>"

definition rxAdvance :: "gotime \<Rightarrow> ControlPacket \<Rightarrow> Session \<Rightarrow> Session" where
  "rxAdvance now ctrl s =
     (case state s of
        StateDown \<Rightarrow>
          let s = (if IsZero (convUpStart s) then s\<lparr>convUpStart := now\<rparr> else s) in
          if peerDiscr s \<noteq> 0
          then if PeerDiscr ctrl = localDiscr s \<and> CtrlState ctrl \<ge> StateInit
               then goUp now s
               else s\<lparr>state := StateInit, downSince := zero_time,
                      lastDownReason := DownReasonNone, backoffFactor := 1, lastUpdated := now\<rparr>
          else s
      | StateInit \<Rightarrow>
          if peerDiscr s \<noteq> 0 \<and> CtrlState ctrl \<ge> StateInit \<and> PeerDiscr ctrl = localDiscr s
          then goUp now s else s
      | StateUp \<Rightarrow>
          if LocalDiscr ctrl \<noteq> 0 \<and> LocalDiscr ctrl \<noteq> peerDiscr s
          then s\<lparr>peerDiscr := LocalDiscr ctrl, convUpStart := now, lastUpdated := now\<rparr> else s
      | StateAdminDown \<Rightarrow> s)"

definition HandleRx :: "gotime \<Rightarrow> ControlPacket \<Rightarrow> Session \<Rightarrow> bool \<times> Session" where
  "HandleRx now ctrl s0 =
     (if state s0 = StateAdminDown then (False, s0)
      else if PeerDiscr ctrl \<noteq> 0 \<and> PeerDiscr ctrl \<noteq> localDiscr s0 then (False, s0)
      else let s = learnPeer ctrl s0; prev = state s in
        if CtrlState ctrl = StateAdminDown
        then let s' = rxAdminDown now s in (state s' \<noteq> prev, s')
        else if CtrlState ctrl = StateDown \<and> (prev = StateUp \<or> prev = StateInit)
        then if staleDown now s then (False, s)
             else let s' = rxDown now s in (state s' \<noteq> prev, s')
        else let s' = rxAdvance now ctrl (rxTimers now ctrl s) in (state s' \<noteq> prev, s'))"

text \<open>The session part of \<open>AdminDownRoute\<close> in manager.go.\<close>

definition adminDownSession :: "gotime \<Rightarrow> Session \<Rightarrow> Session" where
  "adminDownSession now s =
     (if state s \<noteq> StateAdminDown
      then s\<lparr>convDownStart := (if (state s = StateUp \<or> state s = StateInit) \<and> IsZero (convDownStart s)
                               then now else convDownStart s),
             state := StateAdminDown, downSince := now, lastDownReason := DownReasonLocalAdmin,
             upSince := zero_time, detectDeadline := zero_time, nextDetectScheduled := zero_time,
             lastUpdated := now\<rparr>
      else s)"

record SessionSnapshot =
  snapPeer :: Peer
  snapRoute :: LRoute
  snapState :: State
  snapLocalDiscr :: "32 word"
  snapPeerDiscr :: "32 word"
  snapConvUpStart :: gotime
  snapConvDownStart :: gotime
  snapUpSince :: gotime
  snapDownSince :: gotime
  snapLastDownReason :: DownReason
  snapDetectDeadline :: gotime
  snapNextDetectScheduled :: gotime
  snapLastUpdated :: gotime
  snapPeerAdvertisedMode :: PeerMode
  snapPeerClientVersion :: ClientVersion
  snapExpectedKernelState :: KernelState

definition Snapshot :: "Session \<Rightarrow> SessionSnapshot" where
  "Snapshot s =
     \<lparr>snapPeer = peer s, snapRoute = route s, snapState = state s,
      snapLocalDiscr = localDiscr s, snapPeerDiscr = peerDiscr s,
      snapConvUpStart = convUpStart s, snapConvDownStart = convDownStart s,
      snapUpSince = upSince s, snapDownSince = downSince s,
      snapLastDownReason = lastDownReason s, snapDetectDeadline = detectDeadline s,
      snapNextDetectScheduled = nextDetectScheduled s, snapLastUpdated = lastUpdated s,
      snapPeerAdvertisedMode = peerAdvertisedMode s, snapPeerClientVersion = peerClientVersion s,
      snapExpectedKernelState = KernelStateUnknown\<rparr>"

subsection \<open>The abstract state machine\<close>

datatype rx_event = RxForeign | RxAdmin | RxDown bool | RxConfirm | RxHello

definition rx_view :: "gotime \<Rightarrow> ControlPacket \<Rightarrow> Session \<Rightarrow> rx_event" where
  "rx_view now ctrl s =
     (if PeerDiscr ctrl \<noteq> 0 \<and> PeerDiscr ctrl \<noteq> localDiscr s then RxForeign
      else if CtrlState ctrl = StateAdminDown then RxAdmin
      else if CtrlState ctrl = StateDown then RxDown (staleDown now s)
      else if PeerDiscr ctrl = localDiscr s then RxConfirm else RxHello)"

fun rx_fsm :: "bool \<Rightarrow> State \<Rightarrow> rx_event \<Rightarrow> State" where
  "rx_fsm known StateAdminDown e = StateAdminDown"
| "rx_fsm known st RxForeign = st"
| "rx_fsm known st RxAdmin = StateDown"
| "rx_fsm known StateUp (RxDown recent) = (if recent then StateUp else StateDown)"
| "rx_fsm known StateInit (RxDown recent) = StateDown"
| "rx_fsm known StateDown (RxDown recent) = (if known then StateInit else StateDown)"
| "rx_fsm known StateDown RxConfirm = (if known then StateUp else StateDown)"
| "rx_fsm known StateDown RxHello = (if known then StateInit else StateDown)"
| "rx_fsm known StateInit RxConfirm = (if known then StateUp else StateInit)"
| "rx_fsm known StateInit RxHello = StateInit"
| "rx_fsm known StateUp e = StateUp"

lemma txInterval_eq:
  "txInterval s = min (maxTxCeil s) (max (minTxFloor s) (max (localTxMin s) (peerRxMin s)))"
  by (simp add: txInterval_def Let_def min_def max_def)

lemma rxInterval_eq:
  "rxInterval s =
     min (maxTxCeil s) (max (minTxFloor s)
       (if max (peerTxMin s) (localRxMin s) = 0 then localRxMin s
        else max (peerTxMin s) (localRxMin s)))"
  by (simp add: rxInterval_def Let_def min_def max_def)

lemmas rx_branch_defs = learnPeer_def rxAdminDown_def rxDown_def rxTimers_def rxAdvance_def goUp_def

lemma learnPeer_simps [simp]:
  "state (learnPeer ctrl s) = state s" "upSince (learnPeer ctrl s) = upSince s"
  "peerDiscr (learnPeer ctrl s) = peerDiscr s" "localDiscr (learnPeer ctrl s) = localDiscr s"
  "detectDeadline (learnPeer ctrl s) = detectDeadline s" "alive (learnPeer ctrl s) = alive s"
  "downSince (learnPeer ctrl s) = downSince s" "lastDownReason (learnPeer ctrl s) = lastDownReason s"
  "lastRx (learnPeer ctrl s) = lastRx s" "convUpStart (learnPeer ctrl s) = convUpStart s"
  "convDownStart (learnPeer ctrl s) = convDownStart s"
  "minTxFloor (learnPeer ctrl s) = minTxFloor s" "maxTxCeil (learnPeer ctrl s) = maxTxCeil s"
  "detectMult (learnPeer ctrl s) = detectMult s"
  "backoffMax (learnPeer ctrl s) = backoffMax s" "backoffFactor (learnPeer ctrl s) = backoffFactor s"
  "peerTxMin (learnPeer ctrl s) = peerTxMin s" "localRxMin (learnPeer ctrl s) = localRxMin s"
  by (simp_all add: learnPeer_def)

lemma rxInterval_learnPeer [simp]: "rxInterval (learnPeer ctrl s) = rxInterval s"
  by (simp add: rxInterval_eq)

lemma detectTime_learnPeer [simp]: "detectTime (learnPeer ctrl s) = detectTime s"
  by (simp add: detectTime_def)

lemma staleDown_learnPeer [simp]: "staleDown now (learnPeer ctrl s) = staleDown now s"
  by (simp add: staleDown_def)

lemma rxTimers_simps [simp]:
  "state (rxTimers now ctrl s) = state s" "upSince (rxTimers now ctrl s) = upSince s"
  "localDiscr (rxTimers now ctrl s) = localDiscr s" "alive (rxTimers now ctrl s) = alive s"
  "downSince (rxTimers now ctrl s) = downSince s"
  "lastDownReason (rxTimers now ctrl s) = lastDownReason s"
  "lastRx (rxTimers now ctrl s) = now"
  "peerDiscr (rxTimers now ctrl s) = (if peerDiscr s = 0 then LocalDiscr ctrl else peerDiscr s)"
  "minTxFloor (rxTimers now ctrl s) = minTxFloor s" "maxTxCeil (rxTimers now ctrl s) = maxTxCeil s"
  "detectMult (rxTimers now ctrl s) = detectMult s"
  "backoffMax (rxTimers now ctrl s) = backoffMax s" "backoffFactor (rxTimers now ctrl s) = backoffFactor s"
  by (simp_all add: rxTimers_def Let_def)

lemma detect_rxTimers:
  "detectDeadline (rxTimers now ctrl s) = now + detectTime (rxTimers now ctrl s)"
proof -
  have "detectTime (t\<lparr>detectDeadline := d\<rparr>) = detectTime t" for t :: Session and d
    by (simp add: detectTime_def rxInterval_eq)
  then show ?thesis by (simp only: rxTimers_def Let_def) simp
qed

lemma state_rxAdvance:
  "state (rxAdvance now ctrl s) =
     (case state s of
        StateDown \<Rightarrow>
          if peerDiscr s = 0 then StateDown
          else if PeerDiscr ctrl = localDiscr s \<and> StateInit \<le> CtrlState ctrl then StateUp else StateInit
      | StateInit \<Rightarrow>
          if peerDiscr s \<noteq> 0 \<and> StateInit \<le> CtrlState ctrl \<and> PeerDiscr ctrl = localDiscr s
          then StateUp else StateInit
      | st \<Rightarrow> st)"
  by (cases "state s") (auto simp add: rxAdvance_def goUp_def Let_def)

lemma HandleRx_fsm:
  "state (snd (HandleRx now ctrl s)) =
     rx_fsm (peerDiscr s \<noteq> 0 \<or> LocalDiscr ctrl \<noteq> 0) (state s) (rx_view now ctrl s)"
  by (cases "state s"; cases "CtrlState ctrl")
    (simp_all add: HandleRx_def rx_view_def Let_def state_rxAdvance rxAdminDown_def rxDown_def staleDown_def)


subsection \<open>The invariant of a session\<close>

definition span_ok :: "duration \<Rightarrow> duration \<Rightarrow> duration \<Rightarrow> bool" where
  "span_ok lo hi cap \<longleftrightarrow> hi * (2 * cap) < 2 ^ 62 * lo"

definition sess_cfg :: "Session \<Rightarrow> bool" where
  "sess_cfg s \<longleftrightarrow> 0 < minTxFloor s \<and> minTxFloor s \<le> maxTxCeil s \<and> maxTxCeil s < 2 ^ 55
     \<and> 0 < detectMult s \<and> localDiscr s \<noteq> 0
     \<and> minTxFloor s \<le> backoffMax s \<and> backoffMax s < 2 ^ 61
     \<and> span_ok (minTxFloor s) (maxTxCeil s) (backoffMax s)"

text \<open>The back-off factor stays below twice the number of floors in the cap.\<close>

definition factor_ok :: "Session \<Rightarrow> bool" where
  "factor_ok s \<longleftrightarrow> uint (backoffFactor s) * minTxFloor s \<le> 2 * backoffMax s"

definition sess_inv :: "Session \<Rightarrow> bool" where
  "sess_inv s \<longleftrightarrow> sess_cfg s \<and> factor_ok s
     \<and> (state s = StateUp \<or> state s = StateInit \<longrightarrow>
          peerDiscr s \<noteq> 0 \<and> 0 < detectDeadline s \<and> 0 < lastRx s
          \<and> downSince s = 0 \<and> lastDownReason s = DownReasonNone)
     \<and> (if state s = StateUp then 0 < upSince s else upSince s = 0)
     \<and> (state s = StateAdminDown \<longrightarrow>
          lastDownReason s = DownReasonLocalAdmin \<and> detectDeadline s = 0)"

lemma rxInterval_bounds:
  "minTxFloor s \<le> maxTxCeil s \<Longrightarrow> minTxFloor s \<le> rxInterval s \<and> rxInterval s \<le> maxTxCeil s"
  by (simp add: rxInterval_eq)

lemma txInterval_bounds:
  "minTxFloor s \<le> maxTxCeil s \<Longrightarrow> minTxFloor s \<le> txInterval s \<and> txInterval s \<le> maxTxCeil s"
  by (simp add: txInterval_eq)

lemma detectTime_eq:
  assumes "sess_cfg s"
  shows "detectTime s = uint (detectMult s) * rxInterval s"
proof -
  have r: "0 < rxInterval s" "rxInterval s < 2 ^ 55"
    using assms rxInterval_bounds [of s] by (auto simp: sess_cfg_def)
  have d: "uint (detectMult s) < 2 ^ 8" "0 \<le> uint (detectMult s)"
    using unsigned_less [where 'a = int, of "detectMult s"] by simp_all
  have "uint (detectMult s) * rxInterval s \<le> 2 ^ 8 * rxInterval s"
    using d r by (intro mult_right_mono) auto
  also have "\<dots> < 2 ^ 8 * 2 ^ 55"
    using r by (intro mult_strict_left_mono) auto
  finally have "uint (detectMult s) * rxInterval s < 2 ^ 63"
    by simp
  moreover have "0 \<le> uint (detectMult s) * rxInterval s"
    using r d by (intro mult_nonneg_nonneg) auto
  then have "- (2 ^ 63) \<le> uint (detectMult s) * rxInterval s"
    by simp
  ultimately show ?thesis
    by (simp only: detectTime_def i64_id)
qed

lemma detectTime_pos:
  assumes "sess_cfg s"
  shows "0 < detectTime s"
proof -
  have "0 < rxInterval s"
    using assms rxInterval_bounds [of s] by (auto simp: sess_cfg_def)
  moreover have "0 < uint (detectMult s)"
    using assms by (simp add: sess_cfg_def word_less_def)
  ultimately show ?thesis
    by (simp only: detectTime_eq [OF assms]) simp
qed

lemma startFactor_bound:
  assumes "sess_cfg s" and "factor_ok s"
  shows "0 \<le> txInterval s * uint (startFactor s)" and "txInterval s * uint (startFactor s) < 2 ^ 62"
    and "uint (startFactor s) * minTxFloor s \<le> 2 * backoffMax s"
proof -
  let ?f = "uint (startFactor s)"
  have c: "0 < minTxFloor s" "minTxFloor s \<le> txInterval s" "txInterval s \<le> maxTxCeil s"
    "maxTxCeil s * (2 * backoffMax s) < 2 ^ 62 * minTxFloor s" "minTxFloor s \<le> backoffMax s"
    using assms(1) txInterval_bounds [of s] by (auto simp: sess_cfg_def span_ok_def)
  show f: "?f * minTxFloor s \<le> 2 * backoffMax s"
    using assms(2) c by (simp add: startFactor_def factor_ok_def)
  show "0 \<le> txInterval s * ?f" using c by simp
  have "(txInterval s * ?f) * minTxFloor s = txInterval s * (?f * minTxFloor s)" by simp
  also have "\<dots> \<le> txInterval s * (2 * backoffMax s)" using f c by (intro mult_left_mono) auto
  also have "\<dots> \<le> maxTxCeil s * (2 * backoffMax s)" using c by (intro mult_right_mono) auto
  also have "\<dots> < 2 ^ 62 * minTxFloor s" by (rule c)
  finally show "txInterval s * ?f < 2 ^ 62"
    using c(1) by (simp only: mult_less_cancel_right_pos)
qed

lemma effInterval_bounds:
  assumes "sess_cfg s" and "factor_ok s"
  shows "0 \<le> effInterval s \<and> effInterval s \<le> max (maxTxCeil s) (backoffMax s) \<and> effInterval s < 2 ^ 62"
proof -
  note b = startFactor_bound [OF assms]
  have c: "0 < minTxFloor s" "0 < txInterval s" "txInterval s \<le> maxTxCeil s" "maxTxCeil s < 2 ^ 55"
    "minTxFloor s \<le> backoffMax s" "backoffMax s < 2 ^ 61"
    using assms(1) txInterval_bounds [of s] by (auto simp: sess_cfg_def)
  have "i64 (txInterval s * uint (startFactor s)) = txInterval s * uint (startFactor s)"
    using b(1,2) by (intro i64_id) auto
  then show ?thesis
    using b(1,2) c by (auto simp: effInterval_def Let_def)
qed

lemma factor_ok_next:
  assumes "sess_cfg s" and "factor_ok s"
  shows "uint (nextFactor s) * minTxFloor s \<le> 2 * backoffMax s"
proof -
  note b = startFactor_bound [OF assms]
  have c: "0 < minTxFloor s" "minTxFloor s \<le> txInterval s" "minTxFloor s \<le> backoffMax s"
    using assms(1) txInterval_bounds [of s] by (auto simp: sess_cfg_def)
  consider "state s \<noteq> StateDown" | "state s = StateDown" "\<not> effInterval s < backoffMax s"
    | "state s = StateDown" "effInterval s < backoffMax s" by blast
  then show ?thesis
  proof cases
    case 1
    then show ?thesis using c by (simp add: nextFactor_def)
  next
    case 2
    then show ?thesis using b(3) c by (simp add: nextFactor_def)
  next
    case 3
    have "i64 (txInterval s * uint (startFactor s)) = txInterval s * uint (startFactor s)"
      using b(1,2) by (intro i64_id) auto
    then have "txInterval s * uint (startFactor s) < backoffMax s"
      using 3 c by (auto simp: effInterval_def Let_def split: if_splits)
    moreover have "minTxFloor s * uint (startFactor s) \<le> txInterval s * uint (startFactor s)"
      using c by (intro mult_right_mono) auto
    ultimately have m: "minTxFloor s * uint (startFactor s) \<le> backoffMax s" by linarith
    have "uint (startFactor s * 2) \<le> 2 * uint (startFactor s)"
      using zmod_le_nonneg_dividend [of "uint (startFactor s) * 2" "2 ^ 32"] by (simp add: uint_word_ariths)
    then have "uint (startFactor s * 2) * minTxFloor s \<le> 2 * uint (startFactor s) * minTxFloor s"
      using c by (intro mult_right_mono) auto
    also have "\<dots> \<le> 2 * backoffMax s" using m by (simp add: mult.commute mult.left_commute)
    finally have "uint (startFactor s * 2) * minTxFloor s \<le> 2 * backoffMax s" .
    then show ?thesis using 3 c by (simp add: nextFactor_def)
  qed
qed

lemma factor_ok_one:
  "sess_cfg s \<Longrightarrow> backoffFactor s = 1 \<Longrightarrow> factor_ok s"
  by (simp add: sess_cfg_def factor_ok_def)

lemma cfg_rxTimers [simp]: "sess_cfg (rxTimers now ctrl s) = sess_cfg s"
  by (simp add: sess_cfg_def)

lemma cfg_learnPeer [simp]: "sess_cfg (learnPeer ctrl s) = sess_cfg s"
  by (simp add: sess_cfg_def)

lemma sess_inv_rxDown: "sess_inv s \<Longrightarrow> sess_inv (rxDown now s)"
  by (simp add: sess_inv_def sess_cfg_def factor_ok_def rxDown_def zero_time_def)

lemma sess_inv_rxAdminDown: "sess_inv s \<Longrightarrow> sess_inv (rxAdminDown now s)"
  by (simp add: sess_inv_def sess_cfg_def factor_ok_def rxAdminDown_def zero_time_def)

lemma sess_inv_learnPeer: "sess_inv s \<Longrightarrow> sess_inv (learnPeer ctrl s)"
  by (simp add: sess_inv_def factor_ok_def)

lemma sess_inv_rxTimers:
  assumes "sess_inv s" and "0 < now" and "state s \<noteq> StateAdminDown"
  shows "sess_inv (rxTimers now ctrl s)"
proof -
  have "0 < detectTime (rxTimers now ctrl s)"
    using assms by (intro detectTime_pos) (simp add: sess_inv_def)
  then show ?thesis
    using assms by (auto simp: sess_inv_def factor_ok_def detect_rxTimers)
qed

lemma sess_inv_rxAdvance:
  assumes "sess_inv s" and "0 < now" and "0 < detectDeadline s" and "0 < lastRx s"
  shows "sess_inv (rxAdvance now ctrl s)"
  using assms
  by (cases "state s")
    (auto simp: sess_inv_def sess_cfg_def factor_ok_def rxAdvance_def goUp_def Let_def zero_time_def)

lemma sess_inv_HandleRx:
  assumes "sess_inv s" and "0 < now"
  shows "sess_inv (snd (HandleRx now ctrl s))"
proof -
  have adv: "sess_inv (rxAdvance now ctrl (rxTimers now ctrl (learnPeer ctrl s)))"
    if "state s \<noteq> StateAdminDown"
  proof (rule sess_inv_rxAdvance)
    show "sess_inv (rxTimers now ctrl (learnPeer ctrl s))"
      using assms that by (intro sess_inv_rxTimers sess_inv_learnPeer) auto
    have "0 < detectTime (rxTimers now ctrl (learnPeer ctrl s))"
      using assms by (intro detectTime_pos) (simp add: sess_inv_def)
    then show "0 < detectDeadline (rxTimers now ctrl (learnPeer ctrl s))"
      using assms by (simp add: detect_rxTimers)
  qed (use assms in simp_all)
  show ?thesis
    using assms adv
    by (simp add: HandleRx_def Let_def sess_inv_rxDown sess_inv_rxAdminDown sess_inv_learnPeer)
qed

lemma sess_inv_ExpireIfDue: "sess_inv s \<Longrightarrow> sess_inv (snd (ExpireIfDue now s))"
  by (simp add: ExpireIfDue_def Let_def sess_inv_def sess_cfg_def factor_ok_def zero_time_def)

lemma sess_inv_ComputeNextTx: "sess_inv s \<Longrightarrow> sess_inv (snd (ComputeNextTx r now s))"
  using factor_ok_next [of s] by (auto simp: ComputeNextTx_def Let_def sess_inv_def sess_cfg_def factor_ok_def)

lemma sess_inv_ArmDetect:
  assumes "sess_inv s" and "0 < now"
  shows "sess_inv (snd (ArmDetect now s))"
proof -
  have "0 < detectTime s"
    using assms by (simp add: sess_inv_def detectTime_pos)
  then show ?thesis
    using assms by (auto simp: ArmDetect_def Let_def sess_inv_def sess_cfg_def factor_ok_def IsZero_def zero_time_def)
qed

lemma sess_inv_adminDown: "sess_inv s \<Longrightarrow> sess_inv (adminDownSession now s)"
  by (simp add: adminDownSession_def sess_inv_def sess_cfg_def factor_ok_def zero_time_def)

text \<open>Every way the package changes a session, as a step relation.\<close>

inductive sess_step :: "Session \<Rightarrow> Session \<Rightarrow> bool" where
  step_rx: "0 < now \<Longrightarrow> sess_step s (snd (HandleRx now ctrl s))"
| step_expire: "0 < now \<Longrightarrow> sess_step s (snd (ExpireIfDue now s))"
| step_tx: "0 < now \<Longrightarrow> sess_step s (snd (ComputeNextTx r now s))"
| step_arm: "0 < now \<Longrightarrow> sess_step s (snd (ArmDetect now s))"
| step_admin: "0 < now \<Longrightarrow> sess_step s (adminDownSession now s)"
| step_markers:
    "sess_step s (s\<lparr>alive := a, convUpStart := cu, convDownStart := cd,
       nextTxScheduled := nt, nextDetectScheduled := nd\<rparr>)"

lemma sess_inv_step: "sess_step s t \<Longrightarrow> sess_inv s \<Longrightarrow> sess_inv t"
proof (induction rule: sess_step.induct)
  case step_markers
  then show ?case by (simp add: sess_inv_def sess_cfg_def factor_ok_def)
qed (simp_all add: sess_inv_HandleRx sess_inv_ExpireIfDue sess_inv_ComputeNextTx
      sess_inv_ArmDetect sess_inv_adminDown)

definition sess_edges :: "(State \<times> State) set" where
  "sess_edges = {(StateDown, StateInit), (StateDown, StateUp), (StateInit, StateUp),
     (StateInit, StateDown), (StateUp, StateDown),
     (StateDown, StateAdminDown), (StateInit, StateAdminDown), (StateUp, StateAdminDown)}"

lemma rx_fsm_edges: "rx_fsm known st e = st \<or> (st, rx_fsm known st e) \<in> sess_edges"
  by (cases "(known, st, e)" rule: rx_fsm.cases) (auto simp: sess_edges_def)

lemma sess_step_edges: "sess_step s t \<Longrightarrow> state t = state s \<or> (state s, state t) \<in> sess_edges"
proof (induction rule: sess_step.induct)
  case (step_rx now s ctrl)
  then show ?case by (simp only: HandleRx_fsm rx_fsm_edges)
next
  case (step_expire now s)
  then show ?case by (auto simp: ExpireIfDue_def Let_def sess_edges_def)
next
  case (step_admin now s)
  then show ?case by (cases "state s") (auto simp: adminDownSession_def sess_edges_def)
qed (auto simp: ComputeNextTx_def ArmDetect_def Let_def)

subsection \<open>Detection\<close>

lemma ExpireIfDue_iff:
  "fst (ExpireIfDue now s) \<longleftrightarrow>
     alive s \<and> (state s = StateUp \<or> state s = StateInit) \<and> detectDeadline s \<noteq> 0
     \<and> detectDeadline s \<le> now"
  by (auto simp: ExpireIfDue_def Let_def IsZero_def zero_time_def)

lemma ExpireIfDue_Down:
  "fst (ExpireIfDue now s) \<Longrightarrow>
     state (snd (ExpireIfDue now s)) = StateDown \<and>
     lastDownReason (snd (ExpireIfDue now s)) = DownReasonTimeout \<and>
     detectDeadline (snd (ExpireIfDue now s)) = 0 \<and> backoffFactor (snd (ExpireIfDue now s)) = 1"
  by (auto simp: ExpireIfDue_def Let_def zero_time_def split: if_splits)

lemma ExpireIfDue_noop: "\<not> fst (ExpireIfDue now s) \<Longrightarrow> snd (ExpireIfDue now s) = s"
  by (auto simp: ExpireIfDue_def Let_def split: if_splits)

lemma rxAdvance_timers [simp]:
  "detectDeadline (rxAdvance now ctrl s) = detectDeadline s"
  "lastRx (rxAdvance now ctrl s) = lastRx s"
  "alive (rxAdvance now ctrl s) = alive s"
  "minTxFloor (rxAdvance now ctrl s) = minTxFloor s" "maxTxCeil (rxAdvance now ctrl s) = maxTxCeil s"
  "peerTxMin (rxAdvance now ctrl s) = peerTxMin s" "localRxMin (rxAdvance now ctrl s) = localRxMin s"
  "detectMult (rxAdvance now ctrl s) = detectMult s"
  by (cases "state s"; simp add: rxAdvance_def goUp_def Let_def)+

lemma detectTime_rxAdvance [simp]: "detectTime (rxAdvance now ctrl s) = detectTime s"
  by (simp add: detectTime_def rxInterval_eq)

text \<open>A packet refreshes the timer when it is neither foreign, nor a shutdown, nor a Down report.\<close>

definition rx_refreshes :: "gotime \<Rightarrow> ControlPacket \<Rightarrow> Session \<Rightarrow> bool" where
  "rx_refreshes now ctrl s \<longleftrightarrow>
     state s \<noteq> StateAdminDown \<and> (PeerDiscr ctrl = 0 \<or> PeerDiscr ctrl = localDiscr s)
     \<and> CtrlState ctrl \<noteq> StateAdminDown \<and> \<not> (CtrlState ctrl = StateDown \<and> state s \<in> {StateUp, StateInit})"

lemma HandleRx_refreshes:
  "rx_refreshes now ctrl s \<Longrightarrow>
     snd (HandleRx now ctrl s) = rxAdvance now ctrl (rxTimers now ctrl (learnPeer ctrl s))"
  by (auto simp: rx_refreshes_def HandleRx_def Let_def)

lemma HandleRx_deadline:
  assumes "rx_refreshes now ctrl s"
  shows "detectDeadline (snd (HandleRx now ctrl s)) = now + detectTime (snd (HandleRx now ctrl s))"
    and "alive (snd (HandleRx now ctrl s)) = alive s"
  using assms by (simp_all add: HandleRx_refreshes detect_rxTimers)

text \<open>
  C23. After a packet that refreshes the session (not foreign, not a shutdown, not a Down
  report) at time \<open>now\<close>, an established or establishing session is declared dead by the
  detect timer exactly from \<open>now\<close> plus detection multiplier times receive interval on: not
  one nanosecond earlier, and always from then.
\<close>

theorem detection_exact:
  assumes "sess_inv s" and "alive s" and "0 < now" and "rx_refreshes now ctrl s"
    and "s' = snd (HandleRx now ctrl s)" and "state s' = StateUp \<or> state s' = StateInit"
  shows "fst (ExpireIfDue later s') \<longleftrightarrow> now + uint (detectMult s') * rxInterval s' \<le> later"
proof -
  have "sess_inv s'"
    using assms by (simp add: sess_inv_HandleRx)
  then have "sess_cfg s'" by (simp add: sess_inv_def)
  then have "detectDeadline s' = now + uint (detectMult s') * rxInterval s'"
    using assms(5) HandleRx_deadline(1) [OF assms(4)] by (simp add: detectTime_eq)
  moreover have "alive s'"
    using assms(2,5) HandleRx_deadline(2) [OF assms(4)] by simp
  moreover have "detectDeadline s' \<noteq> 0"
    using \<open>sess_inv s'\<close> assms(6) by (auto simp: sess_inv_def)
  ultimately show ?thesis
    using assms(6) by (auto simp: ExpireIfDue_iff)
qed

subsection \<open>Transmission\<close>

lemma sdiv10_bounds: "(0::int) \<le> x \<Longrightarrow> x sdiv 10 = x div 10"
  by (cases "x = 0") (simp_all add: signed_divide_int_def)

lemma ComputeNextTx_next:
  assumes "0 \<le> effInterval s" and "effInterval s < 2 ^ 62"
    and "0 \<le> Int63n (2 * (effInterval s div 10) + 1)"
    and "Int63n (2 * (effInterval s div 10) + 1) < 2 * (effInterval s div 10) + 1"
  shows "fst (ComputeNextTx Int63n now s) =
     now + effInterval s - effInterval s div 10 + Int63n (2 * (effInterval s div 10) + 1)"
proof -
  let ?j = "effInterval s div 10" and ?off = "Int63n (2 * (effInterval s div 10) + 1)"
  have j: "0 \<le> ?j" "?j \<le> effInterval s" "?j < 2 ^ 61" using assms(1,2) by auto
  have sd: "effInterval s sdiv 10 = ?j"
    using assms(1) by (rule sdiv10_bounds)
  have e1: "i64 (2 * ?j) = 2 * ?j" and e2: "i64 (2 * ?j + 1) = 2 * ?j + 1"
    using j by (simp_all add: i64_id)
  have sp: "(if 2 * ?j + 1 < 1 then 1 else 2 * ?j + 1) = 2 * ?j + 1"
    using j by simp
  have e3: "i64 (?off - ?j) = ?off - ?j"
    using j assms(3,4) by (intro i64_id) auto
  have e4: "i64 (effInterval s + (?off - ?j)) = effInterval s + (?off - ?j)"
    using j assms by (intro i64_id) auto
  have "fst (ComputeNextTx Int63n now s) = now + (effInterval s + (?off - ?j))"
    by (simp only: ComputeNextTx_def Let_def fst_conv sd e1 e2 sp e3 e4)
  then show ?thesis by simp
qed

lemma ComputeNextTx_within:
  assumes "sess_inv s" and "\<forall>n > 0. 0 \<le> Int63n n \<and> Int63n n < n"
  shows "now + effInterval s - effInterval s div 10 \<le> fst (ComputeNextTx Int63n now s)"
    and "fst (ComputeNextTx Int63n now s) \<le> now + effInterval s + effInterval s div 10"
proof -
  have e: "0 \<le> effInterval s" "effInterval s < 2 ^ 62"
    using assms(1) effInterval_bounds [of s] by (auto simp: sess_inv_def)
  have "0 < 2 * (effInterval s div 10) + 1" using e(1) by auto
  with assms(2) have "0 \<le> Int63n (2 * (effInterval s div 10) + 1)"
    "Int63n (2 * (effInterval s div 10) + 1) < 2 * (effInterval s div 10) + 1"
    by blast+
  with ComputeNextTx_next [OF e, of Int63n now]
  show "now + effInterval s - effInterval s div 10 \<le> fst (ComputeNextTx Int63n now s)"
    and "fst (ComputeNextTx Int63n now s) \<le> now + effInterval s + effInterval s div 10"
    by simp_all
qed

text \<open>
  C28. For every session the invariant allows, the interval to the next transmission does not
  overflow: it is not negative and at most the larger of the interval ceiling and the
  back-off maximum, and the chosen time lies within ten percent of it, whatever the random
  source draws from its span.
\<close>

theorem next_tx_jitter:
  assumes "sess_inv s" and "\<forall>n > 0. 0 \<le> Int63n n \<and> Int63n n < n"
  shows "0 \<le> effInterval s \<and> effInterval s \<le> max (maxTxCeil s) (backoffMax s) \<and>
         now + effInterval s - effInterval s div 10 \<le> fst (ComputeNextTx Int63n now s) \<and>
         fst (ComputeNextTx Int63n now s) \<le> now + effInterval s + effInterval s div 10"
  using assms(1) effInterval_bounds [of s] ComputeNextTx_within [OF assms]
  by (simp add: sess_inv_def)

subsection \<open>Back-off\<close>




lemma ComputeNextTx_frame [simp]:
  "txInterval (snd (ComputeNextTx r now s)) = txInterval s"
  "backoffMax (snd (ComputeNextTx r now s)) = backoffMax s"
  "state (snd (ComputeNextTx r now s)) = state s"
  "backoffFactor (snd (ComputeNextTx r now s)) = nextFactor s"
  by (simp_all add: ComputeNextTx_def Let_def txInterval_eq)








subsection \<open>Properties of the state machine\<close>

interpretation sess: step_invariant sess_step sess_inv
  by unfold_locales (rule sess_inv_step)

interpretation sess_edge: step_invariant sess_step "\<lambda>s. state s = StateAdminDown"
proof unfold_locales
  fix s t
  assume "sess_step s t" and "state s = StateAdminDown"
  then show "state t = StateAdminDown"
    using sess_step_edges [of s t] by (auto simp: sess_edges_def)
qed


text \<open>
  A session comes Up only on a packet that echoes its own discriminator and whose
  sender is itself in Init or Up: no one-sided Up.
\<close>

theorem up_requires_echo:
  assumes "state s \<noteq> StateUp" and "state (snd (HandleRx now ctrl s)) = StateUp"
  shows "PeerDiscr ctrl = localDiscr s \<and> StateInit \<le> CtrlState ctrl"
  using assms
  by (cases "state s"; cases "CtrlState ctrl") (auto simp: HandleRx_fsm rx_view_def split: if_splits)

text \<open>
  C25. The invariant of a session survives every run of its operations: a session in Up or
  Init knows its peer's discriminator and has an armed detect timer, no down time and no
  down reason; the up time is set exactly in Up; AdminDown has a cleared timer.
\<close>

theorem session_invariant:
  assumes "sess_step\<^sup>*\<^sup>* s t" and "sess_inv s"
  shows "sess_inv t"
  using assms by (rule sess.run_inv)

text \<open>
  Every step of a session follows an edge of the protocol diagram, and AdminDown is
  absorbing: no packet and no timer leads out of it.
\<close>

theorem session_transitions:
  assumes "sess_step\<^sup>*\<^sup>* s t" and "sess_step t u"
  shows "(state u = state t \<or> (state t, state u) \<in> sess_edges) \<and>
         (state s = StateAdminDown \<longrightarrow> state u = StateAdminDown)"
  using assms sess_step_edges [of t u] sess_edge.run_inv [of s u]
  by (auto intro: rtranclp.rtrancl_into_rtrancl)

subsection \<open>Concrete instances\<close>

definition example_route :: LRoute where
  "example_route =
     \<lparr>Dst = \<lparr>NetIP = [10, 0, 0, 2], Mask = [255, 255, 255, 255]\<rparr>, Src = [10, 0, 0, 1],
      Table = 254, NextHop = [10, 0, 0, 2], Protocol = 186, NoUninstall = False\<rparr>"

definition example_session :: "State \<Rightarrow> Session" where
  "example_session st =
     \<lparr>route = example_route, localDiscr = 7, peerDiscr = 9, state = st,
      upSince = (if st = StateUp then 1 else 0), downSince = 0,
      lastDownReason = DownReasonNone, lastUpdated = 1,
      peerAdvertisedMode = PeerModeUnknown,
      peerClientVersion = \<lparr>Major = 0, Minor = 0, Patch = 0, Channel = 0\<rparr>,
      detectMult = 3, localTxMin = 300000000, localRxMin = 300000000, peerTxMin = 0, peerRxMin = 0,
      nextTx = 0, detectDeadline = 1000, lastRx = 1,
      peer = \<lparr>Interface = ''doublezero0'', LocalIP = ''10.0.0.1'', PeerIP = ''10.0.0.2''\<rparr>,
      peerAddr = \<lparr>UdpIP = [10, 0, 0, 2], UdpPort = 44880\<rparr>, alive = True,
      minTxFloor = 50000000, maxTxCeil = 3000000000, backoffMax = 60000000000, backoffFactor = 1,
      convUpStart = 0, convDownStart = 0, nextTxScheduled = 0, nextDetectScheduled = 0\<rparr>"

definition example_packet :: ControlPacket where
  "example_packet =
     \<lparr>Version = 1, CtrlState = StateInit, DetectMult = 3, Length = 40, LocalDiscr = 9,
      PeerDiscr = 7, DesiredMinTxUs = 300000, RequiredMinRxUs = 300000, Flags = 0,
      CtrlClientVersion = \<lparr>Major = 0, Minor = 8, Patch = 1, Channel = 0\<rparr>\<rparr>"

lemmas example_defs = example_session_def example_packet_def

lemma example_inv: "sess_inv (example_session StateInit)"
  by (simp add: sess_inv_def sess_cfg_def factor_ok_def span_ok_def example_session_def)

lemma example_rx:
  "state (snd (HandleRx 5000 example_packet (example_session StateInit))) = StateUp"
  "detectMult (snd (HandleRx 5000 example_packet (example_session StateInit))) = 3"
  "rxInterval (snd (HandleRx 5000 example_packet (example_session StateInit))) = 300000000"
  by (simp_all add: HandleRx_def example_defs Let_def learnPeer_def rxTimers_def rxAdvance_def
      goUp_def clampPeer_def microsecond_def IsPassive_def FlagPassive_def rxInterval_eq)

theorem detection_exact_witness:
  "\<not> fst (ExpireIfDue 900004999 (snd (HandleRx 5000 example_packet (example_session StateInit)))) \<and>
   fst (ExpireIfDue 900005000 (snd (HandleRx 5000 example_packet (example_session StateInit))))"
proof -
  have "alive (example_session StateInit)" and "(0::int) < 5000"
    and r: "rx_refreshes 5000 example_packet (example_session StateInit)"
    by (simp_all add: example_defs rx_refreshes_def)
  from detection_exact [OF example_inv this refl]
  have "fst (ExpireIfDue later (snd (HandleRx 5000 example_packet (example_session StateInit))))
      \<longleftrightarrow> 900005000 \<le> later" for later
    by (simp add: example_rx)
  then show ?thesis by simp
qed

theorem next_tx_jitter_witness:
  "1000 + 300000000 - 30000000 \<le> fst (ComputeNextTx (\<lambda>n. n div 2) 1000 (example_session StateInit)) \<and>
   fst (ComputeNextTx (\<lambda>n. n div 2) 1000 (example_session StateInit)) \<le> 1000 + 300000000 + 30000000"
proof -
  have e: "effInterval (example_session StateInit) = 300000000"
    by (simp add: effInterval_def txInterval_eq example_session_def)
  have "\<forall>n > 0. 0 \<le> n div 2 \<and> n div 2 < (n :: int)" by auto
  from next_tx_jitter [OF example_inv this, of 1000] show ?thesis
    by (simp add: e)
qed


theorem up_requires_echo_witness:
  "PeerDiscr example_packet = localDiscr (example_session StateInit) \<and> StateInit \<le> CtrlState example_packet"
proof (rule up_requires_echo)
  show "state (example_session StateInit) \<noteq> StateUp" by (simp add: example_session_def)
  show "state (snd (HandleRx 5000 example_packet (example_session StateInit))) = StateUp"
    by (rule example_rx)
qed

theorem session_invariant_witness:
  "sess_inv (snd (HandleRx 5000 example_packet (example_session StateInit)))"
proof (rule session_invariant)
  show "sess_step\<^sup>*\<^sup>* (example_session StateInit) (snd (HandleRx 5000 example_packet (example_session StateInit)))"
    by (rule r_into_rtranclp, rule step_rx) simp
qed (rule example_inv)

theorem session_transitions_witness:
  "state (snd (HandleRx 5000 example_packet (example_session StateInit))) = state (example_session StateInit) \<or>
   (state (example_session StateInit), state (snd (HandleRx 5000 example_packet (example_session StateInit))))
     \<in> sess_edges"
proof -
  have "sess_step (example_session StateInit) (snd (HandleRx 5000 example_packet (example_session StateInit)))"
    by (rule step_rx) simp
  from session_transitions [OF rtranclp.rtrancl_refl this] show ?thesis by simp
qed

end
