(* ===== verification/Event_Queue.thy ===== *)
theory Event_Queue
  imports Container_Heap Liveness_Session
begin

text \<open>
  The event queue of the liveness scheduler (client/doublezerod/internal/liveness/scheduler.go,
  lines 12-129): events ordered by time and then by the sequence number that \<open>Push\<close> assigns,
  kept in the heap of container/heap. A session pointer is the number of the session in the
  store that the manager keeps. The queue implements the contract \<open>priority_queue\<close>, and
  draining it is a stable sort of the pushed events by time.
\<close>

datatype eventType = eventTypeTX | eventTypeDetect

record event =
  ev_when :: gotime
  ev_type :: eventType
  ev_session :: nat
  ev_seq :: "64 word"

record EventQueue =
  pq :: "event list"
  q_seq :: "64 word"

type_synonym store = "nat \<Rightarrow> Session option"

definition event_Less :: "event \<Rightarrow> event \<Rightarrow> bool" where
  "event_Less a b =
     (if ev_when a = ev_when b then ev_seq a < ev_seq b else ev_when a < ev_when b)"

definition NewEventQueue :: EventQueue where
  "NewEventQueue = \<lparr>pq = [], q_seq = 0\<rparr>"

definition eq_Push :: "event \<Rightarrow> EventQueue \<Rightarrow> EventQueue" where
  "eq_Push e q =
     (let n = q_seq q + 1 in q\<lparr>q_seq := n, pq := heap_Push event_Less (pq q) (e\<lparr>ev_seq := n\<rparr>)\<rparr>)"

definition eq_Pop :: "EventQueue \<Rightarrow> (event \<times> EventQueue) option" where
  "eq_Pop q =
     (if length (pq q) = 0 then None
      else let (ev, h) = heap_Pop event_Less (pq q) in Some (ev, q\<lparr>pq := h\<rparr>))"

definition PopIfDue :: "gotime \<Rightarrow> EventQueue \<Rightarrow> (event option \<times> duration) \<times> EventQueue" where
  "PopIfDue now q =
     (if length (pq q) = 0 then ((None, 10 * millisecond), q)
      else let ev = pq q ! 0; d = time_sub (ev_when ev) now in
        if d > 0 then ((None, d), q)
        else let (ev, h) = heap_Pop event_Less (pq q) in ((Some ev, 0), q\<lparr>pq := h\<rparr>))"

definition CountFor :: "store \<Rightarrow> string \<Rightarrow> string \<Rightarrow> EventQueue \<Rightarrow> nat" where
  "CountFor st iface localIP q =
     length (filter (\<lambda>ev. case st (ev_session ev) of
         Some s \<Rightarrow> Interface (peer s) = iface \<and> LocalIP (peer s) = localIP
       | None \<Rightarrow> False) (pq q))"

definition eq_Len :: "EventQueue \<Rightarrow> nat" where
  "eq_Len q = length (pq q)"

interpretation ev: heap_order event_Less
  by unfold_locales (auto simp: event_Less_def split: if_splits)

definition eq_wf :: "EventQueue \<Rightarrow> bool" where
  "eq_wf q \<longleftrightarrow> is_heap event_Less (pq q) (length (pq q)) \<and> distinct (map ev_seq (pq q))
     \<and> (\<forall>e \<in> set (pq q). ev_seq e \<le> q_seq q)"

definition eq_room :: "EventQueue \<Rightarrow> bool" where
  "eq_room q \<longleftrightarrow> q_seq q < - 1"

abbreviation eq_stamp :: "event \<Rightarrow> EventQueue \<Rightarrow> event" where
  "eq_stamp e q \<equiv> e\<lparr>ev_seq := q_seq q + 1\<rparr>"

lemma mset_eq_Push: "eq_wf q \<Longrightarrow> mset (pq (eq_Push e q)) = add_mset (eq_stamp e q) (mset (pq q))"
  by (simp add: eq_Push_def Let_def eq_wf_def ev.heap_Push_correct)

lemma q_seq_eq_Push [simp]: "q_seq (eq_Push e q) = q_seq q + 1"
  by (simp add: eq_Push_def Let_def)

lemma seq_less_succ: "eq_room q \<Longrightarrow> (x::64 word) \<le> q_seq q \<Longrightarrow> x < q_seq q + 1"
proof -
  assume room: "eq_room q" and x: "x \<le> q_seq q"
  have "1 + q_seq q \<noteq> 0"
    using room by (metis add_eq_0_iff eq_room_def order_less_irrefl)
  from unatSuc [OF this] show ?thesis
    using x by (simp add: word_less_nat_alt word_le_nat_alt add.commute)
qed

lemma distinct_map_mset: "mset xs = mset ys \<Longrightarrow> distinct (map f xs) = distinct (map f ys)"
  by (metis mset_eq_imp_distinct_iff mset_map)

lemma eq_wf_Push:
  assumes "eq_wf q" and "eq_room q"
  shows "eq_wf (eq_Push e q)"
proof -
  let ?ys = "eq_stamp e q # pq q"
  have m: "mset (pq (eq_Push e q)) = mset ?ys"
    using assms(1) by (simp add: mset_eq_Push)
  then have s: "set (pq (eq_Push e q)) = insert (eq_stamp e q) (set (pq q))"
    by (metis list.simps(15) set_mset_mset)
  have lt: "x < q_seq q + 1" if "x \<le> q_seq q" for x
    using assms(2) that by (rule seq_less_succ)
  have "distinct (map ev_seq ?ys)"
    using assms(1) lt by (fastforce simp: eq_wf_def)
  then have "distinct (map ev_seq (pq (eq_Push e q)))"
    using distinct_map_mset [OF m] by blast
  moreover have "is_heap event_Less (pq (eq_Push e q)) (length (pq (eq_Push e q)))"
    using assms(1) ev.heap_Push_correct(1) by (simp add: eq_wf_def eq_Push_def Let_def)
  moreover have "\<forall>x \<in> set (pq (eq_Push e q)). ev_seq x \<le> q_seq (eq_Push e q)"
    using assms(1) lt by (force simp: s eq_wf_def intro: less_imp_le)
  ultimately show ?thesis by (simp add: eq_wf_def)
qed

lemma eq_Pop_correct:
  assumes "eq_wf q" and "eq_Pop q = Some (x, q')"
  shows "eq_wf q'" and "mset (pq q) = add_mset x (mset (pq q'))"
    and "\<forall>y \<in> set (pq q'). event_Less x y" and "q_seq q' = q_seq q" and "x = pq q ! 0"
proof -
  obtain h where h: "heap_Pop event_Less (pq q) = (x, h)" "q' = q\<lparr>pq := h\<rparr>" "pq q \<noteq> []"
    using assms(2) by (auto simp: eq_Pop_def split: if_splits prod.splits)
  have hp: "is_heap event_Less (pq q) (length (pq q))" using assms(1) by (simp add: eq_wf_def)
  note c = ev.heap_Pop_correct [OF hp h(3,1)]
  show m: "mset (pq q) = add_mset x (mset (pq q'))" using c(3) h(2) by simp
  then have m': "mset (pq q) = mset (x # pq q')" by simp
  then have s: "set (pq q) = insert x (set (pq q'))" by (metis list.simps(15) set_mset_mset)
  have d: "distinct (map ev_seq (x # pq q'))"
    using assms(1) distinct_map_mset [OF m', of ev_seq] by (simp only: eq_wf_def)
  show "eq_wf q'" using c(2) h(2) d s assms(1) by (auto simp: eq_wf_def)
  show "\<forall>y \<in> set (pq q'). event_Less x y"
  proof
    fix y assume y: "y \<in> set (pq q')"
    then have "\<not> event_Less y x" using c(4) s by auto
    moreover have "ev_seq y \<noteq> ev_seq x" using d y by (simp, metis image_eqI)
    ultimately show "event_Less x y" by (auto simp: event_Less_def split: if_splits)
  qed
  show "q_seq q' = q_seq q" using h(2) by simp
  show "x = pq q ! 0" using c(1) .
qed

interpretation evq: priority_queue eq_Push eq_Pop "\<lambda>q. mset (pq q)" eq_wf eq_room eq_stamp event_Less
proof unfold_locales
  fix q x
  assume "eq_wf q"
  then show "mset (pq (eq_Push x q)) = add_mset (eq_stamp x q) (mset (pq q))" by (rule mset_eq_Push)
next
  fix q x
  assume "eq_wf q" and "eq_room q"
  then show "eq_wf (eq_Push x q)" by (rule eq_wf_Push)
next
  fix q
  show "eq_Pop q = None \<longleftrightarrow> mset (pq q) = {#}"
    by (simp add: eq_Pop_def split: prod.splits)
next
  fix q x q'
  assume "eq_wf q" and "eq_Pop q = Some (x, q')"
  from eq_Pop_correct [OF this]
  show "eq_wf q' \<and> mset (pq q) = add_mset x (mset (pq q')) \<and> (\<forall>y \<in># mset (pq q'). event_Less x y)"
    by simp
qed


subsection \<open>Draining is a stable sort\<close>

fun stamps :: "64 word \<Rightarrow> event list \<Rightarrow> event list" where
  "stamps n [] = []"
| "stamps n (e # es) = e\<lparr>ev_seq := n\<rparr> # stamps (n + 1) es"

fun push_all :: "event list \<Rightarrow> EventQueue \<Rightarrow> EventQueue" where
  "push_all [] q = q"
| "push_all (e # es) q = push_all es (eq_Push e q)"

lemma word_Suc_room:
  fixes n :: "64 word"
  assumes "unat n + Suc k < 2 ^ 64"
  shows "unat (n + 1) = Suc (unat n)" and "n < - 1"
proof -
  have "1 + n \<noteq> 0"
  proof
    assume "1 + n = 0"
    then have "n = - 1" by (simp add: eq_neg_iff_add_eq_0 add.commute)
    then have "unat n = 2 ^ 64 - 1" by (simp add: unsigned_minus_1_eq_mask mask_eq_exp_minus_1)
    with assms show False by simp
  qed
  from unatSuc [OF this] show 1: "unat (n + 1) = Suc (unat n)" by (simp add: add.commute)
  show "n < - 1" using assms by (simp add: word_less_nat_alt unsigned_minus_1_eq_mask mask_eq_exp_minus_1)
qed

lemma push_all_correct:
  "eq_wf q \<Longrightarrow> unat (q_seq q) + length es < 2 ^ 64 \<Longrightarrow>
     eq_wf (push_all es q) \<and> mset (pq (push_all es q)) = mset (pq q) + mset (stamps (q_seq q + 1) es)"
proof (induction es arbitrary: q)
  case Nil
  then show ?case by simp
next
  case (Cons e es)
  from Cons.prems(2) have "unat (q_seq q) + Suc (length es) < 2 ^ 64" by simp
  note r = word_Suc_room [OF this]
  have "eq_wf (eq_Push e q)" using Cons.prems(1) r(2) by (simp add: eq_wf_Push eq_room_def)
  moreover have "unat (q_seq (eq_Push e q)) + length es < 2 ^ 64"
    using Cons.prems(2) r(1) by simp
  ultimately show ?case
    using Cons.IH [of "eq_Push e q"] mset_eq_Push [OF Cons.prems(1), of e] by simp
qed

lemma stamps_seq_ge:
  "unat n + length es \<le> 2 ^ 64 \<Longrightarrow> e \<in> set (stamps n es) \<Longrightarrow> unat n \<le> unat (ev_seq e)"
proof (induction es arbitrary: n)
  case Nil
  then show ?case by simp
next
  case (Cons x es)
  show ?case
  proof (cases "es = []")
    case True
    with Cons.prems show ?thesis by simp
  next
    case False
    then obtain k where "length es = Suc k" by (cases es) auto
    with Cons.prems have "unat n + Suc k < 2 ^ 64" by simp
    note r = word_Suc_room [OF this]
    show ?thesis
      using Cons.prems Cons.IH [of "n + 1"] r(1) by auto
  qed
qed

lemma insort_event_sorted:
  assumes "sorted_wrt event_Less es" and "\<forall>x \<in> set es. ev_seq e < ev_seq x"
  shows "sorted_wrt event_Less (insort_key ev_when e es)"
  using assms
proof (induction es)
  case Nil
  then show ?case by simp
next
  case (Cons x es)
  then show ?case
    by (force simp: event_Less_def set_insort_key split: if_splits)
qed

lemma sort_stamps_sorted:
  "unat n + length es \<le> 2 ^ 64 \<Longrightarrow> sorted_wrt event_Less (sort_key ev_when (stamps n es))"
proof (induction es arbitrary: n)
  case Nil
  then show ?case by simp
next
  case (Cons x es)
  show ?case
  proof (cases "es = []")
    case True
    then show ?thesis by simp
  next
    case False
    then obtain k where k: "length es = Suc k" by (cases es) auto
    with Cons.prems have "unat n + Suc k < 2 ^ 64" by simp
    note r = word_Suc_room [OF this]
    have "unat (n + 1) + length es \<le> 2 ^ 64" using Cons.prems r(1) by simp
    note ih = Cons.IH [OF this] and ge = stamps_seq_ge [OF this]
    have "\<forall>y \<in> set (sort_key ev_when (stamps (n + 1) es)). n < ev_seq y"
      using ge r(1) by (auto simp: word_less_nat_alt Suc_le_eq)
    then show ?thesis using insort_event_sorted [OF ih] by simp
  qed
qed

lemma sorted_wrt_unique:
  assumes asym: "\<And>a b. R a b \<Longrightarrow> \<not> R b a"
  shows "sorted_wrt R xs \<Longrightarrow> sorted_wrt R ys \<Longrightarrow> mset xs = mset ys \<Longrightarrow> xs = ys"
proof (induction xs arbitrary: ys)
  case Nil
  then show ?case by simp
next
  case (Cons x xs)
  then obtain y ys' where ys: "ys = y # ys'" by (cases ys) auto
  have "x = y"
  proof (rule ccontr)
    assume "x \<noteq> y"
    moreover have "set (x # xs) = set (y # ys')" using Cons.prems(3) ys by (metis set_mset_mset)
    ultimately have "y \<in> set xs" "x \<in> set ys'" by auto
    then have "R x y" "R y x" using Cons.prems(1,2) ys by auto
    then show False using asym by blast
  qed
  then show ?case using Cons ys by auto
qed

text \<open>
  C13. The queue is a stable priority queue: pushing any events (fewer than 2 to the 64) onto
  a new queue and popping them all gives exactly the events sorted by time, those of equal
  time in the order they were pushed.
\<close>

theorem drain_is_stable_sort:
  assumes "length es < 2 ^ 64"
  shows "drain eq_Pop (length es) (push_all es NewEventQueue) = sort_key ev_when (stamps 1 es)"
proof -
  let ?q = "push_all es NewEventQueue"
  have "eq_wf NewEventQueue" by (simp add: eq_wf_def NewEventQueue_def is_heap_def)
  from push_all_correct [OF this, of es] assms
  have q: "eq_wf ?q" "mset (pq ?q) = mset (stamps 1 es)" by (simp_all add: NewEventQueue_def)
  have len: "length (stamps n es) = length es" for n by (induction es arbitrary: n) auto
  have "size (mset (pq ?q)) \<le> length es" unfolding q(2) by (simp add: len)
  from evq.drain_sorted [OF q(1) this] show ?thesis
    using sort_stamps_sorted [of 1 es] assms q(2)
    by (intro sorted_wrt_unique [of event_Less]) (auto dest: ev.asym)
qed

text \<open>
  C16. \<open>PopIfDue\<close> neither fires early nor sleeps too long: a returned event is due and is the
  first of the queue, which keeps every other event; when it returns none, nothing is due,
  the queue is unchanged, and the returned wait is positive and ends no later than the first
  event.
\<close>

theorem PopIfDue_exact:
  assumes "eq_wf q"
  shows "case PopIfDue now q of
      ((Some e, w), q') \<Rightarrow> w = 0 \<and> ev_when e \<le> now \<and> eq_Pop q = Some (e, q') \<and> eq_wf q' \<and>
        mset (pq q) = add_mset e (mset (pq q')) \<and> (\<forall>x \<in> set (pq q'). event_Less e x)
    | ((None, w), q') \<Rightarrow> q' = q \<and> 0 < w \<and>
        (\<forall>x \<in> set (pq q). now < ev_when x \<and> now + w \<le> ev_when x)"
proof (cases "pq q = []")
  case True
  then show ?thesis by (simp add: PopIfDue_def millisecond_def)
next
  case ne: False
  let ?d = "time_sub (ev_when (pq q ! 0)) now"
  show ?thesis
  proof (cases "?d > 0")
    case True
    have hp: "is_heap event_Less (pq q) (length (pq q))" using assms by (simp add: eq_wf_def)
    have first: "ev_when (pq q ! 0) \<le> ev_when x" if "x \<in> set (pq q)" for x
      using ev.heap_root_least [OF hp] that
      by (force simp: in_set_conv_nth event_Less_def split: if_splits)
    have "now + ?d \<le> ev_when (pq q ! 0)"
      using True by (auto simp: time_sub_def)
    moreover have "now < ev_when (pq q ! 0)" using True by (simp add: time_sub_pos_iff)
    ultimately show ?thesis
      using ne True first by (fastforce simp: PopIfDue_def Let_def)
  next
    case False
    obtain e h where e: "heap_Pop event_Less (pq q) = (e, h)" by fastforce
    with ne have pop: "eq_Pop q = Some (e, q\<lparr>pq := h\<rparr>)" by (simp add: eq_Pop_def)
    have "ev_when e \<le> now"
      using False eq_Pop_correct(5) [OF assms pop] by (simp add: time_sub_pos_iff)
    then show ?thesis
      using ne False e pop eq_Pop_correct(1-3) [OF assms pop] by (simp add: PopIfDue_def Let_def)
  qed
qed

subsection \<open>Concrete instances\<close>

definition example_events :: "event list" where
  "example_events =
     [\<lparr>ev_when = 30, ev_type = eventTypeTX, ev_session = 0, ev_seq = 0\<rparr>,
      \<lparr>ev_when = 10, ev_type = eventTypeTX, ev_session = 1, ev_seq = 0\<rparr>,
      \<lparr>ev_when = 10, ev_type = eventTypeDetect, ev_session = 0, ev_seq = 0\<rparr>]"

theorem drain_is_stable_sort_witness:
  "drain eq_Pop 3 (push_all example_events NewEventQueue) =
     [\<lparr>ev_when = 10, ev_type = eventTypeTX, ev_session = 1, ev_seq = 2\<rparr>,
      \<lparr>ev_when = 10, ev_type = eventTypeDetect, ev_session = 0, ev_seq = 3\<rparr>,
      \<lparr>ev_when = 30, ev_type = eventTypeTX, ev_session = 0, ev_seq = 1\<rparr>]"
proof -
  have "length example_events = 3" by (simp add: example_events_def)
  with drain_is_stable_sort [of example_events]
  have "drain eq_Pop 3 (push_all example_events NewEventQueue) = sort_key ev_when (stamps 1 example_events)"
    by simp
  then show ?thesis by (simp add: example_events_def)
qed

lemma example_queue_wf: "eq_wf (push_all example_events NewEventQueue)"
proof -
  have "eq_wf NewEventQueue" by (simp add: eq_wf_def NewEventQueue_def is_heap_def)
  then show ?thesis
    using push_all_correct [of NewEventQueue example_events]
    by (simp add: NewEventQueue_def example_events_def)
qed

theorem PopIfDue_exact_witness:
  "case PopIfDue 20 (push_all example_events NewEventQueue) of
     ((Some e, w), q') \<Rightarrow> w = 0 \<and> ev_when e \<le> 20
   | ((None, w), q') \<Rightarrow> 0 < w \<and> (\<forall>x \<in> set (pq (push_all example_events NewEventQueue)). 20 < ev_when x)"
  using PopIfDue_exact [OF example_queue_wf, of 20] by (auto split: prod.splits option.splits)

end
