(* ===== verification/Liveness_Scheduler.thy ===== *)
theory Liveness_Scheduler
  imports Event_Queue
begin

text \<open>
  The scheduler of the liveness package (client/doublezerod/internal/liveness/scheduler.go,
  lines 131-432): the operations that put transmit and detect events into the queue, the
  transmission of a control packet, the expiry of a session, and one iteration of the event
  loop \<open>Run\<close>. The record \<open>World\<close> holds what these operations share with the manager: the
  sessions in memory, the scheduler, the datagrams written and the goroutines started and
  not yet run. The clock readings, random draws and write results of an iteration are the
  record \<open>Tick\<close>. \<open>sched_inv\<close> is the agreement between the markers kept in a session and the
  events in the queue.
\<close>

record Scheduler =
  eq :: EventQueue
  maxEvents :: int
  writeErrWarnEvery :: duration
  writeErrWarnLast :: gotime
  passiveMode :: bool
  clientVersion :: ClientVersion

record udp_write =
  w_bytes :: "byte list"
  w_addr :: UDPAddr
  w_iface :: string
  w_src :: IP

datatype task = TaskSessionUp nat | TaskSessionDown nat

record World =
  mem :: store
  sched :: Scheduler
  written :: "udp_write list"
  spawned :: "task list"

record Tick =
  t_loop :: gotime
  t_warn :: gotime
  t_tx :: gotime
  t_expire :: gotime
  t_arm :: gotime
  t_rnd :: "int \<Rightarrow> int"
  t_write_err :: bool
  t_done :: bool

definition NewScheduler :: "int \<Rightarrow> bool \<Rightarrow> ClientVersion \<Rightarrow> Scheduler" where
  "NewScheduler maxEv passive ver =
     \<lparr>eq = NewEventQueue, maxEvents = maxEv, writeErrWarnEvery = 5 * second,
      writeErrWarnLast = zero_time, passiveMode = passive, clientVersion = ver\<rparr>"

definition put :: "nat \<Rightarrow> Session \<Rightarrow> 'a World_scheme \<Rightarrow> 'a World_scheme" where
  "put sid s w = w\<lparr>mem := (mem w)(sid \<mapsto> s)\<rparr>"

definition pushEvent :: "gotime \<Rightarrow> eventType \<Rightarrow> nat \<Rightarrow> 'a World_scheme \<Rightarrow> 'a World_scheme" where
  "pushEvent when' et sid w =
     w\<lparr>sched := (sched w)\<lparr>eq := eq_Push \<lparr>ev_when = when', ev_type = et, ev_session = sid, ev_seq = 0\<rparr>
                                 (eq (sched w))\<rparr>\<rparr>"

definition maybeDropOnOverflow :: "eventType \<Rightarrow> Scheduler \<Rightarrow> bool" where
  "maybeDropOnOverflow et sc =
     (if maxEvents sc \<le> 0 then False
      else if int (eq_Len (eq sc)) < maxEvents sc then False
      else if et = eventTypeTX then False
      else True)"

definition scheduleTx :: "(int \<Rightarrow> int) \<Rightarrow> gotime \<Rightarrow> nat \<Rightarrow> 'a World_scheme \<Rightarrow> 'a World_scheme" where
  "scheduleTx rnd now sid w =
     (case mem w sid of
        None \<Rightarrow> w
      | Some s \<Rightarrow>
          if \<not> alive s \<or> \<not> IsZero (nextTxScheduled s) then w
          else let (nxt, s1) = ComputeNextTx rnd now s in
            if \<not> alive s1 \<or> \<not> IsZero (nextTxScheduled s1) then put sid s1 w
            else pushEvent nxt eventTypeTX sid (put sid (s1\<lparr>nextTxScheduled := nxt\<rparr>) w))"

definition scheduleDetect :: "gotime \<Rightarrow> nat \<Rightarrow> 'a World_scheme \<Rightarrow> 'a World_scheme" where
  "scheduleDetect now sid w =
     (case mem w sid of
        None \<Rightarrow> w
      | Some s \<Rightarrow>
          let ((ddl, ok), s1) = ArmDetect now s in
          if \<not> ok then put sid s1 w
          else if nextDetectScheduled s1 = ddl then put sid s1 w
          else let s2 = s1\<lparr>nextDetectScheduled := ddl\<rparr> in
            if maybeDropOnOverflow eventTypeDetect (sched w)
            then put sid (if nextDetectScheduled s2 = ddl then s2\<lparr>nextDetectScheduled := zero_time\<rparr> else s2) w
            else pushEvent ddl eventTypeDetect sid (put sid s2 w))"

definition txPacket :: "Scheduler \<Rightarrow> Session \<Rightarrow> ControlPacket" where
  "txPacket sc s =
     (let pkt = \<lparr>Version = 1, CtrlState = state s, DetectMult = detectMult s, Length = 40,
                 LocalDiscr = localDiscr s, PeerDiscr = peerDiscr s,
                 DesiredMinTxUs = word_of_int (localTxMin s sdiv microsecond),
                 RequiredMinRxUs = word_of_int (localRxMin s sdiv microsecond),
                 Flags = 0, CtrlClientVersion = \<lparr>Major = 0, Minor = 0, Patch = 0, Channel = 0\<rparr>\<rparr>;
          pkt = (if passiveMode sc then SetPassive pkt else pkt)
      in pkt\<lparr>CtrlClientVersion := clientVersion sc\<rparr>)"

definition doTX :: "Tick \<Rightarrow> nat \<Rightarrow> 'a World_scheme \<Rightarrow> 'a World_scheme" where
  "doTX t sid w =
     (case mem w sid of
        None \<Rightarrow> w
      | Some s \<Rightarrow>
          if \<not> alive s then w
          else let bpkt = Marshal (txPacket (sched w) s);
                   w1 = w\<lparr>written := written w @
                     [\<lparr>w_bytes = bpkt, w_addr = peerAddr s, w_iface = Interface (peer s),
                       w_src = Src (route s)\<rparr>]\<rparr>
            in if t_write_err t
               then if t_done t then w1
                    else if IsZero (writeErrWarnLast (sched w1))
                            \<or> time_sub (t_warn t) (writeErrWarnLast (sched w1)) \<ge> writeErrWarnEvery (sched w1)
                    then w1\<lparr>sched := (sched w1)\<lparr>writeErrWarnLast := t_warn t\<rparr>\<rparr>
                    else w1
               else w1)"

definition tryExpire :: "gotime \<Rightarrow> nat \<Rightarrow> 'a World_scheme \<Rightarrow> bool \<times> 'a World_scheme" where
  "tryExpire now sid w =
     (case mem w sid of
        None \<Rightarrow> (False, w)
      | Some s \<Rightarrow>
          let (expired, s1) = ExpireIfDue now s in
          if expired then (True, pushEvent now eventTypeTX sid (put sid s1 w)) else (False, put sid s1 w))"

text \<open>The two cases of the loop body of \<open>Run\<close>, each of which first clears its marker.\<close>

definition clearTx :: "event \<Rightarrow> Session \<Rightarrow> Session" where
  "clearTx ev s = (if ev_when ev = nextTxScheduled s then s\<lparr>nextTxScheduled := zero_time\<rparr> else s)"

definition clearDetect :: "event \<Rightarrow> Session \<Rightarrow> Session" where
  "clearDetect ev s = (if ev_when ev = nextDetectScheduled s then s\<lparr>nextDetectScheduled := zero_time\<rparr> else s)"

definition onTxEvent :: "Tick \<Rightarrow> event \<Rightarrow> 'a World_scheme \<Rightarrow> 'a World_scheme" where
  "onTxEvent t ev w =
     (case mem w (ev_session ev) of
        None \<Rightarrow> w
      | Some s \<Rightarrow>
          let s1 = clearTx ev s;
              w1 = doTX t (ev_session ev) (put (ev_session ev) s1 w)
          in if GetState s1 \<noteq> StateAdminDown then scheduleTx (t_rnd t) (t_tx t) (ev_session ev) w1 else w1)"

definition onDetectEvent :: "Tick \<Rightarrow> event \<Rightarrow> 'a World_scheme \<Rightarrow> 'a World_scheme" where
  "onDetectEvent t ev w =
     (case mem w (ev_session ev) of
        None \<Rightarrow> w
      | Some s \<Rightarrow>
          let s1 = clearDetect ev s;
              w1 = put (ev_session ev) s1 w
          in if ev_when ev \<noteq> detectDeadline s then w1
             else let (expired, w2) = tryExpire (t_expire t) (ev_session ev) w1 in
               if expired then w2\<lparr>spawned := spawned w2 @ [TaskSessionDown (ev_session ev)]\<rparr>
               else case mem w2 (ev_session ev) of
                   None \<Rightarrow> w2
                 | Some s2 \<Rightarrow>
                     if GetState s2 = StateUp \<or> GetState s2 = StateInit
                     then scheduleDetect (t_arm t) (ev_session ev) w2 else w2)"

text \<open>
  One iteration of the loop: nothing but sleeping when no event is due, otherwise the event
  is taken from the queue and handled.
\<close>

definition runIter :: "Tick \<Rightarrow> 'a World_scheme \<Rightarrow> duration \<times> 'a World_scheme" where
  "runIter t w =
     (case PopIfDue (t_loop t) (eq (sched w)) of
        ((None, wait), q) \<Rightarrow>
          (if wait \<le> 0 then 10 * millisecond else wait, w\<lparr>sched := (sched w)\<lparr>eq := q\<rparr>\<rparr>)
      | ((Some ev, wait), q) \<Rightarrow>
          let w1 = w\<lparr>sched := (sched w)\<lparr>eq := q\<rparr>\<rparr> in
          (0, case ev_type ev of
                eventTypeTX \<Rightarrow> onTxEvent t ev w1
              | eventTypeDetect \<Rightarrow> onDetectEvent t ev w1))"

lemma put_simps [simp]:
  "mem (put sid s w) = (mem w)(sid \<mapsto> s)" "sched (put sid s w) = sched w"
  "written (put sid s w) = written w" "spawned (put sid s w) = spawned w"
  by (simp_all add: put_def)

lemma pushEvent_simps [simp]:
  "mem (pushEvent d et sid w) = mem w" "written (pushEvent d et sid w) = written w"
  "spawned (pushEvent d et sid w) = spawned w"
  "maxEvents (sched (pushEvent d et sid w)) = maxEvents (sched w)"
  "passiveMode (sched (pushEvent d et sid w)) = passiveMode (sched w)"
  "clientVersion (sched (pushEvent d et sid w)) = clientVersion (sched w)"
  by (simp_all add: pushEvent_def)

subsection \<open>Markers and events\<close>

definition pending :: "'a World_scheme \<Rightarrow> eventType \<Rightarrow> nat \<Rightarrow> gotime \<Rightarrow> bool" where
  "pending w et sid d \<longleftrightarrow>
     (\<exists>e \<in> set (pq (eq (sched w))). ev_type e = et \<and> ev_session e = sid \<and> ev_when e = d)"

lemma set_eq_Push: "set (pq (eq_Push e q)) = insert (eq_stamp e q) (set (pq q))"
proof -
  have "mset (pq (eq_Push e q)) = mset (eq_stamp e q # pq q)"
    by (simp add: eq_Push_def Let_def heap_Push_def mset_heap_up)
  then show ?thesis by (metis list.simps(15) set_mset_mset)
qed

lemma pending_put [simp]: "pending (put sid s w) = pending w"
  by (simp add: pending_def fun_eq_iff)

lemma pending_push [simp]:
  "pending (pushEvent d et sid w) et' sid' d' \<longleftrightarrow> (et' = et \<and> sid' = sid \<and> d' = d) \<or> pending w et' sid' d'"
  by (auto simp: pending_def pushEvent_def set_eq_Push)

lemma PopIfDue_Some:
  assumes "PopIfDue now q = ((Some ev, wait), q')"
  shows "set (pq q) = insert ev (set (pq q'))" and "ev_when ev \<le> now" and "length (pq q') < length (pq q)"
proof -
  let ?n = "length (pq q) - 1"
  let ?h = "heap_down event_Less (swap (pq q) 0 ?n) 0 ?n"
  have ne: "pq q \<noteq> []" and due: "ev_when (pq q ! 0) \<le> now"
    and ev: "ev = ?h ! ?n" and q': "pq q' = take ?n ?h"
    using assms time_sub_pos_iff [of "ev_when (pq q ! 0)" now]
    by (auto simp: PopIfDue_def heap_Pop_def Let_def split: if_splits)
  have n: "?n < length (pq q)" using ne by simp
  have "?h ! ?n = swap (pq q) 0 ?n ! ?n"
  proof (cases "?n = 0")
    case True
    then show ?thesis by (subst heap_down.simps) (simp add: Let_def)
  next
    case False
    then show ?thesis by (intro heap_down_above) auto
  qed
  then have "ev = pq q ! 0" using ev n ne by (simp add: nth_swap)
  with due show "ev_when ev \<le> now" by simp
  have "?h = pq q' @ [ev]"
    using n ev q' by (metis Suc_pred' length_greater_0_conv length_heap_down length_swap lessI ne
      order_refl take_Suc_conv_app_nth take_all_iff)
  moreover have "mset ?h = mset (pq q)" using n ne by (subst mset_heap_down) auto
  ultimately show "set (pq q) = insert ev (set (pq q'))"
    by (metis mset_eq_setD set_append list.set(1,2) Un_insert_right Un_empty_right)
  show "length (pq q') < length (pq q)" using q' n by simp
qed

text \<open>
  The markers of a session agree with the queue; an alive session that is not shut down has
  a transmission scheduled, and one in Up or Init has its detect deadline scheduled. \<open>X\<close> and
  \<open>Y\<close> are the sessions for which the last two are not required in the middle of an operation.
\<close>

definition marks :: "'a World_scheme \<Rightarrow> nat \<Rightarrow> Session \<Rightarrow> bool" where
  "marks w sid s \<longleftrightarrow>
     (nextTxScheduled s \<noteq> 0 \<longrightarrow> pending w eventTypeTX sid (nextTxScheduled s)) \<and>
     (nextDetectScheduled s \<noteq> 0 \<longrightarrow> pending w eventTypeDetect sid (nextDetectScheduled s))"

definition tx_live :: "Session \<Rightarrow> bool" where
  "tx_live s \<longleftrightarrow> (alive s \<and> state s \<noteq> StateAdminDown \<longrightarrow> nextTxScheduled s \<noteq> 0)"

definition det_live :: "Session \<Rightarrow> bool" where
  "det_live s \<longleftrightarrow>
     (alive s \<and> (state s = StateUp \<or> state s = StateInit) \<longrightarrow> nextDetectScheduled s = detectDeadline s)"

definition inv_but :: "nat set \<Rightarrow> nat set \<Rightarrow> 'a World_scheme \<Rightarrow> bool" where
  "inv_but X Y w \<longleftrightarrow> (\<forall>sid s. mem w sid = Some s \<longrightarrow>
     sess_inv s \<and> marks w sid s \<and> (sid \<notin> X \<longrightarrow> tx_live s) \<and> (sid \<notin> Y \<longrightarrow> det_live s))"

abbreviation sched_inv :: "'a World_scheme \<Rightarrow> bool" where
  "sched_inv w \<equiv> inv_but {} {} w"

definition clock_ok :: "gotime \<Rightarrow> bool" where
  "clock_ok now \<longleftrightarrow> 2 ^ 63 < now"

lemma inv_butD:
  assumes "inv_but X Y w" and "mem w sid = Some s"
  shows "sess_inv s" and "marks w sid s" and "sid \<notin> X \<Longrightarrow> tx_live s" and "sid \<notin> Y \<Longrightarrow> det_live s"
  using assms by (auto simp: inv_but_def)

lemma inv_but_update:
  assumes "inv_but X Y w" and "mem w' = (mem w)(sid \<mapsto> s')"
    and "\<And>et i d. pending w et i d \<Longrightarrow> i \<noteq> sid \<Longrightarrow> pending w' et i d"
    and "sess_inv s'" and "marks w' sid s'"
    and "sid \<notin> X' \<Longrightarrow> tx_live s'" and "sid \<notin> Y' \<Longrightarrow> det_live s'"
    and "X \<subseteq> insert sid X'" and "Y \<subseteq> insert sid Y'"
  shows "inv_but X' Y' w'"
  unfolding inv_but_def
proof (intro allI impI)
  fix i t assume i: "mem w' i = Some t"
  show "sess_inv t \<and> marks w' i t \<and> (i \<notin> X' \<longrightarrow> tx_live t) \<and> (i \<notin> Y' \<longrightarrow> det_live t)"
  proof (cases "i = sid")
    case True
    then show ?thesis using i assms by simp
  next
    case False
    then have t: "mem w i = Some t" using i assms(2) by simp
    note d = inv_butD [OF assms(1) t]
    have "marks w' i t" using d(2) assms(3) False by (auto simp: marks_def)
    then show ?thesis using d(1,3,4) False assms(8,9) by auto
  qed
qed

lemma sess_inv_marks [simp]:
  "sess_inv (s\<lparr>nextTxScheduled := a\<rparr>) = sess_inv s" "sess_inv (s\<lparr>nextDetectScheduled := a\<rparr>) = sess_inv s"
  "sess_inv (s\<lparr>alive := b\<rparr>) = sess_inv s"
  "sess_inv (s\<lparr>convUpStart := a\<rparr>) = sess_inv s" "sess_inv (s\<lparr>convDownStart := a\<rparr>) = sess_inv s"
  by (simp_all add: sess_inv_def sess_cfg_def factor_ok_def)

lemma ComputeNextTx_nonzero: "clock_ok now \<Longrightarrow> 0 < fst (ComputeNextTx rnd now s)"
proof -
  assume "clock_ok now"
  moreover have "- (2 ^ 63) \<le> i64 x" for x by (rule i64_range)
  ultimately have "0 < now + i64 x" for x by (smt (verit, best) clock_ok_def)
  then show ?thesis by (simp add: ComputeNextTx_def Let_def)
qed

lemma ComputeNextTx_keeps [simp]:
  "alive (snd (ComputeNextTx r now s)) = alive s"
  "nextTxScheduled (snd (ComputeNextTx r now s)) = nextTxScheduled s"
  "nextDetectScheduled (snd (ComputeNextTx r now s)) = nextDetectScheduled s"
  "detectDeadline (snd (ComputeNextTx r now s)) = detectDeadline s"
  by (simp_all add: ComputeNextTx_def Let_def)

lemma scheduleTx_inv:
  assumes "inv_but X Y w" and "clock_ok now"
  shows "inv_but (X - {sid}) Y (scheduleTx rnd now sid w)"
proof (cases "mem w sid")
  case None
  then show ?thesis using assms(1) by (auto simp: scheduleTx_def inv_but_def)
next
  case (Some s)
  note d = inv_butD [OF assms(1) Some]
  show ?thesis
  proof (cases "alive s \<and> IsZero (nextTxScheduled s)")
    case False
    then have "tx_live s" by (auto simp: tx_live_def IsZero_def zero_time_def)
    then show ?thesis
      using assms(1) Some False by (auto simp: scheduleTx_def inv_but_def)
  next
    case True
    obtain nxt s1 where c: "ComputeNextTx rnd now s = (nxt, s1)" by fastforce
    have s1: "s1 = snd (ComputeNextTx rnd now s)" and nxt: "nxt = fst (ComputeNextTx rnd now s)"
      using c by simp_all
    have n: "0 < nxt" using ComputeNextTx_nonzero [OF assms(2), of rnd s] c by simp
    have "scheduleTx rnd now sid w = pushEvent nxt eventTypeTX sid (put sid (s1\<lparr>nextTxScheduled := nxt\<rparr>) w)"
      using Some True by (simp add: scheduleTx_def split_beta s1 nxt)
    moreover have "inv_but (X - {sid}) Y (pushEvent nxt eventTypeTX sid (put sid (s1\<lparr>nextTxScheduled := nxt\<rparr>) w))"
      using d n
      by (intro inv_but_update [OF assms(1), where s' = "s1\<lparr>nextTxScheduled := nxt\<rparr>"])
        (auto simp: s1 marks_def tx_live_def det_live_def sess_inv_ComputeNextTx)
    ultimately show ?thesis by simp
  qed
qed


lemma ArmDetect_cases:
  assumes "sess_inv s" and "0 < now"
  shows "(\<not> snd (fst (ArmDetect now s)) \<and> snd (ArmDetect now s) = s
           \<and> (alive s \<longrightarrow> detectDeadline s = 0))
       \<or> (snd (fst (ArmDetect now s)) \<and> (\<exists>ddl \<noteq> 0. fst (fst (ArmDetect now s)) = ddl
           \<and> snd (ArmDetect now s) = s\<lparr>detectDeadline := ddl\<rparr>))"
proof -
  have "0 < detectTime s" using assms(1) by (simp add: sess_inv_def detectTime_pos)
  then show ?thesis
    using assms(2) by (auto simp: ArmDetect_def Let_def IsZero_def zero_time_def intro!: exI [of _ "detectDeadline s"])
qed

lemma scheduleDetect_inv:
  assumes "inv_but X Y w" and "0 < now" and "\<not> maybeDropOnOverflow eventTypeDetect (sched w)"
  shows "inv_but X (Y - {sid}) (scheduleDetect now sid w)"
proof (cases "mem w sid")
  case None
  then show ?thesis using assms(1) by (auto simp: scheduleDetect_def inv_but_def)
next
  case (Some s)
  note d = inv_butD [OF assms(1) Some]
  let ?a = "ArmDetect now s"
  have si: "sess_inv (snd ?a)" using d(1) assms(2) by (rule sess_inv_ArmDetect)
  from ArmDetect_cases [OF d(1) assms(2)] show ?thesis
  proof (elim disjE conjE exE)
    assume a: "\<not> snd (fst ?a)" "snd ?a = s" "alive s \<longrightarrow> detectDeadline s = 0"
    have "det_live s" using d(1) a(3) by (auto simp: det_live_def sess_inv_def)
    moreover have "scheduleDetect now sid w = put sid s w"
      using Some a(1,2) by (simp add: scheduleDetect_def split_beta)
    ultimately show ?thesis
      using d by (auto intro!: inv_but_update [OF assms(1)] simp: marks_def)
  next
    fix ddl assume a: "snd (fst ?a)" "ddl \<noteq> 0" "fst (fst ?a) = ddl" "snd ?a = s\<lparr>detectDeadline := ddl\<rparr>"
    let ?s1 = "s\<lparr>detectDeadline := ddl\<rparr>"
    have si1: "sess_inv ?s1" using si a(4) by simp
    show ?thesis
    proof (cases "nextDetectScheduled s = ddl")
      case True
      have "scheduleDetect now sid w = put sid ?s1 w"
        using Some a True by (simp add: scheduleDetect_def split_beta)
      then show ?thesis
        using d si1 True by (auto intro!: inv_but_update [OF assms(1)] simp: marks_def tx_live_def det_live_def)
    next
      case False
      have "scheduleDetect now sid w = pushEvent ddl eventTypeDetect sid (put sid (?s1\<lparr>nextDetectScheduled := ddl\<rparr>) w)"
        using Some a False assms(3) by (simp add: scheduleDetect_def split_beta Let_def)
      then show ?thesis
        using d si1 by (auto intro!: inv_but_update [OF assms(1)] simp: marks_def tx_live_def det_live_def)
    qed
  qed
qed

lemma doTX_frame [simp]:
  "mem (doTX t sid w) = mem w" "eq (sched (doTX t sid w)) = eq (sched w)"
  "spawned (doTX t sid w) = spawned w" "maxEvents (sched (doTX t sid w)) = maxEvents (sched w)"
  by (simp_all add: doTX_def Let_def split: option.split)

lemma inv_but_doTX [simp]: "inv_but X Y (doTX t sid w) = inv_but X Y w"
  by (simp add: inv_but_def marks_def pending_def)

definition tick_ok :: "Tick \<Rightarrow> bool" where
  "tick_ok t \<longleftrightarrow> clock_ok (t_loop t) \<and> clock_ok (t_tx t) \<and> clock_ok (t_expire t) \<and> clock_ok (t_arm t)"

text \<open>The world after an event has been taken from the queue.\<close>

definition taken :: "event \<Rightarrow> 'a World_scheme \<Rightarrow> 'a World_scheme \<Rightarrow> bool" where
  "taken ev w w1 \<longleftrightarrow> mem w1 = mem w \<and>
     (\<forall>et i d. pending w et i d \<longrightarrow> pending w1 et i d \<or> (et = ev_type ev \<and> i = ev_session ev \<and> d = ev_when ev))"

lemma takenD:
  "taken ev w w1 \<Longrightarrow> pending w et i d \<Longrightarrow> \<not> (et = ev_type ev \<and> i = ev_session ev \<and> d = ev_when ev) \<Longrightarrow>
     pending w1 et i d"
  unfolding taken_def by blast

lemma taken_mem: "taken ev w w1 \<Longrightarrow> mem w1 = mem w"
  by (simp add: taken_def)

lemma taken_update:
  assumes "inv_but X Y w" and "taken ev w w1"
    and "sess_inv s'" and "marks w1 (ev_session ev) s'"
    and "ev_session ev \<notin> X' \<Longrightarrow> tx_live s'" and "ev_session ev \<notin> Y' \<Longrightarrow> det_live s'"
    and "X \<subseteq> insert (ev_session ev) X'" and "Y \<subseteq> insert (ev_session ev) Y'"
  shows "inv_but X' Y' (put (ev_session ev) s' w1)"
proof (rule inv_but_update [OF assms(1)])
  show "mem (put (ev_session ev) s' w1) = (mem w)(ev_session ev \<mapsto> s')"
    using assms(2) by (simp add: taken_mem)
  show "pending (put (ev_session ev) s' w1) et i d" if "pending w et i d" "i \<noteq> ev_session ev" for et i d
    using takenD [OF assms(2) that(1)] that(2) by simp
  show "marks (put (ev_session ev) s' w1) (ev_session ev) s'"
    using assms(4) by (simp add: marks_def)
qed (use assms in simp_all)

lemma taken_none:
  assumes "inv_but X Y w" and "taken ev w w1" and "mem w (ev_session ev) = None"
  shows "inv_but X Y w1"
  unfolding inv_but_def
proof (intro allI impI)
  fix i s assume "mem w1 i = Some s"
  then have wi: "mem w i = Some s" and ne: "i \<noteq> ev_session ev"
    using assms(2,3) by (auto simp: taken_mem)
  have "marks w1 i s"
    using inv_butD(2) [OF assms(1) wi] takenD [OF assms(2)] ne by (simp add: marks_def)
  then show "sess_inv s \<and> marks w1 i s \<and> (i \<notin> X \<longrightarrow> tx_live s) \<and> (i \<notin> Y \<longrightarrow> det_live s)"
    using inv_butD [OF assms(1) wi] by simp
qed

lemma clear_simps [simp]:
  "sess_inv (clearTx ev s) = sess_inv s" "state (clearTx ev s) = state s" "alive (clearTx ev s) = alive s"
  "nextDetectScheduled (clearTx ev s) = nextDetectScheduled s" "detectDeadline (clearTx ev s) = detectDeadline s"
  "sess_inv (clearDetect ev s) = sess_inv s" "state (clearDetect ev s) = state s" "alive (clearDetect ev s) = alive s"
  "nextTxScheduled (clearDetect ev s) = nextTxScheduled s" "detectDeadline (clearDetect ev s) = detectDeadline s"
  "lastRx (clearDetect ev s) = lastRx s" "convDownStart (clearDetect ev s) = convDownStart s"
  by (simp_all add: clearTx_def clearDetect_def)

lemma taken_marks_tx:
  assumes "taken ev w w1" and "ev_type ev = eventTypeTX" and "marks w (ev_session ev) s"
  shows "marks w1 (ev_session ev) (clearTx ev s)"
proof -
  have "pending w1 eventTypeTX (ev_session ev) (nextTxScheduled s)"
    if "nextTxScheduled s \<noteq> 0" "ev_when ev \<noteq> nextTxScheduled s"
    using that assms(3) takenD [OF assms(1)] by (auto simp: marks_def)
  moreover have "pending w1 eventTypeDetect (ev_session ev) (nextDetectScheduled s)"
    if "nextDetectScheduled s \<noteq> 0"
    using that assms takenD [OF assms(1)] by (auto simp: marks_def)
  ultimately show ?thesis by (auto simp: marks_def clearTx_def zero_time_def)
qed

lemma taken_marks_detect:
  assumes "taken ev w w1" and "ev_type ev = eventTypeDetect" and "marks w (ev_session ev) s"
  shows "marks w1 (ev_session ev) (clearDetect ev s)"
proof -
  have "pending w1 eventTypeDetect (ev_session ev) (nextDetectScheduled s)"
    if "nextDetectScheduled s \<noteq> 0" "ev_when ev \<noteq> nextDetectScheduled s"
    using that assms(3) takenD [OF assms(1)] by (auto simp: marks_def)
  moreover have "pending w1 eventTypeTX (ev_session ev) (nextTxScheduled s)"
    if "nextTxScheduled s \<noteq> 0"
    using that assms takenD [OF assms(1)] by (auto simp: marks_def)
  ultimately show ?thesis by (auto simp: marks_def clearDetect_def zero_time_def)
qed

lemma onTxEvent_eq:
  assumes "mem w1 (ev_session ev) = Some s"
  shows "onTxEvent t ev w1 =
    (let w2 = doTX t (ev_session ev) (put (ev_session ev) (clearTx ev s) w1) in
     if state s \<noteq> StateAdminDown then scheduleTx (t_rnd t) (t_tx t) (ev_session ev) w2 else w2)"
  by (simp add: onTxEvent_def assms Let_def GetState_def)

lemma onTxEvent_inv:
  assumes "sched_inv w" and "taken ev w w1" and "ev_type ev = eventTypeTX" and "tick_ok t"
  shows "sched_inv (onTxEvent t ev w1)"
proof (cases "mem w (ev_session ev)")
  case None
  then show ?thesis using assms(2) taken_none [OF assms(1,2)] by (simp add: onTxEvent_def taken_mem)
next
  case (Some s)
  note d = inv_butD [OF assms(1) Some]
  let ?w1 = "put (ev_session ev) (clearTx ev s) w1"
  have m1: "mem w1 (ev_session ev) = Some s" using Some assms(2) by (simp add: taken_mem)
  have mk: "marks w1 (ev_session ev) (clearTx ev s)" using taken_marks_tx [OF assms(2,3) d(2)] .
  have dl: "det_live (clearTx ev s)" using d(4) by (simp add: det_live_def)
  show ?thesis
  proof (cases "state s = StateAdminDown")
    case True
    then have "inv_but {} {} ?w1"
      using d mk dl by (intro taken_update [OF assms(1,2)]) (simp_all add: tx_live_def)
    then show ?thesis using True by (simp add: onTxEvent_eq [OF m1])
  next
    case False
    have "inv_but {ev_session ev} {} ?w1"
      using d mk dl by (intro taken_update [OF assms(1,2)]) simp_all
    then have "inv_but ({ev_session ev} - {ev_session ev}) {}
        (scheduleTx (t_rnd t) (t_tx t) (ev_session ev) (doTX t (ev_session ev) ?w1))"
      using assms(4) by (intro scheduleTx_inv) (simp_all add: tick_ok_def)
    then show ?thesis using False by (simp add: onTxEvent_eq [OF m1])
  qed
qed

lemma ExpireIfDue_keeps [simp]:
  "alive (snd (ExpireIfDue now s)) = alive s"
  "nextTxScheduled (snd (ExpireIfDue now s)) = nextTxScheduled s"
  "nextDetectScheduled (snd (ExpireIfDue now s)) = nextDetectScheduled s"
  by (simp_all add: ExpireIfDue_def Let_def)

lemma tryExpire_eq:
  assumes "mem w sid = Some s"
  shows "tryExpire now sid w =
    (if fst (ExpireIfDue now s) then (True, pushEvent now eventTypeTX sid (put sid (snd (ExpireIfDue now s)) w))
     else (False, put sid s w))"
  using assms ExpireIfDue_noop [of now s] by (auto simp: tryExpire_def split_beta)

lemma onDetectEvent_eq:
  assumes "mem w1 (ev_session ev) = Some s"
  shows "onDetectEvent t ev w1 =
    (let s1 = clearDetect ev s; sid = ev_session ev; w2 = put sid s1 w1 in
     if ev_when ev \<noteq> detectDeadline s then w2
     else if fst (ExpireIfDue (t_expire t) s1)
     then (let w3 = pushEvent (t_expire t) eventTypeTX sid (put sid (snd (ExpireIfDue (t_expire t) s1)) w2)
           in w3\<lparr>spawned := spawned w3 @ [TaskSessionDown sid]\<rparr>)
     else if state s = StateUp \<or> state s = StateInit then scheduleDetect (t_arm t) sid w2
     else w2)"
  using assms tryExpire_eq [of "put (ev_session ev) (clearDetect ev s) w1" "ev_session ev" "clearDetect ev s" "t_expire t"]
  by (simp add: onDetectEvent_def Let_def GetState_def put_def)

lemma onDetectEvent_inv:
  assumes "sched_inv w" and "taken ev w w1" and "ev_type ev = eventTypeDetect" and "tick_ok t"
    and "\<not> maybeDropOnOverflow eventTypeDetect (sched w1)"
  shows "sched_inv (onDetectEvent t ev w1)"
proof (cases "mem w (ev_session ev)")
  case None
  then show ?thesis using assms(2) taken_none [OF assms(1,2)] by (simp add: onDetectEvent_def taken_mem)
next
  case (Some s)
  note d = inv_butD [OF assms(1) Some]
  let ?sid = "ev_session ev" let ?s1 = "clearDetect ev s" let ?w2 = "put ?sid ?s1 w1"
  have m1: "mem w1 ?sid = Some s" using Some assms(2) by (simp add: taken_mem)
  have mk: "marks w1 ?sid ?s1" using taken_marks_detect [OF assms(2,3) d(2)] .
  have tl: "tx_live ?s1" using d(3) by (simp add: tx_live_def)
  have but: "inv_but {} {?sid} ?w2"
    using d mk tl by (intro taken_update [OF assms(1,2)]) simp_all
  consider "ev_when ev \<noteq> detectDeadline s" | "ev_when ev = detectDeadline s" "fst (ExpireIfDue (t_expire t) ?s1)"
    | "ev_when ev = detectDeadline s" "\<not> fst (ExpireIfDue (t_expire t) ?s1)" "state s = StateUp \<or> state s = StateInit"
    | "ev_when ev = detectDeadline s" "\<not> fst (ExpireIfDue (t_expire t) ?s1)" "\<not> (state s = StateUp \<or> state s = StateInit)"
    by blast
  then show ?thesis
  proof cases
    case 1
    have "det_live ?s1"
      using d(4) 1 by (auto simp: det_live_def clearDetect_def)
    then have "inv_but {} {} ?w2"
      using d mk tl by (intro taken_update [OF assms(1,2)]) simp_all
    then show ?thesis using 1 by (simp add: onDetectEvent_eq [OF m1] Let_def)
  next
    case 2
    let ?s3 = "snd (ExpireIfDue (t_expire t) ?s1)"
    let ?w3 = "pushEvent (t_expire t) eventTypeTX ?sid (put ?sid ?s3 ?w2)"
    have st: "state ?s3 = StateDown" using ExpireIfDue_Down [OF 2(2)] by simp
    have m: "marks ?w2 ?sid ?s3" using mk by (simp add: marks_def)
    have "inv_but {} {} ?w3"
      using d mk tl m st ExpireIfDue_iff [of "t_expire t" ?s1] 2(2)
      by (intro inv_but_update [OF but, where s' = ?s3])
        (auto simp: sess_inv_ExpireIfDue marks_def tx_live_def det_live_def)
    then have "inv_but {} {} (?w3\<lparr>spawned := spawned ?w3 @ [TaskSessionDown ?sid]\<rparr>)"
      by (simp add: inv_but_def marks_def pending_def)
    then show ?thesis using 2 by (simp add: onDetectEvent_eq [OF m1] Let_def)
  next
    case 3
    have "inv_but {} ({?sid} - {?sid}) (scheduleDetect (t_arm t) ?sid ?w2)"
      using but assms(4,5) by (intro scheduleDetect_inv) (simp_all add: tick_ok_def clock_ok_def)
    then show ?thesis using 3 by (simp add: onDetectEvent_eq [OF m1] Let_def)
  next
    case 4
    then have "det_live ?s1" by (auto simp: det_live_def)
    then have "inv_but {} {} ?w2"
      using d mk tl by (intro taken_update [OF assms(1,2)]) simp_all
    then show ?thesis using 4 by (simp add: onDetectEvent_eq [OF m1] Let_def)
  qed
qed

lemma runIter_cases:
  obtains (sleep) wait where "runIter t w = (wait, w)" "fst (fst (PopIfDue (t_loop t) (eq (sched w)))) = None"
  | (event) ev q where "PopIfDue (t_loop t) (eq (sched w)) = ((Some ev, 0), q)"
      "snd (runIter t w) = (case ev_type ev of
          eventTypeTX \<Rightarrow> onTxEvent t ev (w\<lparr>sched := (sched w)\<lparr>eq := q\<rparr>\<rparr>)
        | eventTypeDetect \<Rightarrow> onDetectEvent t ev (w\<lparr>sched := (sched w)\<lparr>eq := q\<rparr>\<rparr>))"
proof -
  obtain o' wait q where p: "PopIfDue (t_loop t) (eq (sched w)) = ((o', wait), q)" by (metis surj_pair)
  show ?thesis
  proof (cases o')
    case None
    with p have "q = eq (sched w)" by (auto simp: PopIfDue_def Let_def split: if_splits prod.splits)
    with p None show ?thesis by (intro sleep) (simp_all add: runIter_def)
  next
    case (Some ev)
    with p have "wait = 0" by (auto simp: PopIfDue_def Let_def split: if_splits prod.splits)
    with p Some show ?thesis by (intro event [of ev q]) (simp_all add: runIter_def Let_def)
  qed
qed

lemma PopIfDue_taken:
  assumes "PopIfDue now (eq (sched w)) = ((Some ev, wt), q)"
  shows "taken ev w (w\<lparr>sched := (sched w)\<lparr>eq := q\<rparr>\<rparr>)"
  using PopIfDue_Some(1) [OF assms] by (auto simp: taken_def pending_def)

lemma runIter_inv:
  assumes "sched_inv w" and "tick_ok t" and "\<not> maybeDropOnOverflow eventTypeDetect (sched w)"
  shows "sched_inv (snd (runIter t w))"
proof (cases rule: runIter_cases [of t w])
  case (sleep wait)
  then show ?thesis using assms(1) by simp
next
  case (event ev q)
  let ?w1 = "w\<lparr>sched := (sched w)\<lparr>eq := q\<rparr>\<rparr>"
  have "\<not> maybeDropOnOverflow eventTypeDetect (sched ?w1)"
    using assms(3) PopIfDue_Some(3) [OF event(1)] by (auto simp: maybeDropOnOverflow_def eq_Len_def split: if_splits)
  then show ?thesis
    using event(2) onTxEvent_inv [OF assms(1) PopIfDue_taken [OF event(1)] _ assms(2)]
      onDetectEvent_inv [OF assms(1) PopIfDue_taken [OF event(1)] _ assms(2)]
    by (cases "ev_type ev") simp_all
qed

subsection \<open>A silent peer is detected\<close>

definition all_inv :: "'a World_scheme \<Rightarrow> bool" where
  "all_inv w \<longleftrightarrow> (\<forall>i s. mem w i = Some s \<longrightarrow> sess_inv s)"

text \<open>
  What an iteration may do beside expiring sessions: leave the queue as it is or push one
  event at \<open>D\<close> or later, and keep the fields of a session that its expiry depends on.
\<close>

definition pushed_after :: "gotime \<Rightarrow> EventQueue \<Rightarrow> EventQueue \<Rightarrow> bool" where
  "pushed_after D q q' \<longleftrightarrow> q' = q \<or> (\<exists>x. D \<le> ev_when x \<and> q' = eq_Push x q)"

definition same_fate :: "Session \<Rightarrow> Session \<Rightarrow> bool" where
  "same_fate s s' \<longleftrightarrow> alive s' = alive s \<and> state s' = state s \<and> detectDeadline s' = detectDeadline s"

definition tick_from :: "gotime \<Rightarrow> Tick \<Rightarrow> bool" where
  "tick_from D t \<longleftrightarrow> tick_ok t \<and> D \<le> t_loop t \<and> D \<le> t_tx t \<and> D \<le> t_expire t \<and> D \<le> t_arm t
     \<and> (\<forall>n > 0. 0 \<le> t_rnd t n \<and> t_rnd t n < n)"

lemma pushed_after_refl [simp]: "pushed_after D q q"
  by (simp add: pushed_after_def)

lemma pushed_after_push [simp]: "D \<le> ev_when x \<Longrightarrow> pushed_after D q (eq_Push x q)"
  by (auto simp: pushed_after_def)

lemma all_inv_put: "all_inv w \<Longrightarrow> sess_inv s \<Longrightarrow> all_inv (put i s w)"
  by (simp add: all_inv_def)

lemma all_inv_push [simp]: "all_inv (pushEvent d et i w) = all_inv w"
  by (simp add: all_inv_def)

lemma all_inv_spawned [simp]: "all_inv (w\<lparr>spawned := x\<rparr>) = all_inv w"
  by (simp add: all_inv_def)

lemma eq_pushEvent: "eq (sched (pushEvent d et i w)) = eq_Push \<lparr>ev_when = d, ev_type = et, ev_session = i, ev_seq = 0\<rparr> (eq (sched w))"
  by (simp add: pushEvent_def)

lemma ComputeNextTx_later:
  assumes "sess_inv s" and "\<forall>n > 0. 0 \<le> rnd n \<and> rnd n < n"
  shows "now \<le> fst (ComputeNextTx rnd now s)"
proof -
  have "0 \<le> effInterval s"
    using assms(1) effInterval_bounds [of s] by (simp add: sess_inv_def)
  then show ?thesis using ComputeNextTx_within(1) [OF assms, of now] by auto
qed

lemma scheduleTx_effect:
  assumes "all_inv w" and "\<forall>n > 0. 0 \<le> rnd n \<and> rnd n < n" and "D \<le> now"
  shows "pushed_after D (eq (sched w)) (eq (sched (scheduleTx rnd now i w)))"
    and "all_inv (scheduleTx rnd now i w)"
    and "mem w j = Some s \<Longrightarrow> \<exists>s'. mem (scheduleTx rnd now i w) j = Some s' \<and> same_fate s s'"
proof -
  let ?c = "ComputeNextTx rnd now"
  have later: "D \<le> fst (?c s)" if "mem w i = Some s" for s
    using ComputeNextTx_later [OF _ assms(2), of s now] assms(1,3) that by (auto simp: all_inv_def)
  have si: "sess_inv (snd (?c s))" if "mem w i = Some s" for s
    using assms(1) that by (auto simp: all_inv_def intro: sess_inv_ComputeNextTx)
  show "pushed_after D (eq (sched w)) (eq (sched (scheduleTx rnd now i w)))"
    using later by (auto simp: scheduleTx_def split_beta eq_pushEvent split: option.split)
  show "all_inv (scheduleTx rnd now i w)"
    using assms(1) si by (auto simp: scheduleTx_def split_beta all_inv_put split: option.split)
  show "\<exists>s'. mem (scheduleTx rnd now i w) j = Some s' \<and> same_fate s s'" if "mem w j = Some s"
    using that by (auto simp: scheduleTx_def split_beta same_fate_def split: option.split)
qed

lemma onTxEvent_effect:
  assumes "all_inv w" and "tick_from D t"
  shows "pushed_after D (eq (sched w)) (eq (sched (onTxEvent t ev w)))"
    and "all_inv (onTxEvent t ev w)"
    and "mem w j = Some s \<Longrightarrow> \<exists>s'. mem (onTxEvent t ev w) j = Some s' \<and> same_fate s s'"
proof -
  have "pushed_after D (eq (sched w)) (eq (sched (onTxEvent t ev w))) \<and> all_inv (onTxEvent t ev w) \<and>
    (mem w j = Some s \<longrightarrow> (\<exists>s'. mem (onTxEvent t ev w) j = Some s' \<and> same_fate s s'))"
  proof (cases "mem w (ev_session ev)")
    case None
    then show ?thesis using assms(1) by (simp add: onTxEvent_def pushed_after_def same_fate_def)
  next
    case (Some r)
    let ?w2 = "doTX t (ev_session ev) (put (ev_session ev) (clearTx ev r) w)"
    have "all_inv ?w2" using assms(1) Some by (auto simp: all_inv_def)
    note st = scheduleTx_effect [OF this, where rnd = "t_rnd t" and D = D and now = "t_tx t" and i = "ev_session ev"]
    have m: "\<exists>s'. mem ?w2 j = Some s' \<and> same_fate s s'" if "mem w j = Some s"
      using that Some by (auto simp: same_fate_def)
    show ?thesis
    proof (cases "state r = StateAdminDown")
      case True
      then show ?thesis
        using \<open>all_inv ?w2\<close> m by (simp add: onTxEvent_eq [OF Some] pushed_after_def)
    next
      case False
      have "\<exists>s'. mem (scheduleTx (t_rnd t) (t_tx t) (ev_session ev) ?w2) j = Some s' \<and> same_fate s s'"
        if "mem w j = Some s"
      proof -
        obtain s1 where s1: "mem ?w2 j = Some s1" "same_fate s s1" using m [OF \<open>mem w j = Some s\<close>] by blast
        with st(3) [where j = j and s = s1] assms(2) show ?thesis by (fastforce simp: tick_from_def same_fate_def)
      qed
      then show ?thesis
        using False st(1,2) assms(2) by (simp add: onTxEvent_eq [OF Some] tick_from_def)
    qed
  qed
  then show "pushed_after D (eq (sched w)) (eq (sched (onTxEvent t ev w)))"
    and "all_inv (onTxEvent t ev w)"
    and "mem w j = Some s \<Longrightarrow> \<exists>s'. mem (onTxEvent t ev w) j = Some s' \<and> same_fate s s'"
    by blast+
qed

lemma scheduleDetect_effect:
  assumes "all_inv w" and "0 < now" and "D \<le> now"
  shows "pushed_after D (eq (sched w)) (eq (sched (scheduleDetect now i w)))"
    and "all_inv (scheduleDetect now i w)"
    and "j \<noteq> i \<Longrightarrow> mem (scheduleDetect now i w) j = mem w j"
proof -
  have si: "sess_inv (snd (ArmDetect now s))" if "mem w i = Some s" for s
    using assms(1,2) that by (auto simp: all_inv_def intro: sess_inv_ArmDetect)
  have later: "D \<le> fst (fst (ArmDetect now s))" if "mem w i = Some s" "snd (fst (ArmDetect now s))" for s
  proof -
    have "0 < detectTime s" using assms(1) that(1) by (auto simp: all_inv_def sess_inv_def detectTime_pos)
    then show ?thesis using that(2) assms(3) by (auto simp: ArmDetect_def Let_def split: if_splits)
  qed
  show "pushed_after D (eq (sched w)) (eq (sched (scheduleDetect now i w)))"
    using later by (auto simp: scheduleDetect_def split_beta Let_def eq_pushEvent split: option.split)
  show "all_inv (scheduleDetect now i w)"
    using assms(1) si by (auto simp: scheduleDetect_def split_beta Let_def all_inv_put split: option.split)
  show "mem (scheduleDetect now i w) j = mem w j" if "j \<noteq> i"
    using that by (simp add: scheduleDetect_def split_beta Let_def split: option.split)
qed

text \<open>The session has been expired, and its handling as a goroutine has been started.\<close>

definition timed_out :: "nat \<Rightarrow> 'a World_scheme \<Rightarrow> bool" where
  "timed_out i w \<longleftrightarrow> (\<exists>s. mem w i = Some s \<and> state s = StateDown \<and> lastDownReason s = DownReasonTimeout)
     \<and> TaskSessionDown i \<in> set (spawned w)"

lemma onDetectEvent_effect:
  assumes "all_inv w" and "tick_from D t" and "mem w j = Some s" and "alive s"
    and "state s = StateUp \<or> state s = StateInit" and "detectDeadline s = D"
  shows "timed_out j (onDetectEvent t ev w) \<or>
    \<not> (ev_session ev = j \<and> ev_when ev = D) \<and>
    pushed_after D (eq (sched w)) (eq (sched (onDetectEvent t ev w))) \<and> all_inv (onDetectEvent t ev w) \<and>
    (\<exists>s'. mem (onDetectEvent t ev w) j = Some s' \<and> same_fate s s')"
proof (cases "mem w (ev_session ev)")
  case None
  then show ?thesis using assms by (auto simp: onDetectEvent_def same_fate_def)
next
  case (Some r)
  let ?i = "ev_session ev" let ?r1 = "clearDetect ev r" let ?w2 = "put ?i ?r1 w"
  have t: "0 < t_arm t" "D \<le> t_arm t" "D \<le> t_expire t"
    using assms(2) by (auto simp: tick_from_def tick_ok_def clock_ok_def)
  have r: "sess_inv r" using assms(1) Some by (auto simp: all_inv_def)
  have a2: "all_inv ?w2" using assms(1) r by (simp add: all_inv_put)
  have m2: "\<exists>s'. mem ?w2 j = Some s' \<and> same_fate s s'" using assms(3) Some by (auto simp: same_fate_def)
  show ?thesis
  proof (cases "?i = j \<and> ev_when ev = D")
    case True
    then have "r = s" using Some assms(3) by simp
    moreover have "detectDeadline s \<noteq> 0" using r assms(5) \<open>r = s\<close> by (auto simp: sess_inv_def)
    ultimately have "fst (ExpireIfDue (t_expire t) ?r1)"
      using assms(4-6) t by (simp add: ExpireIfDue_iff)
    then show ?thesis
      using True assms(6) \<open>r = s\<close> ExpireIfDue_Down [of "t_expire t" ?r1]
      by (auto simp: onDetectEvent_eq [OF Some] Let_def timed_out_def)
  next
    case other: False
    have ne: "?i = j \<Longrightarrow> ev_when ev \<noteq> detectDeadline r"
      using other Some assms(3,6) by auto
    note sd = scheduleDetect_effect [OF a2 t(1,2), where i = ?i]
    have "sess_inv (snd (ExpireIfDue (t_expire t) ?r1))" using r by (simp add: sess_inv_ExpireIfDue)
    then have "pushed_after D (eq (sched w)) (eq (sched (onDetectEvent t ev w))) \<and> all_inv (onDetectEvent t ev w)"
      using a2 t(3) sd(1,2) by (simp add: onDetectEvent_eq [OF Some] Let_def eq_pushEvent all_inv_put)
    moreover have "\<exists>s'. mem (onDetectEvent t ev w) j = Some s' \<and> same_fate s s'"
    proof (cases "?i = j")
      case True
      then show ?thesis using ne m2 by (simp add: onDetectEvent_eq [OF Some] Let_def)
    next
      case False
      then have "mem (onDetectEvent t ev w) j = mem w j"
        using sd(3) [where j = j] by (simp add: onDetectEvent_eq [OF Some] Let_def)
      then show ?thesis using assms(3) by (auto simp: same_fate_def)
    qed
    ultimately show ?thesis using other by blast
  qed
qed

text \<open>
  The session \<open>i\<close> waits for the detect event \<open>ev\<close>; \<open>ahead\<close> counts the events before it.
\<close>

definition waits_for :: "nat \<Rightarrow> event \<Rightarrow> 'a World_scheme \<Rightarrow> bool" where
  "waits_for i ev w \<longleftrightarrow> eq_wf (eq (sched w)) \<and> ev \<in> set (pq (eq (sched w))) \<and> all_inv w
     \<and> ev_type ev = eventTypeDetect \<and> ev_session ev = i
     \<and> (\<exists>s. mem w i = Some s \<and> alive s \<and> (state s = StateUp \<or> state s = StateInit)
            \<and> detectDeadline s = ev_when ev)"

definition ahead :: "event \<Rightarrow> EventQueue \<Rightarrow> nat" where
  "ahead ev q = size (filter_mset (\<lambda>e. event_Less e ev) (mset (pq q)))"

lemma pushed_after_ahead:
  assumes "eq_wf q" and "eq_room q" and "pushed_after (ev_when ev) q q'" and "ev \<in> set (pq q)"
  shows "eq_wf q'" and "ev \<in> set (pq q')" and "ahead ev q' = ahead ev q"
    and "unat (q_seq q') \<le> unat (q_seq q) + 1"
proof -
  consider "q' = q" | x where "ev_when ev \<le> ev_when x" "q' = eq_Push x q"
    using assms(3) by (auto simp: pushed_after_def)
  then have "eq_wf q' \<and> ev \<in> set (pq q') \<and> ahead ev q' = ahead ev q \<and> unat (q_seq q') \<le> unat (q_seq q) + 1"
  proof cases
    case 1
    then show ?thesis using assms by simp
  next
    case 2
    have "ev_seq ev < q_seq q + 1"
      using assms(1,4) seq_less_succ [OF assms(2)] by (auto simp: eq_wf_def)
    then have "\<not> event_Less (eq_stamp x q) ev" using 2(1) by (auto simp: event_Less_def)
    moreover have "unat (q_seq q + 1) \<le> unat (q_seq q) + 1"
      using mod_less_eq_dividend [of "unat (q_seq q) + 1" "2 ^ 64"] by (simp add: unat_word_ariths)
    ultimately show ?thesis
      using assms 2(2) mset_eq_Push [OF assms(1)] by (simp add: eq_wf_Push set_eq_Push ahead_def)
  qed
  then show "eq_wf q'" and "ev \<in> set (pq q')" and "ahead ev q' = ahead ev q"
    and "unat (q_seq q') \<le> unat (q_seq q) + 1" by blast+
qed

lemma pop_ahead:
  assumes "eq_wf q" and "ev \<in> set (pq q)" and "PopIfDue now q = ((Some e, wt), q')"
  shows "eq_wf q'" and "q_seq q' = q_seq q"
    and "e = ev \<or> (ev \<in> set (pq q') \<and> ahead ev q' < ahead ev q)"
proof -
  have pop: "eq_Pop q = Some (e, q')"
    using assms(2,3) by (auto simp: PopIfDue_def eq_Pop_def Let_def split: if_splits prod.splits)
  note c = eq_Pop_correct [OF assms(1) pop]
  show "eq_wf q'" "q_seq q' = q_seq q" using c by simp_all
  show "e = ev \<or> (ev \<in> set (pq q') \<and> ahead ev q' < ahead ev q)"
  proof (cases "e = ev")
    case False
    have "set (pq q) = insert e (set (pq q'))" using PopIfDue_Some(1) [OF assms(3)] .
    with False assms(2) have "ev \<in> set (pq q')" by auto
    moreover from this have "event_Less e ev" using c(3) by blast
    ultimately show ?thesis using c(2) by (simp add: ahead_def)
  qed simp
qed

lemma PopIfDue_None:
  assumes "eq_wf q" and "ev \<in> set (pq q)" and "fst (fst (PopIfDue now q)) = None"
  shows "now < ev_when ev"
proof -
  have hp: "is_heap event_Less (pq q) (length (pq q))" and ne: "pq q \<noteq> []"
    using assms by (auto simp: eq_wf_def)
  have "now < ev_when (pq q ! 0)"
    using ne assms(3) by (auto simp: PopIfDue_def Let_def time_sub_pos_iff split: if_splits prod.splits)
  moreover have "\<not> event_Less ev (pq q ! 0)"
    using ev.heap_root_least [OF hp] assms(2) by (auto simp: in_set_conv_nth)
  ultimately show ?thesis by (auto simp: event_Less_def split: if_splits)
qed

lemma runIter_progress:
  assumes "waits_for i ev w" and "tick_from (ev_when ev) t" and "eq_room (eq (sched w))"
  shows "timed_out i (snd (runIter t w)) \<or>
    waits_for i ev (snd (runIter t w)) \<and>
    ahead ev (eq (sched (snd (runIter t w)))) < ahead ev (eq (sched w)) \<and>
    unat (q_seq (eq (sched (snd (runIter t w))))) \<le> unat (q_seq (eq (sched w))) + 1"
proof -
  obtain s where s: "mem w i = Some s" "alive s" "state s = StateUp \<or> state s = StateInit"
      "detectDeadline s = ev_when ev"
    and w: "eq_wf (eq (sched w))" "ev \<in> set (pq (eq (sched w)))" "all_inv w"
      "ev_type ev = eventTypeDetect" "ev_session ev = i"
    using assms(1) by (auto simp: waits_for_def)
  show ?thesis
  proof (cases rule: runIter_cases [of t w])
    case (sleep wait)
    have "ev_when ev \<le> t_loop t" using assms(2) by (simp add: tick_from_def)
    then show ?thesis using PopIfDue_None [OF w(1,2) sleep(2)] by simp
  next
    case (event e q)
    let ?w1 = "w\<lparr>sched := (sched w)\<lparr>eq := q\<rparr>\<rparr>" let ?w2 = "snd (runIter t w)"
    note p = pop_ahead [OF w(1,2) event(1)]
    have w1: "all_inv ?w1" "mem ?w1 i = Some s" using w(3) s(1) by (simp_all add: all_inv_def)
    have room: "eq_room q" using assms(3) p(2) by (simp add: eq_room_def)
    have eff: "timed_out i ?w2 \<or> \<not> (e = ev) \<and> pushed_after (ev_when ev) q (eq (sched ?w2)) \<and> all_inv ?w2 \<and>
       (\<exists>s'. mem ?w2 i = Some s' \<and> same_fate s s')"
    proof (cases "ev_type e")
      case eventTypeTX
      then show ?thesis
        using event(2) onTxEvent_effect [OF w1(1) assms(2), where ev = e] w1(2) w(4) by auto
    next
      case eventTypeDetect
      then show ?thesis
        using event(2) onDetectEvent_effect [OF w1(1) assms(2) w1(2) s(2-4), where ev = e] w(5) by auto
    qed
    show ?thesis
    proof (cases "timed_out i ?w2")
      case False
      with eff p(3) have "ev \<in> set (pq q)" "ahead ev q < ahead ev (eq (sched w))"
        and a: "pushed_after (ev_when ev) q (eq (sched ?w2))" "all_inv ?w2" "\<exists>s'. mem ?w2 i = Some s' \<and> same_fate s s'"
        by auto
      with pushed_after_ahead [OF p(1) room a(1)] show ?thesis
        using s(2-4) w(4,5) p(2) by (auto simp: waits_for_def same_fate_def)
    qed simp
  qed
qed

fun runLoop :: "Tick list \<Rightarrow> 'a World_scheme \<Rightarrow> 'a World_scheme" where
  "runLoop [] w = w"
| "runLoop (t # ts) w = runLoop ts (snd (runIter t w))"

lemma waits_for_expires:
  assumes "waits_for i ev w" and "\<forall>t \<in> set ts. tick_from (ev_when ev) t"
    and "ahead ev (eq (sched w)) < length ts" and "unat (q_seq (eq (sched w))) + length ts < 2 ^ 64"
  shows "\<exists>k \<le> length ts. timed_out i (runLoop (take k ts) w)"
  using assms
proof (induction ts arbitrary: w)
  case Nil
  then show ?case by simp
next
  case (Cons t ts)
  let ?w' = "snd (runIter t w)"
  from Cons.prems(4) have "unat (q_seq (eq (sched w))) + Suc (length ts) < 2 ^ 64" by simp
  then have room: "eq_room (eq (sched w))" unfolding eq_room_def by (rule word_Suc_room)
  from Cons.prems(2) have t: "tick_from (ev_when ev) t" by simp
  show ?case
  proof (cases "timed_out i ?w'")
    case True
    then show ?thesis by (intro exI [of _ 1]) simp
  next
    case False
    with runIter_progress [OF Cons.prems(1) t room]
    have w': "waits_for i ev ?w'" "ahead ev (eq (sched ?w')) < ahead ev (eq (sched w))"
      "unat (q_seq (eq (sched ?w'))) \<le> unat (q_seq (eq (sched w))) + 1" by auto
    have "ahead ev (eq (sched ?w')) < length ts" using w'(2) Cons.prems(3) by simp
    moreover have "unat (q_seq (eq (sched ?w'))) + length ts < 2 ^ 64"
      using w'(3) Cons.prems(4) by simp
    moreover have "\<forall>t \<in> set ts. tick_from (ev_when ev) t" using Cons.prems(2) by simp
    ultimately obtain k where "k \<le> length ts" "timed_out i (runLoop (take k ts) ?w')"
      using Cons.IH [OF w'(1)] by blast
    then show ?thesis by (intro exI [of _ "Suc k"]) simp
  qed
qed

lemma sess_inv_deadline: "sess_inv s \<Longrightarrow> state s = StateUp \<or> state s = StateInit \<Longrightarrow> detectDeadline s \<noteq> 0"
  by (auto simp: sess_inv_def)

lemma waits_forI:
  assumes "sched_inv w" and "eq_wf (eq (sched w))" and "mem w i = Some s" and "alive s"
    and "state s = StateUp \<or> state s = StateInit"
  obtains ev where "waits_for i ev w" "ev_when ev = detectDeadline s" "ahead ev (eq (sched w)) < eq_Len (eq (sched w))"
proof -
  note d = inv_butD [OF assms(1,3)]
  have "detectDeadline s \<noteq> 0" using d(1) assms(5) by (rule sess_inv_deadline)
  moreover have "nextDetectScheduled s = detectDeadline s"
    using d(4) assms(4,5) by (simp add: det_live_def)
  ultimately have "pending w eventTypeDetect i (detectDeadline s)"
    using d(2) by (simp add: marks_def)
  then obtain ev where ev: "ev \<in> set (pq (eq (sched w)))" "ev_type ev = eventTypeDetect"
    "ev_session ev = i" "ev_when ev = detectDeadline s"
    unfolding pending_def by blast
  have "all_inv w" using assms(1) by (simp add: all_inv_def inv_but_def)
  then have "waits_for i ev w" using ev assms by (simp add: waits_for_def)
  moreover have "length (filter (\<lambda>e. event_Less e ev) (pq (eq (sched w)))) < length (pq (eq (sched w)))"
    using ev(1) by (rule length_filter_less) (simp add: event_Less_def)
  then have "ahead ev (eq (sched w)) < eq_Len (eq (sched w))"
    by (simp add: ahead_def eq_Len_def flip: mset_filter)
  ultimately show ?thesis using ev(4) that by blast
qed

text \<open>
  C5. A silent peer is always found: from any world that satisfies the scheduler invariant,
  once the clock has passed the detect deadline of an alive session in Up or Init, at most as
  many iterations of the event loop as there are events in the queue bring the session to
  Down with reason timeout and start its down handling, whatever other sessions do in
  between.
\<close>

theorem silent_peer_detected:
  assumes "sched_inv w" and "eq_wf (eq (sched w))" and "mem w i = Some s" and "alive s"
    and "state s = StateUp \<or> state s = StateInit"
    and "\<forall>t \<in> set ts. tick_from (detectDeadline s) t" and "length ts = eq_Len (eq (sched w))"
    and "unat (q_seq (eq (sched w))) + length ts < 2 ^ 64"
  shows "\<exists>k \<le> length ts. timed_out i (runLoop (take k ts) w)"
proof -
  obtain ev where ev: "waits_for i ev w" "ev_when ev = detectDeadline s"
    "ahead ev (eq (sched w)) < eq_Len (eq (sched w))"
    using assms(1-5) by (rule waits_forI)
  show ?thesis
    using waits_for_expires [OF ev(1), of ts] ev(2,3) assms(6-8) by simp
qed

subsection \<open>A full queue\<close>

lemma same_fate_refl [simp]: "same_fate s s"
  by (simp add: same_fate_def)

lemma same_fate_trans: "same_fate s t \<Longrightarrow> same_fate t u \<Longrightarrow> same_fate s u"
  by (simp add: same_fate_def)

lemma scheduleTx_frame:
  "mem w j = Some s \<Longrightarrow> \<exists>s'. mem (scheduleTx rnd now i w) j = Some s' \<and> same_fate s s'"
  "pending (scheduleTx rnd now i w) eventTypeDetect j d \<longleftrightarrow> pending w eventTypeDetect j d"
  by (auto simp: scheduleTx_def split_beta same_fate_def split: option.split)

lemma scheduleDetect_frame:
  "j \<noteq> i \<Longrightarrow> mem (scheduleDetect now i w) j = mem w j"
  "j \<noteq> i \<Longrightarrow> pending (scheduleDetect now i w) eventTypeDetect j d \<longleftrightarrow> pending w eventTypeDetect j d"
  by (simp_all add: scheduleDetect_def split_beta Let_def split: option.split)

lemma pending_doTX [simp]: "pending (doTX t i w) = pending w"
  by (simp add: pending_def fun_eq_iff)

lemma pending_spawned [simp]: "pending (w\<lparr>spawned := x\<rparr>) = pending w"
  by (simp add: pending_def fun_eq_iff)

text \<open>Session \<open>j\<close> has no detect event for its deadline.\<close>

definition unwatched :: "nat \<Rightarrow> Session \<Rightarrow> 'a World_scheme \<Rightarrow> bool" where
  "unwatched j s w \<longleftrightarrow> (\<exists>s'. mem w j = Some s' \<and> same_fate s s')
     \<and> \<not> pending w eventTypeDetect j (detectDeadline s)"

lemma scheduleTx_unwatched:
  assumes "unwatched j s w"
  shows "unwatched j s (scheduleTx rnd now i w)"
proof -
  obtain s1 where s1: "mem w j = Some s1" "same_fate s s1" "\<not> pending w eventTypeDetect j (detectDeadline s)"
    using assms by (auto simp: unwatched_def)
  obtain s2 where "mem (scheduleTx rnd now i w) j = Some s2" "same_fate s1 s2"
    using scheduleTx_frame(1) [OF s1(1)] by blast
  then show ?thesis using s1 same_fate_trans [of s s1 s2] by (simp add: unwatched_def scheduleTx_frame(2))
qed

lemma scheduleDetect_unwatched:
  "unwatched j s w \<Longrightarrow> j \<noteq> i \<Longrightarrow> unwatched j s (scheduleDetect now i w)"
  by (simp add: unwatched_def scheduleDetect_frame)

lemma onTxEvent_unwatched:
  assumes "unwatched j s w"
  shows "unwatched j s (onTxEvent t ev w)"
proof (cases "mem w (ev_session ev)")
  case None
  then show ?thesis using assms by (simp add: onTxEvent_def)
next
  case (Some r)
  let ?w2 = "doTX t (ev_session ev) (put (ev_session ev) (clearTx ev r) w)"
  have "unwatched j s ?w2"
    using assms Some by (auto simp: unwatched_def same_fate_def)
  moreover from this have "unwatched j s (scheduleTx (t_rnd t) (t_tx t) (ev_session ev) ?w2)"
    by (rule scheduleTx_unwatched)
  ultimately show ?thesis by (simp add: onTxEvent_eq [OF Some] Let_def)
qed

lemma onDetectEvent_unwatched:
  assumes "unwatched j s w" and "ev_session ev = j \<Longrightarrow> ev_when ev \<noteq> detectDeadline s"
  shows "unwatched j s (onDetectEvent t ev w)"
proof (cases "mem w (ev_session ev)")
  case None
  then show ?thesis using assms by (simp add: onDetectEvent_def)
next
  case (Some r)
  let ?w2 = "put (ev_session ev) (clearDetect ev r) w"
  have w2: "unwatched j s ?w2"
    using assms(1) Some by (auto simp: unwatched_def same_fate_def)
  show ?thesis
  proof (cases "ev_session ev = j")
    case True
    then have "ev_when ev \<noteq> detectDeadline r"
      using assms Some by (auto simp: unwatched_def same_fate_def)
    then show ?thesis using w2 by (simp add: onDetectEvent_eq [OF Some] Let_def)
  next
    case False
    then have "unwatched j s (scheduleDetect (t_arm t) (ev_session ev) ?w2)"
      using w2 by (intro scheduleDetect_unwatched) simp_all
    moreover from False w2 have "unwatched j s (pushEvent (t_expire t) eventTypeTX (ev_session ev)
        (put (ev_session ev) (snd (ExpireIfDue (t_expire t) (clearDetect ev r))) ?w2))"
      by (simp add: unwatched_def)
    then have "unwatched j s (pushEvent (t_expire t) eventTypeTX (ev_session ev)
        (put (ev_session ev) (snd (ExpireIfDue (t_expire t) (clearDetect ev r))) ?w2)\<lparr>spawned := x\<rparr>)" for x
      by (simp add: unwatched_def)
    ultimately show ?thesis
      using w2 by (simp only: onDetectEvent_eq [OF Some] Let_def split: if_split) blast
  qed
qed

lemma runIter_unwatched:
  assumes "unwatched j s w"
  shows "unwatched j s (snd (runIter t w))"
proof (cases rule: runIter_cases [of t w])
  case (sleep wait)
  then show ?thesis using assms by simp
next
  case (event ev q)
  let ?w1 = "w\<lparr>sched := (sched w)\<lparr>eq := q\<rparr>\<rparr>"
  have set: "set (pq (eq (sched w))) = insert ev (set (pq q))" using PopIfDue_Some(1) [OF event(1)] .
  have "unwatched j s ?w1" using assms set by (auto simp: unwatched_def pending_def)
  moreover have "ev_session ev = j \<Longrightarrow> ev_when ev \<noteq> detectDeadline s" if "ev_type ev = eventTypeDetect"
    using assms that set by (auto simp: unwatched_def pending_def)
  ultimately show ?thesis
    using event(2) by (cases "ev_type ev") (simp_all add: onTxEvent_unwatched onDetectEvent_unwatched)
qed

lemma runLoop_unwatched: "unwatched j s w \<Longrightarrow> unwatched j s (runLoop ts w)"
  by (induction ts arbitrary: w) (auto simp: runIter_unwatched)

text \<open>
  C18. What the bound on the queue costs: when the queue is full at the moment a received
  packet has moved the deadline of a session, the detect event is dropped, and from then on
  the event loop alone never takes the session out of its state, however late it gets: a
  peer that falls silent after that packet is not detected.
\<close>

theorem full_queue_never_detects:
  assumes "mem w i = Some s" and "alive s" and "now < detectDeadline s" and "detectDeadline s \<noteq> 0"
    and "maybeDropOnOverflow eventTypeDetect (sched w)"
    and "nextDetectScheduled s \<noteq> detectDeadline s"
    and "\<not> pending w eventTypeDetect i (detectDeadline s)"
  shows "\<exists>s'. mem (runLoop ts (scheduleDetect now i w)) i = Some s' \<and> state s' = state s"
proof -
  have "ArmDetect now s = ((detectDeadline s, True), s)"
    using assms(2-4) by (simp add: ArmDetect_def IsZero_def zero_time_def)
  then have "scheduleDetect now i w = put i (s\<lparr>nextDetectScheduled := zero_time\<rparr>) w"
    using assms(1,5,6) by (simp add: scheduleDetect_def Let_def)
  then have "unwatched i s (scheduleDetect now i w)"
    using assms(7) by (simp add: unwatched_def same_fate_def)
  then have "unwatched i s (runLoop ts (scheduleDetect now i w))" by (rule runLoop_unwatched)
  then show ?thesis by (auto simp: unwatched_def same_fate_def)
qed

subsection \<open>Concrete instances\<close>

definition example_time :: gotime where
  "example_time = 10000000000000000000"

definition example_up :: Session where
  "example_up =
     (example_session StateUp)\<lparr>detectDeadline := example_time, nextDetectScheduled := example_time,
        nextTxScheduled := example_time + 5, upSince := 1\<rparr>"

definition example_world :: "int \<Rightarrow> World" where
  "example_world cap =
     \<lparr>mem = [0 \<mapsto> example_up],
      sched = (NewScheduler cap False \<lparr>Major = 0, Minor = 8, Patch = 1, Channel = 0\<rparr>)
        \<lparr>eq := \<lparr>pq = [\<lparr>ev_when = example_time, ev_type = eventTypeDetect, ev_session = 0, ev_seq = 1\<rparr>,
                      \<lparr>ev_when = example_time + 5, ev_type = eventTypeTX, ev_session = 0, ev_seq = 2\<rparr>],
               q_seq = 2\<rparr>\<rparr>,
      written = [], spawned = []\<rparr>"

definition example_tick :: Tick where
  "example_tick = \<lparr>t_loop = example_time + 9, t_warn = example_time + 9, t_tx = example_time + 9,
     t_expire = example_time + 9, t_arm = example_time + 9, t_rnd = (\<lambda>n. 0),
     t_write_err = False, t_done = False\<rparr>"

lemma example_world_inv: "sched_inv (example_world cap)"
  by (simp add: inv_but_def example_world_def example_up_def NewScheduler_def marks_def tx_live_def
      det_live_def pending_def example_time_def sess_inv_def sess_cfg_def factor_ok_def span_ok_def
      example_session_def)

lemma example_world_wf: "eq_wf (eq (sched (example_world cap)))"
  by (simp add: eq_wf_def is_heap_def example_world_def NewScheduler_def less_Suc_eq parent_def
      event_Less_def numeral_2_eq_2)

theorem silent_peer_detected_witness:
  "\<exists>k \<le> 2. timed_out 0 (runLoop (take k [example_tick, example_tick]) (example_world 0))"
proof -
  have "mem (example_world 0) 0 = Some example_up" and "alive example_up"
    and "state example_up = StateUp \<or> state example_up = StateInit"
    and "\<forall>t \<in> set [example_tick, example_tick]. tick_from (detectDeadline example_up) t"
    and "length [example_tick, example_tick] = eq_Len (eq (sched (example_world 0)))"
    and "unat (q_seq (eq (sched (example_world 0)))) + length [example_tick, example_tick] < 2 ^ 64"
    by (simp_all add: example_world_def example_up_def example_session_def example_tick_def
        tick_from_def tick_ok_def clock_ok_def example_time_def eq_Len_def NewScheduler_def)
  from silent_peer_detected [OF example_world_inv example_world_wf this] show ?thesis
    by (simp add: numeral_2_eq_2)
qed

theorem full_queue_never_detects_witness:
  "\<exists>s'. mem (runLoop [example_tick, example_tick]
      (scheduleDetect example_time 0 ((example_world 2)\<lparr>mem := [0 \<mapsto> example_up\<lparr>detectDeadline := example_time + 7\<rparr>]\<rparr>))) 0
    = Some s' \<and> state s' = StateUp"
proof -
  let ?s = "example_up\<lparr>detectDeadline := example_time + 7\<rparr>"
  let ?w = "(example_world 2)\<lparr>mem := [0 \<mapsto> ?s]\<rparr>"
  have "\<exists>s'. mem (runLoop [example_tick, example_tick] (scheduleDetect example_time 0 ?w)) 0 = Some s'
      \<and> state s' = state ?s"
    by (rule full_queue_never_detects)
      (simp_all add: example_world_def example_up_def example_session_def example_time_def
        maybeDropOnOverflow_def eq_Len_def NewScheduler_def pending_def)
  then show ?thesis by (simp add: example_up_def example_session_def)
qed

end
