(* ===== verification/Liveness_Pair.thy ===== *)
theory Liveness_Pair
  imports Liveness_Scheduler
begin

text \<open>
  Two sessions that talk to each other: what the transmission of one side (\<open>txPacket\<close>,
  \<open>Marshal\<close>) does to the other after the wire format (\<open>UnmarshalControlPacket\<close>, \<open>HandleRx\<close>).
  The three-way handshake brings two new sessions to Up; a side that is restarted with a new
  discriminator while the other keeps the old one is never accepted again.
\<close>

definition deliver :: "gotime \<Rightarrow> Scheduler \<Rightarrow> Session \<Rightarrow> Session \<Rightarrow> Session" where
  "deliver now sc a b =
     (case UnmarshalControlPacket (Marshal (txPacket sc a)) of
        Inl e \<Rightarrow> b
      | Inr ctrl \<Rightarrow> snd (HandleRx now ctrl b))"

lemma txPacket_simps [simp]:
  "CtrlState (txPacket sc s) = state s" "LocalDiscr (txPacket sc s) = localDiscr s"
  "PeerDiscr (txPacket sc s) = peerDiscr s" "Version (txPacket sc s) = 1" "Length (txPacket sc s) = 40"
  by (simp_all add: txPacket_def SetPassive_def Let_def)

lemma deliver_eq: "deliver now sc a b = snd (HandleRx now (txPacket sc a) b)"
proof -
  have e: "(txPacket sc a)\<lparr>Version := 1, Length := 40\<rparr> = txPacket sc a"
    by (simp add: txPacket_def SetPassive_def Let_def)
  show ?thesis by (simp add: deliver_def Unmarshal_Marshal_gen e)
qed

lemma HandleRx_localDiscr [simp]: "localDiscr (snd (HandleRx now ctrl s)) = localDiscr s"
  by (cases "state s")
    (simp_all add: HandleRx_def Let_def rxAdminDown_def rxDown_def rxAdvance_def goUp_def)

lemma HandleRx_learns:
  assumes "peerDiscr s = 0" and "state s \<noteq> StateAdminDown" and "state s \<noteq> StateUp"
    and "PeerDiscr ctrl = 0 \<or> PeerDiscr ctrl = localDiscr s"
    and "CtrlState ctrl \<noteq> StateAdminDown" and "\<not> (CtrlState ctrl = StateDown \<and> state s = StateInit)"
  shows "peerDiscr (snd (HandleRx now ctrl s)) = LocalDiscr ctrl"
  using assms by (cases "state s") (auto simp: HandleRx_def Let_def rxAdvance_def goUp_def)

lemma HandleRx_keeps_peer:
  assumes "peerDiscr s \<noteq> 0" and "state s \<noteq> StateUp"
  shows "peerDiscr (snd (HandleRx now ctrl s)) = peerDiscr s"
  using assms
  by (cases "state s")
    (simp_all add: HandleRx_def Let_def rxAdminDown_def rxDown_def rxAdvance_def goUp_def)

text \<open>
  C10. Two newly registered sessions come up in three packets: the first brings the receiver
  to Init, its answer brings the first sender to Up, the third brings the other side to Up;
  both then know each other's discriminator.
\<close>

theorem three_way_handshake:
  assumes "state a = StateDown" and "peerDiscr a = 0" and "localDiscr a \<noteq> 0"
    and "state b = StateDown" and "peerDiscr b = 0" and "localDiscr b \<noteq> 0"
    and "b1 = deliver t1 sa a b" and "a1 = deliver t2 sb b1 a" and "b2 = deliver t3 sa a1 b1"
  shows "state b1 = StateInit \<and> state a1 = StateUp \<and> state b2 = StateUp \<and>
         peerDiscr a1 = localDiscr b \<and> peerDiscr b2 = localDiscr a"
proof -
  have b1: "state b1 = StateInit" "peerDiscr b1 = localDiscr a" "localDiscr b1 = localDiscr b"
    using assms(1-6) HandleRx_learns [of b "txPacket sa a" t1]
    by (simp_all add: assms(7) deliver_eq HandleRx_fsm rx_view_def)
  have a1: "state a1 = StateUp" "peerDiscr a1 = localDiscr b" "localDiscr a1 = localDiscr a"
    using assms(1-3,6) b1 HandleRx_learns [of a "txPacket sb b1" t2]
    by (simp_all add: assms(8) deliver_eq HandleRx_fsm rx_view_def)
  have "state b2 = StateUp" "peerDiscr b2 = localDiscr a"
    using assms(3) a1 b1 HandleRx_keeps_peer [of b1 t3 "txPacket sa a1"]
    by (simp_all add: assms(9) deliver_eq HandleRx_fsm rx_view_def)
  with b1 a1 show ?thesis by simp
qed

subsection \<open>Restart of one side\<close>

text \<open>Every exchange and every expiry between the two sides.\<close>

inductive pair_step :: "Session \<times> Session \<Rightarrow> Session \<times> Session \<Rightarrow> bool" where
  to_b: "pair_step (a, b) (a, deliver now sa a b)"
| to_a: "pair_step (a, b) (deliver now sb b a, b)"
| expire_a: "pair_step (a, b) (snd (ExpireIfDue now a), b)"
| expire_b: "pair_step (a, b) (a, snd (ExpireIfDue now b))"
| tx_a: "pair_step (a, b) (snd (ComputeNextTx r now a), b)"
| tx_b: "pair_step (a, b) (a, snd (ComputeNextTx r now b))"
| arm_a: "pair_step (a, b) (snd (ArmDetect now a), b)"
| arm_b: "pair_step (a, b) (a, snd (ArmDetect now b))"

text \<open>
  \<open>a\<close> still echoes the discriminator of an earlier incarnation of \<open>b\<close>, and \<open>b\<close> knows nothing.
\<close>

definition restarted :: "bool \<Rightarrow> Session \<times> Session \<Rightarrow> bool" where
  "restarted lost p \<longleftrightarrow>
     (case p of (a, b) \<Rightarrow> peerDiscr a \<noteq> 0 \<and> peerDiscr a \<noteq> localDiscr b \<and> state a \<noteq> StateAdminDown
        \<and> (lost \<longrightarrow> state a \<noteq> StateUp) \<and> state b = StateDown \<and> peerDiscr b = 0)"

lemma deliver_foreign:
  assumes "peerDiscr a \<noteq> 0" and "peerDiscr a \<noteq> localDiscr b"
  shows "deliver now sc a b = b"
  using assms by (simp add: deliver_eq HandleRx_def)

lemma deliver_down_keeps:
  assumes "state b = StateDown" and "peerDiscr b = 0" and "peerDiscr a \<noteq> 0" and "state a \<noteq> StateAdminDown"
  shows "peerDiscr (deliver now sc b a) = peerDiscr a"
    and "state (deliver now sc b a) \<noteq> StateAdminDown"
    and "state a \<noteq> StateUp \<Longrightarrow> state (deliver now sc b a) \<noteq> StateUp"
proof -
  show "peerDiscr (deliver now sc b a) = peerDiscr a"
  proof (cases "state a = StateUp")
    case True
    then show ?thesis using assms by (simp add: deliver_eq HandleRx_def Let_def rxDown_def learnPeer_def)
  qed (use assms in \<open>simp add: deliver_eq HandleRx_keeps_peer\<close>)
  show "state (deliver now sc b a) \<noteq> StateAdminDown"
    using assms by (cases "state a") (simp_all add: deliver_eq HandleRx_fsm rx_view_def)
  show "state (deliver now sc b a) \<noteq> StateUp" if "state a \<noteq> StateUp"
    using assms that by (cases "state a") (simp_all add: deliver_eq HandleRx_fsm rx_view_def)
qed

lemma other_keeps [simp]:
  "peerDiscr (snd (ExpireIfDue now s)) = peerDiscr s" "localDiscr (snd (ExpireIfDue now s)) = localDiscr s"
  "peerDiscr (snd (ComputeNextTx r now s)) = peerDiscr s" "localDiscr (snd (ComputeNextTx r now s)) = localDiscr s"
  "peerDiscr (snd (ArmDetect now s)) = peerDiscr s" "localDiscr (snd (ArmDetect now s)) = localDiscr s"
  "state (snd (ArmDetect now s)) = state s"
  by (simp_all add: ExpireIfDue_def ComputeNextTx_def ArmDetect_def Let_def)

lemma ExpireIfDue_state:
  "state (snd (ExpireIfDue now s)) = state s \<or> state (snd (ExpireIfDue now s)) = StateDown"
  by (simp add: ExpireIfDue_def Let_def)

lemma restarted_step: "pair_step p q \<Longrightarrow> restarted lost p \<Longrightarrow> restarted lost q"
proof (induction rule: pair_step.induct)
  case (to_b a b now sa)
  then show ?case by (simp add: restarted_def deliver_foreign)
next
  case (to_a a b now sb)
  then show ?case using deliver_down_keeps [of b a now sb] by (auto simp: restarted_def)
next
  case (expire_a a b now)
  then show ?case using ExpireIfDue_state [of now a] by (auto simp: restarted_def)
next
  case (expire_b a b now)
  then show ?case using ExpireIfDue_state [of now b] by (auto simp: restarted_def)
qed (auto simp: restarted_def)

interpretation restart_lost: step_invariant pair_step "restarted lost" for lost
  by unfold_locales (rule restarted_step)

text \<open>
  C9. A restarted peer is never accepted again: when one side is replaced by a new session
  with a new discriminator while the other keeps the discriminator it had learned, no
  sequence of packets and timeouts between the two brings the new session out of Down, and
  the old session, once it is no longer Up, never comes up again. Nothing in a session
  forgets a learned discriminator outside of Up.
\<close>

theorem restarted_peer_never_accepted:
  assumes "pair_step\<^sup>*\<^sup>* (a, b) (a', b')"
    and "state a \<in> {StateDown, StateInit, StateUp}" and "peerDiscr a \<noteq> 0" and "peerDiscr a \<noteq> localDiscr b"
    and "state b = StateDown" and "peerDiscr b = 0"
  shows "state b' = StateDown \<and> (state a = StateUp \<or> state a' \<noteq> StateUp)"
proof -
  have "restarted (state a \<noteq> StateUp) (a, b)" using assms(2-) by (auto simp: restarted_def)
  from restart_lost.run_inv [OF assms(1) this] show ?thesis by (auto simp: restarted_def)
qed

subsection \<open>Concrete instances\<close>

definition example_new :: "32 word \<Rightarrow> Session" where
  "example_new d = (example_session StateDown)\<lparr>localDiscr := d, peerDiscr := 0\<rparr>"

definition example_scheduler :: Scheduler where
  "example_scheduler = NewScheduler 0 False \<lparr>Major = 0, Minor = 8, Patch = 1, Channel = 0\<rparr>"

theorem three_way_handshake_witness:
  "state (deliver 2 example_scheduler (deliver 1 example_scheduler (example_new 5) (example_new 6))
     (example_new 5)) = StateUp"
  using three_way_handshake [of "example_new 5" "example_new 6", OF _ _ _ _ _ _ refl refl refl]
  by (simp add: example_new_def example_session_def)

theorem restarted_peer_never_accepted_witness:
  "state (deliver 2 example_scheduler (example_session StateDown) (example_new 6)) = StateDown"
proof -
  have "pair_step\<^sup>*\<^sup>* (example_session StateDown, example_new 6)
      (example_session StateDown, deliver 2 example_scheduler (example_session StateDown) (example_new 6))"
    by (rule r_into_rtranclp, rule to_b)
  from restarted_peer_never_accepted [OF this] show ?thesis
    by (simp add: example_new_def example_session_def)
qed

end
