(* ===== verification/Liveness_Manager.thy ===== *)
theory Liveness_Manager
  imports Liveness_Pair
begin

text \<open>
  The liveness manager (client/doublezerod/internal/liveness/manager.go): the validation of
  its configuration, registration and withdrawal of routes, dispatch of received packets, the
  administrative shutdown and the two goroutines that install and remove kernel routes. The
  record \<open>Manager\<close> extends the world of the scheduler by the maps of the Go struct and by the
  log of netlink calls with their outcome; a session pointer is a number in the memory. Each
  operation takes its clock readings, random numbers and the outcome of its netlink call.
\<close>

subsection \<open>Configuration\<close>

record ManagerConfig =
  cfgLogger :: bool
  cfgNetlinker :: bool
  BindIP :: string
  Port :: int
  PassiveMode :: bool
  TxMin :: duration
  RxMin :: duration
  cfgDetectMult :: byte
  MinTxFloor :: duration
  MaxTxCeil :: duration
  BackoffMax :: duration
  MaxEvents :: int
  HonorPeerAdvertisedPassive :: bool
  cfgClientVersion :: string

datatype config_error =
  LoggerRequired | NetlinkerRequired | BindIPRequired | PortNegative | TxMinNotPositive
| RxMinNotPositive | DetectMultNotPositive | MinTxFloorNegative | MaxTxCeilNegative
| MaxTxCeilBelowFloor | BackoffMaxNegative | BackoffMaxBelowFloor | MaxEventsNegative
| ClientVersionRequired

definition defaultMinTxFloor :: duration where "defaultMinTxFloor = 50 * millisecond"
definition defaultMaxTxCeil :: duration where "defaultMaxTxCeil = 3 * second"
definition defaultBackoffMax :: duration where "defaultBackoffMax = 60 * second"
definition defaultMaxEvents :: int where "defaultMaxEvents = 10240"

definition Validate :: "ManagerConfig \<Rightarrow> config_error + ManagerConfig" where
  "Validate c0 =
     (if \<not> cfgLogger c0 then Inl LoggerRequired
      else if \<not> cfgNetlinker c0 then Inl NetlinkerRequired
      else if BindIP c0 = '''' then Inl BindIPRequired
      else if Port c0 < 0 then Inl PortNegative
      else if TxMin c0 \<le> 0 then Inl TxMinNotPositive
      else if RxMin c0 \<le> 0 then Inl RxMinNotPositive
      else if cfgDetectMult c0 \<le> 0 then Inl DetectMultNotPositive
      else let c1 = (if MinTxFloor c0 = 0 then c0\<lparr>MinTxFloor := defaultMinTxFloor\<rparr> else c0) in
      if MinTxFloor c1 < 0 then Inl MinTxFloorNegative
      else let c2 = (if MaxTxCeil c1 = 0 then c1\<lparr>MaxTxCeil := defaultMaxTxCeil\<rparr> else c1) in
      if MaxTxCeil c2 < 0 then Inl MaxTxCeilNegative
      else if MaxTxCeil c2 < MinTxFloor c2 then Inl MaxTxCeilBelowFloor
      else let c3 = (if BackoffMax c2 = 0 then c2\<lparr>BackoffMax := defaultBackoffMax\<rparr> else c2) in
      if BackoffMax c3 < 0 then Inl BackoffMaxNegative
      else if BackoffMax c3 < MinTxFloor c3 then Inl BackoffMaxBelowFloor
      else let c4 = (if MaxEvents c3 = 0 then c3\<lparr>MaxEvents := defaultMaxEvents\<rparr> else c3) in
      if MaxEvents c4 < 0 then Inl MaxEventsNegative
      else if cfgClientVersion c4 = '''' then Inl ClientVersionRequired
      else Inr c4)"

subsection \<open>Keys\<close>

record RouteKey =
  rkInterface :: string
  SrcIP :: string
  rkTable :: int
  DstPrefix :: string
  rkNextHop :: string

text \<open>The dotted form of an IPv4 address, empty for nil and for other addresses.\<close>

definition v4 :: "IP \<Rightarrow> string" where
  "v4 ip = (if ip \<noteq> [] \<and> To4 ip \<noteq> [] then ip4_String (To4 ip) else '''')"

definition routeKeyFor :: "string \<Rightarrow> LRoute \<Rightarrow> RouteKey" where
  "routeKeyFor iface r =
     \<lparr>rkInterface = iface, SrcIP = v4 (Src r), rkTable = Table r, DstPrefix = v4 (NetIP (Dst r)),
      rkNextHop = v4 (NextHop r)\<rparr>"

definition rand32 :: "32 word \<Rightarrow> 32 word" where
  "rand32 v = (if v = 0 then 1 else v)"

text \<open>
  \<open>net.ResolveUDPAddr\<close> on \<open>peerAddrFor\<close>: a dotted address and a decimal port, refused when the
  port is out of range.
\<close>

definition resolvePeer :: "LRoute \<Rightarrow> int \<Rightarrow> UDPAddr option" where
  "resolvePeer r port =
     (if 0 \<le> port \<and> port \<le> 65535 then Some \<lparr>UdpIP = To4 (NetIP (Dst r)), UdpPort = port\<rparr> else None)"

subsection \<open>The manager\<close>

datatype nl_call = RouteAdd Route | RouteDelete Route

record Manager = World +
  cfg :: ManagerConfig
  sessions :: "Peer \<Rightarrow> nat option"
  desired :: "RouteKey \<Rightarrow> LRoute option"
  installed :: "RouteKey \<Rightarrow> bool option"
  nl_log :: "(nl_call \<times> bool) list"
  next_id :: nat
  unknownPeerErrWarnEvery :: duration
  unknownPeerErrWarnLast :: gotime

definition is_installed :: "RouteKey \<Rightarrow> Manager \<Rightarrow> bool" where
  "is_installed rk m = (installed m rk = Some True)"

definition netlink :: "bool \<Rightarrow> nl_call \<Rightarrow> Manager \<Rightarrow> Manager" where
  "netlink err c m = m\<lparr>nl_log := nl_log m @ [(c, \<not> err)]\<rparr>"

definition kernel_route :: "LRoute \<Rightarrow> Route" where
  "kernel_route r = Route.truncate r"

datatype register_error = NonIPv4 | NetlinkAddFailed | PeerUnresolved

definition newSession :: "32 word \<Rightarrow> gotime \<Rightarrow> LRoute \<Rightarrow> Peer \<Rightarrow> UDPAddr \<Rightarrow> ManagerConfig \<Rightarrow> Session" where
  "newSession discr now r p addr c =
     \<lparr>route = r, localDiscr = rand32 discr, peerDiscr = 0, state = StateDown,
      upSince = zero_time, downSince = zero_time, lastDownReason = DownReasonNone, lastUpdated = now,
      peerAdvertisedMode = PeerModeUnknown,
      peerClientVersion = \<lparr>Major = 0, Minor = 0, Patch = 0, Channel = 0\<rparr>,
      detectMult = cfgDetectMult c, localTxMin = TxMin c, localRxMin = RxMin c,
      peerTxMin = 0, peerRxMin = 0, nextTx = zero_time, detectDeadline = zero_time, lastRx = zero_time,
      peer = p, peerAddr = addr, alive = True,
      minTxFloor = MinTxFloor c, maxTxCeil = MaxTxCeil c, backoffMax = BackoffMax c, backoffFactor = 1,
      convUpStart = zero_time, convDownStart = zero_time,
      nextTxScheduled = zero_time, nextDetectScheduled = zero_time\<rparr>"

definition ensureSession ::
  "32 word \<Rightarrow> (int \<Rightarrow> int) \<Rightarrow> gotime \<Rightarrow> gotime \<Rightarrow> LRoute \<Rightarrow> Peer \<Rightarrow> UDPAddr \<Rightarrow> Manager \<Rightarrow> Manager" where
  "ensureSession discr rnd now txnow r p addr m =
     (case sessions m p of
        Some sid \<Rightarrow> m
      | None \<Rightarrow>
          let sid = next_id m in
          scheduleTx rnd txnow sid
            (put sid (newSession discr now r p addr (cfg m))
               (m\<lparr>next_id := sid + 1, sessions := (sessions m)(p \<mapsto> sid)\<rparr>)))"

definition RegisterRoute ::
  "bool \<Rightarrow> 32 word \<Rightarrow> (int \<Rightarrow> int) \<Rightarrow> gotime \<Rightarrow> gotime \<Rightarrow> LRoute \<Rightarrow> string \<Rightarrow> int \<Rightarrow> Manager
     \<Rightarrow> register_error option \<times> Manager" where
  "RegisterRoute nlerr discr rnd now txnow r iface port m =
     (let srcIP = v4 (Src r); dstIP = v4 (NetIP (Dst r)) in
      if srcIP = '''' \<or> dstIP = '''' then (Some NonIPv4, m)
      else let rk = routeKeyFor iface r;
               m1 = (if PassiveMode (cfg m) then netlink nlerr (RouteAdd (kernel_route r)) m else m) in
      if PassiveMode (cfg m) \<and> nlerr then (Some NetlinkAddFailed, m1)
      else let m2 = (if PassiveMode (cfg m) then m1\<lparr>installed := (installed m1)(rk \<mapsto> True)\<rparr> else m1) in
      (case resolvePeer r port of
         None \<Rightarrow> (Some PeerUnresolved, m2)
       | Some addr \<Rightarrow>
           (None, ensureSession discr rnd now txnow r
              \<lparr>Interface = iface, LocalIP = srcIP, PeerIP = dstIP\<rparr> addr
              (m2\<lparr>desired := (desired m2)(rk \<mapsto> r)\<rparr>))))"

datatype withdraw_error = NilIP | NonIPv4Withdraw | NetlinkDeleteFailed

definition killSession :: "Peer \<Rightarrow> Manager \<Rightarrow> Manager" where
  "killSession p m =
     (let m1 = (case sessions m p of
                  None \<Rightarrow> m
                | Some sid \<Rightarrow> (case mem m sid of None \<Rightarrow> m | Some s \<Rightarrow> put sid (s\<lparr>alive := False\<rparr>) m))
      in m1\<lparr>sessions := (sessions m1)(p := None)\<rparr>)"

definition WithdrawRoute :: "bool \<Rightarrow> LRoute \<Rightarrow> string \<Rightarrow> Manager \<Rightarrow> withdraw_error option \<times> Manager" where
  "WithdrawRoute nlerr r iface m =
     (if Src r = [] \<or> NetIP (Dst r) = [] then (Some NilIP, m)
      else if To4 (Src r) = [] \<or> To4 (NetIP (Dst r)) = [] then (Some NonIPv4Withdraw, m)
      else let srcIP = ip4_String (To4 (Src r)); dstIP = ip4_String (To4 (NetIP (Dst r)));
               early = PassiveMode (cfg m) \<and> \<not> NoUninstall r;
               m1 = (if early then netlink nlerr (RouteDelete (kernel_route r)) m else m) in
      if early \<and> nlerr then (Some NetlinkDeleteFailed, m1)
      else let rk = routeKeyFor iface r;
               wasInstalled = is_installed rk m1;
               m2 = m1\<lparr>desired := (desired m1)(rk := None), installed := (installed m1)(rk := None)\<rparr>;
               m3 = killSession \<lparr>Interface = iface, LocalIP = srcIP, PeerIP = dstIP\<rparr> m2 in
      if wasInstalled \<and> \<not> PassiveMode (cfg m) \<and> \<not> NoUninstall r
      then let m4 = netlink nlerr (RouteDelete (kernel_route r)) m3 in
           (if nlerr then Some NetlinkDeleteFailed else None, m4)
      else (None, m3))"

subsection \<open>Queries\<close>

definition expectedKernelState :: "RouteKey \<Rightarrow> Manager \<Rightarrow> KernelState" where
  "expectedKernelState rk m =
     (if desired m rk = None then KernelStateUnknown
      else if is_installed rk m then KernelStatePresent
      else KernelStateAbsent)"

text \<open>The snapshots of all sessions; their order is that of a Go map, so they are a map here.\<close>

definition GetSessions :: "Manager \<Rightarrow> Peer \<Rightarrow> SessionSnapshot option" where
  "GetSessions m p =
     (case sessions m p of
        None \<Rightarrow> None
      | Some sid \<Rightarrow>
          map_option (\<lambda>s. let snap = Snapshot s; rk = routeKeyFor (Interface (snapPeer snap)) (snapRoute snap)
                          in snap\<lparr>snapExpectedKernelState := expectedKernelState rk m\<rparr>) (mem m sid))"

definition GetSession :: "Peer \<Rightarrow> Manager \<Rightarrow> Session option" where
  "GetSession p m = (case sessions m p of None \<Rightarrow> None | Some sid \<Rightarrow> mem m sid)"

definition HasSession :: "Peer \<Rightarrow> Manager \<Rightarrow> bool" where
  "HasSession p m = (sessions m p \<noteq> None)"

definition IsInstalled :: "RouteKey \<Rightarrow> Manager \<Rightarrow> bool" where
  "IsInstalled rk m = is_installed rk m"

definition GetSessionsLen :: "Manager \<Rightarrow> nat" where
  "GetSessionsLen m = card (dom (sessions m))"

definition GetInstalledLen :: "Manager \<Rightarrow> nat" where
  "GetInstalledLen m = card (dom (installed m))"

subsection \<open>Reactions to state changes\<close>

definition isPeerEffectivelyPassive :: "SessionSnapshot \<Rightarrow> Manager \<Rightarrow> bool" where
  "isPeerEffectivelyPassive snap m =
     (HonorPeerAdvertisedPassive (cfg m) \<and> snapPeerAdvertisedMode snap = PeerModePassive)"

text \<open>
  \<open>onSessionUp\<close>: the part under the lock decides and marks the route as installed, the
  netlink call follows after the lock is released.
\<close>

definition upDecide :: "Session \<Rightarrow> Manager \<Rightarrow> LRoute option \<times> Manager" where
  "upDecide s m =
     (let snap = Snapshot s; rk = routeKeyFor (Interface (snapPeer snap)) (snapRoute snap) in
      case desired m rk of
        None \<Rightarrow> (None, m)
      | Some r \<Rightarrow>
          if is_installed rk m \<or> PassiveMode (cfg m) then (None, m)
          else (Some r, m\<lparr>installed := (installed m)(rk \<mapsto> True)\<rparr>))"

definition clearConvUp :: "nat \<Rightarrow> Manager \<Rightarrow> Manager" where
  "clearConvUp sid m =
     (case mem m sid of None \<Rightarrow> m | Some s \<Rightarrow> put sid (s\<lparr>convUpStart := zero_time\<rparr>) m)"

definition clearConvDown :: "nat \<Rightarrow> Manager \<Rightarrow> Manager" where
  "clearConvDown sid m =
     (case mem m sid of None \<Rightarrow> m | Some s \<Rightarrow> put sid (s\<lparr>convDownStart := zero_time\<rparr>) m)"

definition onSessionUp :: "bool \<Rightarrow> nat \<Rightarrow> Manager \<Rightarrow> Manager" where
  "onSessionUp nlerr sid m =
     (case mem m sid of
        None \<Rightarrow> m
      | Some s \<Rightarrow>
          let (o', m1) = upDecide s m;
              m2 = (case o' of None \<Rightarrow> m1 | Some r \<Rightarrow> netlink nlerr (RouteAdd (kernel_route r)) m1)
          in clearConvUp sid m2)"

definition onSessionDown :: "bool \<Rightarrow> nat \<Rightarrow> Manager \<Rightarrow> Manager" where
  "onSessionDown nlerr sid m =
     (case mem m sid of
        None \<Rightarrow> m
      | Some s \<Rightarrow>
          let snap = Snapshot s; rk = routeKeyFor (Interface (snapPeer snap)) (snapRoute snap);
              effectivelyPassive = isPeerEffectivelyPassive snap m;
              r' = desired m rk;
              wasInstalled = is_installed rk m;
              m1 = (if PassiveMode (cfg m) \<or> effectivelyPassive then m
                    else if wasInstalled then m\<lparr>installed := (installed m)(rk \<mapsto> False)\<rparr> else m);
              m2 = clearConvDown sid m1
          in case r' of
               None \<Rightarrow> m2
             | Some r \<Rightarrow>
                 if \<not> wasInstalled then m2
                 else if PassiveMode (cfg m) then m2
                 else if effectivelyPassive then m2
                 else if \<not> NoUninstall r then netlink nlerr (RouteDelete (kernel_route r)) m2
                 else m2)"

definition mgr_HandleRx :: "gotime \<Rightarrow> gotime \<Rightarrow> ControlPacket \<Rightarrow> Peer \<Rightarrow> Manager \<Rightarrow> Manager" where
  "mgr_HandleRx now twarn ctrl p m =
     (case sessions m p of
        None \<Rightarrow>
          if IsZero (unknownPeerErrWarnLast m)
             \<or> time_sub twarn (unknownPeerErrWarnLast m) \<ge> unknownPeerErrWarnEvery m
          then m\<lparr>unknownPeerErrWarnLast := twarn\<rparr> else m
      | Some sid \<Rightarrow>
          (case mem m sid of
             None \<Rightarrow> m
           | Some s \<Rightarrow>
               let (changed, s1) = HandleRx now ctrl s; m1 = put sid s1 m in
               if changed
               then (case GetState s1 of
                       StateUp \<Rightarrow> scheduleDetect now sid (m1\<lparr>spawned := spawned m1 @ [TaskSessionUp sid]\<rparr>)
                     | StateInit \<Rightarrow> scheduleDetect now sid m1
                     | StateDown \<Rightarrow> m1\<lparr>spawned := spawned m1 @ [TaskSessionDown sid]\<rparr>
                     | StateAdminDown \<Rightarrow> m1\<lparr>spawned := spawned m1 @ [TaskSessionDown sid]\<rparr>)
               else (case GetState s1 of
                       StateUp \<Rightarrow> scheduleDetect now sid m1
                     | StateInit \<Rightarrow> scheduleDetect now sid m1
                     | _ \<Rightarrow> m1)))"

definition AdminDownRoute :: "bool \<Rightarrow> (int \<Rightarrow> int) \<Rightarrow> gotime \<Rightarrow> LRoute \<Rightarrow> string \<Rightarrow> Manager \<Rightarrow> Manager" where
  "AdminDownRoute nlerr rnd now r iface m =
     (let p = \<lparr>Interface = iface, LocalIP = ip4_String (To4 (Src r)), PeerIP = ip4_String (To4 (NetIP (Dst r)))\<rparr> in
      case sessions m p of
        None \<Rightarrow> m
      | Some sid \<Rightarrow>
          (case mem m sid of
             None \<Rightarrow> m
           | Some s \<Rightarrow>
               let prev = state s; m1 = put sid (adminDownSession now s) m in
               if prev \<noteq> StateAdminDown
               then let m2 = onSessionDown nlerr sid m1;
                        m3 = m2\<lparr>installed := (installed m2)(routeKeyFor iface r \<mapsto> False)\<rparr>
                    in scheduleTx rnd now sid m3
               else m1))"

subsection \<open>Construction\<close>

datatype new_error = BadConfig config_error | BadVersion version_error

definition emptyManager :: "ManagerConfig \<Rightarrow> ClientVersion \<Rightarrow> Manager" where
  "emptyManager c v =
     \<lparr>mem = Map.empty, sched = NewScheduler (MaxEvents c) (PassiveMode c) v, written = [], spawned = [],
      cfg = c, sessions = Map.empty, desired = Map.empty, installed = Map.empty, nl_log = [],
      next_id = 0, unknownPeerErrWarnEvery = 5 * second, unknownPeerErrWarnLast = zero_time\<rparr>"

definition excludedRoute :: "IP \<Rightarrow> LRoute" where
  "excludedRoute ip =
     \<lparr>Dst = \<lparr>NetIP = ip, Mask = [255, 255, 255, 255]\<rparr>, Src = ip, Table = 0, NextHop = ip, Protocol = 0,
      NoUninstall = False\<rparr>"

text \<open>
  \<open>NewManager\<close> with an open UDP socket; \<open>excluded\<close> are the parsed addresses of the configured
  exclusions and \<open>now\<close> the reading of the clock for each.
\<close>

definition NewManager :: "(int \<Rightarrow> int) \<Rightarrow> gotime \<Rightarrow> IP list \<Rightarrow> ManagerConfig \<Rightarrow> new_error + Manager" where
  "NewManager rnd now excluded c =
     (case Validate c of
        Inl e \<Rightarrow> Inl (BadConfig e)
      | Inr c1 \<Rightarrow>
          (case ParseClientVersion (cfgClientVersion c1) of
             Inl e \<Rightarrow> Inl (BadVersion e)
           | Inr v \<Rightarrow>
               Inr (fold (\<lambda>ip m. AdminDownRoute False rnd now (excludedRoute ip) ''doublezero0'' m)
                      excluded (emptyManager c1 v))))"

subsection \<open>What the operations leave alone\<close>

lemma learnPeer_keeps [simp]:
  "peer (learnPeer ctrl s) = peer s"
  "route (learnPeer ctrl s) = route s"
  "nextTxScheduled (learnPeer ctrl s) = nextTxScheduled s"
  "nextDetectScheduled (learnPeer ctrl s) = nextDetectScheduled s"
  by (simp_all add: learnPeer_def)

lemma rxDown_keeps [simp]:
  "alive (rxDown now s) = alive s"
  "peer (rxDown now s) = peer s"
  "route (rxDown now s) = route s"
  "nextTxScheduled (rxDown now s) = nextTxScheduled s"
  "nextDetectScheduled (rxDown now s) = nextDetectScheduled s"
  by (simp_all add: rxDown_def)

lemma rxAdminDown_keeps [simp]:
  "alive (rxAdminDown now s) = alive s"
  "peer (rxAdminDown now s) = peer s"
  "route (rxAdminDown now s) = route s"
  "nextTxScheduled (rxAdminDown now s) = nextTxScheduled s"
  "nextDetectScheduled (rxAdminDown now s) = nextDetectScheduled s"
  by (simp_all add: rxAdminDown_def)

lemma rxTimers_keeps [simp]:
  "peer (rxTimers now ctrl s) = peer s"
  "route (rxTimers now ctrl s) = route s"
  "nextTxScheduled (rxTimers now ctrl s) = nextTxScheduled s"
  "nextDetectScheduled (rxTimers now ctrl s) = nextDetectScheduled s"
  by (simp_all add: rxTimers_def Let_def)

lemma rxAdvance_keeps [simp]:
  "peer (rxAdvance now ctrl s) = peer s"
  "route (rxAdvance now ctrl s) = route s"
  "nextTxScheduled (rxAdvance now ctrl s) = nextTxScheduled s"
  "nextDetectScheduled (rxAdvance now ctrl s) = nextDetectScheduled s"
  by (cases "state s"; simp add: rxAdvance_def goUp_def Let_def)+

lemma HandleRx_keeps [simp]:
  "alive (snd (HandleRx now ctrl s)) = alive s"
  "peer (snd (HandleRx now ctrl s)) = peer s"
  "route (snd (HandleRx now ctrl s)) = route s"
  "nextTxScheduled (snd (HandleRx now ctrl s)) = nextTxScheduled s"
  "nextDetectScheduled (snd (HandleRx now ctrl s)) = nextDetectScheduled s"
  by (simp_all add: HandleRx_def Let_def)

lemma session_ops_keep [simp]:
  "peer (snd (ComputeNextTx r now s)) = peer s" "route (snd (ComputeNextTx r now s)) = route s"
  "peer (snd (ArmDetect now s)) = peer s" "route (snd (ArmDetect now s)) = route s"
  "alive (snd (ArmDetect now s)) = alive s"
  "peer (snd (ExpireIfDue now s)) = peer s" "route (snd (ExpireIfDue now s)) = route s"
  "peer (adminDownSession now s) = peer s" "route (adminDownSession now s) = route s"
  "alive (adminDownSession now s) = alive s"
  "nextTxScheduled (adminDownSession now s) = nextTxScheduled s"
  "peer (clearTx ev s) = peer s" "route (clearTx ev s) = route s"
  "peer (clearDetect ev s) = peer s" "route (clearDetect ev s) = route s"
  by (simp_all add: ComputeNextTx_def ArmDetect_def ExpireIfDue_def adminDownSession_def clearTx_def
      clearDetect_def Let_def)

text \<open>The same sessions, with the same peer, route and management status.\<close>

definition same_ident :: "Session \<Rightarrow> Session \<Rightarrow> bool" where
  "same_ident s s' \<longleftrightarrow> peer s' = peer s \<and> route s' = route s \<and> alive s' = alive s"

definition mem_frame :: "store \<Rightarrow> store \<Rightarrow> bool" where
  "mem_frame h h' \<longleftrightarrow> (\<forall>i. rel_option same_ident (h i) (h' i))"

lemma mem_frame_refl [simp]: "mem_frame h h"
  by (simp add: mem_frame_def same_ident_def option.rel_refl)

lemma mem_frame_trans: "mem_frame h h1 \<Longrightarrow> mem_frame h1 h2 \<Longrightarrow> mem_frame h h2"
  unfolding mem_frame_def
proof (intro allI)
  fix i assume "\<forall>i. rel_option same_ident (h i) (h1 i)" "\<forall>i. rel_option same_ident (h1 i) (h2 i)"
  then have "rel_option same_ident (h i) (h1 i)" "rel_option same_ident (h1 i) (h2 i)" by auto
  then show "rel_option same_ident (h i) (h2 i)"
    by (cases "h i"; cases "h1 i"; cases "h2 i") (auto simp: same_ident_def)
qed

lemma mem_frame_upd [intro]: "h i = Some s \<Longrightarrow> same_ident s s' \<Longrightarrow> mem_frame h (h(i \<mapsto> s'))"
  by (auto simp: mem_frame_def same_ident_def option.rel_refl)

lemma mem_frame_upd2: "mem_frame h h1 \<Longrightarrow> h1 i = Some s \<Longrightarrow> same_ident s s' \<Longrightarrow> mem_frame h (h1(i \<mapsto> s'))"
  by (blast intro: mem_frame_trans)

lemma mem_frame_Some:
  "mem_frame h h' \<Longrightarrow> h i = Some s \<Longrightarrow> \<exists>s'. h' i = Some s' \<and> same_ident s s'"
  unfolding mem_frame_def by (metis option_rel_Some1)

lemma mem_frame_Some':
  "mem_frame h h' \<Longrightarrow> h' i = Some s' \<Longrightarrow> \<exists>s. h i = Some s \<and> same_ident s s'"
  unfolding mem_frame_def by (metis option_rel_Some2)

lemma mem_frame_None: "mem_frame h h' \<Longrightarrow> h' i = None \<longleftrightarrow> h i = None"
  unfolding mem_frame_def by (metis option.rel_distinct option.exhaust option_rel_Some1 option_rel_Some2 not_Some_eq)

lemma frame_scheduleTx: "mem_frame (mem w) (mem (scheduleTx rnd now i w))"
  by (auto simp: scheduleTx_def split_beta same_ident_def split: option.split)

lemma frame_scheduleDetect: "mem_frame (mem w) (mem (scheduleDetect now i w))"
  by (auto simp: scheduleDetect_def split_beta Let_def same_ident_def split: option.split)

lemma frame_onTxEvent: "mem_frame (mem w) (mem (onTxEvent t ev w))"
proof (cases "mem w (ev_session ev)")
  case None
  then show ?thesis by (simp add: onTxEvent_def)
next
  case (Some s)
  let ?w2 = "doTX t (ev_session ev) (put (ev_session ev) (clearTx ev s) w)"
  have "mem_frame (mem w) (mem ?w2)" using Some by (auto simp: same_ident_def)
  moreover have "mem_frame (mem w) (mem (scheduleTx (t_rnd t) (t_tx t) (ev_session ev) ?w2))"
    using \<open>mem_frame (mem w) (mem ?w2)\<close> frame_scheduleTx by (rule mem_frame_trans)
  ultimately show ?thesis by (simp add: onTxEvent_eq [OF Some] Let_def)
qed

lemma frame_onDetectEvent: "mem_frame (mem w) (mem (onDetectEvent t ev w))"
proof (cases "mem w (ev_session ev)")
  case None
  then show ?thesis by (simp add: onDetectEvent_def)
next
  case (Some s)
  let ?i = "ev_session ev" let ?w2 = "put ?i (clearDetect ev s) w"
  have a: "mem_frame (mem w) (mem ?w2)" using Some by (auto simp: same_ident_def)
  have b: "mem_frame (mem w) (mem (scheduleDetect (t_arm t) ?i ?w2))"
    using a frame_scheduleDetect by (rule mem_frame_trans)
  have c: "mem_frame (mem w) ((mem w)(?i \<mapsto> snd (ExpireIfDue (t_expire t) (clearDetect ev s))))"
    using Some by (auto simp: same_ident_def)
  show ?thesis using a b c by (simp add: onDetectEvent_eq [OF Some] Let_def)
qed

lemma frame_runIter: "mem_frame (mem w) (mem (snd (runIter t w)))"
proof (cases rule: runIter_cases [of t w])
  case (event ev q)
  then show ?thesis
    using frame_onTxEvent [of "w\<lparr>sched := (sched w)\<lparr>eq := q\<rparr>\<rparr>" t ev]
      frame_onDetectEvent [of "w\<lparr>sched := (sched w)\<lparr>eq := q\<rparr>\<rparr>" t ev]
    by (cases "ev_type ev") simp_all
qed simp

text \<open>The scheduler does not touch the fields of the manager.\<close>

definition mgr_view :: "Manager \<Rightarrow> ManagerConfig \<times> (Peer \<Rightarrow> nat option) \<times> (RouteKey \<Rightarrow> LRoute option)
    \<times> (RouteKey \<Rightarrow> bool option) \<times> (nl_call \<times> bool) list \<times> nat" where
  "mgr_view m = (cfg m, sessions m, desired m, installed m, nl_log m, next_id m)"

lemma view_basic [simp]:
  "mgr_view (put i s m) = mgr_view m" "mgr_view (pushEvent d et i m) = mgr_view m"
  "mgr_view (m\<lparr>sched := x\<rparr>) = mgr_view m" "mgr_view (m\<lparr>written := ws\<rparr>) = mgr_view m"
  "mgr_view (m\<lparr>spawned := ts\<rparr>) = mgr_view m" "mgr_view (m\<lparr>unknownPeerErrWarnLast := tt\<rparr>) = mgr_view m"
  by (simp_all add: mgr_view_def put_def pushEvent_def)

lemma view_scheduler [simp]:
  "mgr_view (scheduleTx rnd now i m) = mgr_view m" "mgr_view (scheduleDetect now i m) = mgr_view m"
  "mgr_view (doTX t i m) = mgr_view m"
  by (simp_all add: scheduleTx_def scheduleDetect_def doTX_def split_beta Let_def split: option.split)

lemma scheduleTx_mgr [simp]:
  fixes m :: Manager
  shows "cfg (scheduleTx rnd now i m) = cfg m" "sessions (scheduleTx rnd now i m) = sessions m"
  "desired (scheduleTx rnd now i m) = desired m" "installed (scheduleTx rnd now i m) = installed m"
  "nl_log (scheduleTx rnd now i m) = nl_log m" "next_id (scheduleTx rnd now i m) = next_id m"
  using view_scheduler(1) [of rnd now i m] by (simp_all add: mgr_view_def)

lemma scheduleDetect_mgr [simp]:
  fixes m :: Manager
  shows "cfg (scheduleDetect now i m) = cfg m" "sessions (scheduleDetect now i m) = sessions m"
  "desired (scheduleDetect now i m) = desired m" "installed (scheduleDetect now i m) = installed m"
  "nl_log (scheduleDetect now i m) = nl_log m" "next_id (scheduleDetect now i m) = next_id m"
  using view_scheduler(2) [of now i m] by (simp_all add: mgr_view_def)

lemma view_runIter [simp]: "mgr_view (snd (runIter t m)) = mgr_view m"
proof (cases rule: runIter_cases [of t m])
  case (event ev q)
  let ?m1 = "m\<lparr>sched := (sched m)\<lparr>eq := q\<rparr>\<rparr>"
  have "mgr_view (onTxEvent t ev ?m1) = mgr_view m"
    by (simp add: onTxEvent_def Let_def split: option.split)
  moreover have "mgr_view (onDetectEvent t ev ?m1) = mgr_view m"
    by (simp add: onDetectEvent_def tryExpire_def split_beta Let_def split: option.split)
  ultimately show ?thesis using event(2) by (cases "ev_type ev") simp_all
qed simp

subsection \<open>The invariant of the manager\<close>

definition ok_cfg :: "ManagerConfig \<Rightarrow> bool" where
  "ok_cfg c \<longleftrightarrow> 0 < MinTxFloor c \<and> MinTxFloor c \<le> MaxTxCeil c \<and> MaxTxCeil c < 2 ^ 55
     \<and> 0 < cfgDetectMult c \<and> MinTxFloor c \<le> BackoffMax c \<and> BackoffMax c < 2 ^ 61
     \<and> span_ok (MinTxFloor c) (MaxTxCeil c) (BackoffMax c)"

text \<open>The sessions map and the memory agree: exactly the alive sessions are reachable, by their peer.\<close>

definition linked :: "Manager \<Rightarrow> bool" where
  "linked m \<longleftrightarrow> (\<forall>i \<ge> next_id m. mem m i = None)
     \<and> (\<forall>p i. sessions m p = Some i \<longrightarrow> (\<exists>s. mem m i = Some s \<and> peer s = p \<and> alive s))
     \<and> (\<forall>i s. mem m i = Some s \<longrightarrow> alive s \<longrightarrow> sessions m (peer s) = Some i)"

definition mgr_inv :: "Manager \<Rightarrow> bool" where
  "mgr_inv m \<longleftrightarrow> sched_inv m \<and> linked m \<and> ok_cfg (cfg m)"

lemma linked_frame:
  assumes "linked m" and "mem_frame (mem m) (mem m')" and "sessions m' = sessions m" and "next_id m' = next_id m"
  shows "linked m'"
  unfolding linked_def
proof (intro conjI allI impI)
  fix i assume "next_id m' \<le> i"
  then show "mem m' i = None"
    using assms(1,4) mem_frame_None [OF assms(2)] by (simp add: linked_def)
next
  fix p i assume "sessions m' p = Some i"
  then have "\<exists>s. mem m i = Some s \<and> peer s = p \<and> alive s"
    using assms(1,3) unfolding linked_def by metis
  then show "\<exists>s. mem m' i = Some s \<and> peer s = p \<and> alive s"
    using mem_frame_Some [OF assms(2)] by (fastforce simp: same_ident_def)
next
  fix i s' assume "mem m' i = Some s'" "alive s'"
  moreover from this obtain s where "mem m i = Some s" "same_ident s s'"
    using mem_frame_Some' [OF assms(2)] by blast
  ultimately show "sessions m' (peer s') = Some i"
    using assms(1,3) by (auto simp: linked_def same_ident_def)
qed

lemma inv_but_cong:
  "mem m' = mem m \<Longrightarrow> eq (sched m') = eq (sched m) \<Longrightarrow> inv_but X Y m' = inv_but X Y m"
  by (simp add: inv_but_def marks_def pending_def)

lemma mgr_inv_frame:
  assumes "mgr_inv m" and "sched_inv m'" and "mem_frame (mem m) (mem m')"
    and "sessions m' = sessions m" and "next_id m' = next_id m" and "cfg m' = cfg m"
  shows "mgr_inv m'"
  using assms linked_frame [of m m'] by (simp add: mgr_inv_def)

lemma mgr_inv_view:
  assumes "mgr_inv m" and "sched_inv m'" and "mem_frame (mem m) (mem m')" and "mgr_view m' = mgr_view m"
  shows "mgr_inv m'"
  using assms by (intro mgr_inv_frame [of m m']) (simp_all add: mgr_view_def)

lemma netlink_simps [simp]:
  "mem (netlink e c m) = mem m" "sched (netlink e c m) = sched m" "sessions (netlink e c m) = sessions m"
  "next_id (netlink e c m) = next_id m" "cfg (netlink e c m) = cfg m" "desired (netlink e c m) = desired m"
  "installed (netlink e c m) = installed m" "spawned (netlink e c m) = spawned m"
  "nl_log (netlink e c m) = nl_log m @ [(c, \<not> e)]"
  by (simp_all add: netlink_def)

lemma put_mgr_simps [simp]:
  "sessions (put i s m) = sessions m" "next_id (put i s m) = next_id m" "cfg (put i s m) = cfg m"
  "desired (put i s m) = desired m" "installed (put i s m) = installed m" "nl_log (put i s m) = nl_log m"
  by (simp_all add: put_def)

lemma sched_inv_conv:
  assumes "inv_but X Y m" and "mem m i = Some s"
  shows "inv_but X Y (put i (s\<lparr>convUpStart := a\<rparr>) m)" and "inv_but X Y (put i (s\<lparr>convDownStart := a\<rparr>) m)"
  using inv_butD [OF assms]
  by (auto intro!: inv_but_update [OF assms(1)] simp: marks_def tx_live_def det_live_def)

lemma onSessionUp_frame:
  shows "sched (onSessionUp e i m) = sched m" and "sessions (onSessionUp e i m) = sessions m"
    and "next_id (onSessionUp e i m) = next_id m" and "cfg (onSessionUp e i m) = cfg m"
    and "desired (onSessionUp e i m) = desired m"
    and "mem (onSessionUp e i m) = (mem m)(i := map_option (convUpStart_update (\<lambda>_. zero_time)) (mem m i))"
  by (auto simp: onSessionUp_def upDecide_def clearConvUp_def Let_def fun_eq_iff split: option.split prod.split)

lemma onSessionDown_frame:
  shows "sched (onSessionDown e i m) = sched m" and "sessions (onSessionDown e i m) = sessions m"
    and "next_id (onSessionDown e i m) = next_id m" and "cfg (onSessionDown e i m) = cfg m"
    and "desired (onSessionDown e i m) = desired m"
    and "mem (onSessionDown e i m) = (mem m)(i := map_option (convDownStart_update (\<lambda>_. zero_time)) (mem m i))"
  by (auto simp: onSessionDown_def clearConvDown_def Let_def fun_eq_iff split: option.split)

lemma mgr_inv_onSessionUp: "mgr_inv m \<Longrightarrow> mgr_inv (onSessionUp e i m)"
proof (rule mgr_inv_frame)
  assume m: "mgr_inv m"
  show "sched_inv (onSessionUp e i m)"
  proof (cases "mem m i")
    case None
    then show ?thesis using m by (simp add: onSessionUp_def mgr_inv_def)
  next
    case (Some s)
    then have "sched_inv (put i (s\<lparr>convUpStart := zero_time\<rparr>) m)"
      using m by (intro sched_inv_conv) (simp_all add: mgr_inv_def)
    then show ?thesis
      using Some inv_but_cong [of "onSessionUp e i m" "put i (s\<lparr>convUpStart := zero_time\<rparr>) m"]
      by (simp add: onSessionUp_frame)
  qed
qed (auto simp: onSessionUp_frame mem_frame_def same_ident_def option.rel_map option.rel_refl)

lemma mgr_inv_onSessionDown: "mgr_inv m \<Longrightarrow> mgr_inv (onSessionDown e i m)"
proof (rule mgr_inv_frame)
  assume m: "mgr_inv m"
  show "sched_inv (onSessionDown e i m)"
  proof (cases "mem m i")
    case None
    then show ?thesis using m by (simp add: onSessionDown_def mgr_inv_def)
  next
    case (Some s)
    then have "sched_inv (put i (s\<lparr>convDownStart := zero_time\<rparr>) m)"
      using m by (intro sched_inv_conv) (simp_all add: mgr_inv_def)
    then show ?thesis
      using Some inv_but_cong [of "onSessionDown e i m" "put i (s\<lparr>convDownStart := zero_time\<rparr>) m"]
      by (simp add: onSessionDown_frame)
  qed
qed (auto simp: onSessionDown_frame mem_frame_def same_ident_def option.rel_map option.rel_refl)

lemma sess_inv_new:
  assumes "ok_cfg c"
  shows "sess_inv (newSession d now r p a c)"
  using assms
  by (simp add: sess_inv_def sess_cfg_def factor_ok_def ok_cfg_def newSession_def rand32_def zero_time_def)

lemma linkedD:
  assumes "linked m"
  shows "next_id m \<le> i \<Longrightarrow> mem m i = None"
    and "sessions m p = Some i \<Longrightarrow> \<exists>s. mem m i = Some s \<and> peer s = p \<and> alive s"
    and "mem m i = Some s \<Longrightarrow> alive s \<Longrightarrow> sessions m (peer s) = Some i"
  using assms unfolding linked_def by blast+

lemma linked_new:
  assumes "linked m" and "sessions m p = None" and "peer s = p" and "alive s"
    and "mem m' = (mem m)(next_id m \<mapsto> s)" and "sessions m' = (sessions m)(p \<mapsto> next_id m)"
    and "next_id m' = next_id m + 1"
  shows "linked m'"
  unfolding linked_def
proof (intro conjI allI impI)
  fix i assume "next_id m' \<le> i"
  then show "mem m' i = None" using linkedD(1) [OF assms(1), of i] assms(5,7) by simp
next
  fix q i assume q: "sessions m' q = Some i"
  show "\<exists>t. mem m' i = Some t \<and> peer t = q \<and> alive t"
  proof (cases "q = p")
    case True
    then show ?thesis using q assms(3-6) by simp
  next
    case False
    then have "\<exists>t. mem m i = Some t \<and> peer t = q \<and> alive t"
      using q assms(6) linkedD(2) [OF assms(1), of q i] by simp
    moreover from this have "i \<noteq> next_id m" using linkedD(1) [OF assms(1), of i] by auto
    ultimately show ?thesis using assms(5) by simp
  qed
next
  fix i t assume i: "mem m' i = Some t" and t: "alive t"
  show "sessions m' (peer t) = Some i"
  proof (cases "i = next_id m")
    case True
    then show ?thesis using i assms(3,5,6) by simp
  next
    case False
    then have o: "sessions m (peer t) = Some i"
      using i t assms(5) linkedD(3) [OF assms(1), of i t] by simp
    then have "peer t \<noteq> p" using assms(2) by auto
    then show ?thesis using o assms(6) by simp
  qed
qed

lemma mgr_inv_maps:
  "mgr_inv (m\<lparr>desired := a\<rparr>) = mgr_inv m" "mgr_inv (m\<lparr>installed := b\<rparr>) = mgr_inv m"
  "mgr_inv (netlink e c m) = mgr_inv m" "mgr_inv (m\<lparr>spawned := ts\<rparr>) = mgr_inv m"
  "mgr_inv (m\<lparr>unknownPeerErrWarnLast := tt\<rparr>) = mgr_inv m"
  by (simp_all add: mgr_inv_def linked_def inv_but_def marks_def pending_def)

lemma mgr_inv_add:
  assumes "mgr_inv m" and "sessions m p = None" and "clock_ok txnow"
  shows "mgr_inv (scheduleTx rnd txnow (next_id m) (put (next_id m) (newSession d now r p a (cfg m))
    (m\<lparr>next_id := next_id m + 1, sessions := (sessions m)(p \<mapsto> next_id m)\<rparr>)))"
proof -
  let ?s = "newSession d now r p a (cfg m)"
  let ?m1 = "m\<lparr>next_id := next_id m + 1, sessions := (sessions m)(p \<mapsto> next_id m)\<rparr>"
  let ?m2 = "put (next_id m) ?s ?m1"
  have s: "peer ?s = p" "alive ?s" by (simp_all add: newSession_def)
  have si: "sess_inv ?s" using assms(1) by (simp add: sess_inv_new mgr_inv_def)
  have l: "linked ?m2"
    by (rule linked_new [of m p ?s]) (use assms(1,2) s in \<open>simp_all add: mgr_inv_def\<close>)
  have m1: "inv_but {} {} ?m1" using assms(1) inv_but_cong [of ?m1 m] by (simp add: mgr_inv_def)
  have "inv_but {next_id m} {} ?m2"
  proof (rule inv_but_update [OF m1])
    show "mem ?m2 = (mem ?m1)(next_id m \<mapsto> ?s)" by simp
    show "marks ?m2 (next_id m) ?s" by (simp add: marks_def newSession_def zero_time_def)
    show "det_live ?s" by (simp add: det_live_def newSession_def)
  qed (use si in simp_all)
  then have "inv_but ({next_id m} - {next_id m}) {} (scheduleTx rnd txnow (next_id m) ?m2)"
    using assms(3) by (rule scheduleTx_inv)
  then have "sched_inv (scheduleTx rnd txnow (next_id m) ?m2)" by simp
  moreover have "linked (scheduleTx rnd txnow (next_id m) ?m2)"
    by (rule linked_frame [OF l frame_scheduleTx]) (simp_all only: scheduleTx_mgr)
  moreover have "ok_cfg (cfg (scheduleTx rnd txnow (next_id m) ?m2))"
    using assms(1) by (simp add: mgr_inv_def)
  ultimately show ?thesis by (simp only: mgr_inv_def)
qed

lemma mgr_inv_ensure:
  "mgr_inv m \<Longrightarrow> clock_ok txnow \<Longrightarrow> mgr_inv (ensureSession d rnd now txnow r p a m)"
  using mgr_inv_add [of m p txnow] by (simp add: ensureSession_def Let_def split: option.split)

lemma mgr_inv_Register:
  "mgr_inv m \<Longrightarrow> clock_ok txnow \<Longrightarrow> mgr_inv (snd (RegisterRoute e d rnd now txnow r iface port m))"
  by (simp add: RegisterRoute_def Let_def mgr_inv_maps mgr_inv_ensure split: option.split)


lemma mgr_inv_kill:
  assumes "mgr_inv m"
  shows "mgr_inv (killSession p m)"
proof (cases "sessions m p")
  case None
  then have "(sessions m)(p := None) = sessions m" by auto
  then show ?thesis using assms None by (simp add: killSession_def)
next
  case (Some i)
  have l: "linked m" and si: "sched_inv m" using assms by (simp_all add: mgr_inv_def)
  from linkedD(2) [OF l Some] obtain s where s: "mem m i = Some s" "peer s = p" "alive s" by blast
  let ?m1 = "put i (s\<lparr>alive := False\<rparr>) m"
  let ?m2 = "?m1\<lparr>sessions := (sessions m)(p := None)\<rparr>"
  have k: "killSession p m = ?m2" using Some s by (simp add: killSession_def)
  note d = inv_butD [OF si s(1)]
  have "inv_but {} {} ?m1"
  proof (rule inv_but_update [OF si])
    show "mem ?m1 = (mem m)(i \<mapsto> s\<lparr>alive := False\<rparr>)" by simp
    show "marks ?m1 i (s\<lparr>alive := False\<rparr>)" using d(2) by (simp add: marks_def)
  qed (use d(1) in \<open>simp_all add: tx_live_def det_live_def\<close>)
  then have "sched_inv ?m2" using inv_but_cong [of ?m2 ?m1] by simp
  moreover have "linked ?m2"
    unfolding linked_def
  proof (intro conjI allI impI)
    fix j assume "next_id ?m2 \<le> j"
    then have "mem m j = None" using linkedD(1) [OF l] by simp
    then show "mem ?m2 j = None" using s(1) by auto
  next
    fix q j assume q: "sessions ?m2 q = Some j"
    then have "q \<noteq> p" and qj: "sessions m q = Some j" by (auto split: if_splits)
    from linkedD(2) [OF l qj] obtain t where t: "mem m j = Some t" "peer t = q" "alive t" by blast
    then have "j \<noteq> i" using s \<open>q \<noteq> p\<close> by auto
    then show "\<exists>t. mem ?m2 j = Some t \<and> peer t = q \<and> alive t" using t by simp
  next
    fix j t assume j: "mem ?m2 j = Some t" and t: "alive t"
    then have "j \<noteq> i" and mj: "mem m j = Some t" by (auto split: if_splits)
    from linkedD(3) [OF l mj t] show "sessions ?m2 (peer t) = Some j"
      using Some \<open>j \<noteq> i\<close> by auto
  qed
  ultimately show ?thesis using assms by (simp add: k mgr_inv_def)
qed

lemma mgr_inv_Withdraw: "mgr_inv m \<Longrightarrow> mgr_inv (snd (WithdrawRoute e r iface m))"
  by (simp add: WithdrawRoute_def Let_def mgr_inv_maps mgr_inv_kill)

lemma mgr_inv_runIter:
  assumes "mgr_inv m" and "tick_ok t" and "\<not> maybeDropOnOverflow eventTypeDetect (sched m)"
  shows "mgr_inv (snd (runIter t m))"
  using assms by (intro mgr_inv_view [OF assms(1)] runIter_inv frame_runIter view_runIter) (simp_all add: mgr_inv_def)

lemma mgr_inv_HandleRx:
  assumes "mgr_inv m" and "clock_ok now" and "\<not> maybeDropOnOverflow eventTypeDetect (sched m)"
  shows "mgr_inv (mgr_HandleRx now tw ctrl p m)"
proof (cases "sessions m p")
  case None
  then show ?thesis using assms(1) by (simp add: mgr_HandleRx_def mgr_inv_maps)
next
  case (Some i)
  have l: "linked m" and si: "sched_inv m" using assms by (simp_all add: mgr_inv_def)
  from linkedD(2) [OF l Some] obtain s where s: "mem m i = Some s" by blast
  note d = inv_butD [OF si s]
  let ?s1 = "snd (HandleRx now ctrl s)" let ?m1 = "put i ?s1 m"
  have pos: "0 < now" using assms(2) by (simp add: clock_ok_def)
  have s1: "sess_inv ?s1" using d(1) pos by (rule sess_inv_HandleRx)
  have admin: "state ?s1 \<noteq> StateAdminDown \<Longrightarrow> state s \<noteq> StateAdminDown"
    by (auto simp: HandleRx_def)
  have mk: "marks (put i ?s1 m) i ?s1" using d(2) by (simp add: marks_def)
  have tl: "tx_live ?s1" using d(3) admin by (auto simp: tx_live_def)
  have but: "inv_but {} {i} ?m1"
    by (rule inv_but_update [OF si]) (use s1 mk tl in auto)
  have plain: "inv_but {} {} ?m1" if "\<not> (state ?s1 = StateUp \<or> state ?s1 = StateInit)"
    by (rule inv_but_update [OF si]) (use s1 mk tl that in \<open>auto simp: det_live_def\<close>)
  have fr: "mem_frame (mem m) (mem ?m1)" using s by (auto simp: same_ident_def)
  have A: "mgr_inv (?m1\<lparr>spawned := ts\<rparr>)" if "\<not> (state ?s1 = StateUp \<or> state ?s1 = StateInit)" for ts
    using mgr_inv_view [OF assms(1) plain [OF that] fr] by (simp add: mgr_inv_maps)
  have B: "mgr_inv (scheduleDetect now i (?m1\<lparr>spawned := ts\<rparr>))" for ts
  proof (rule mgr_inv_view [OF assms(1)])
    have "inv_but {} {i} (?m1\<lparr>spawned := ts\<rparr>)" using but inv_but_cong [of "?m1\<lparr>spawned := ts\<rparr>" ?m1] by simp
    then have "inv_but {} ({i} - {i}) (scheduleDetect now i (?m1\<lparr>spawned := ts\<rparr>))"
      by (rule scheduleDetect_inv) (use pos assms(3) in simp_all)
    then show "sched_inv (scheduleDetect now i (?m1\<lparr>spawned := ts\<rparr>))" by simp
    show "mem_frame (mem m) (mem (scheduleDetect now i (?m1\<lparr>spawned := ts\<rparr>)))"
      using mem_frame_trans [OF fr] frame_scheduleDetect [of "?m1\<lparr>spawned := ts\<rparr>" now i] by simp
  qed simp
  have A0: "mgr_inv ?m1" if "\<not> (state ?s1 = StateUp \<or> state ?s1 = StateInit)"
    using A [OF that] by (simp add: mgr_inv_maps)
  have same: "?m1\<lparr>spawned := spawned m\<rparr> = ?m1" by (simp add: put_def)
  have B0: "mgr_inv (scheduleDetect now i ?m1)" using B [of "spawned m"] by (simp only: same)
  show ?thesis
    using Some s A A0 B B0
    by (cases "state ?s1") (simp_all add: mgr_HandleRx_def split_beta Let_def GetState_def)
qed

lemma mgr_inv_Admin:
  assumes "mgr_inv m" and "clock_ok now"
  shows "mgr_inv (AdminDownRoute e rnd now r iface m)"
proof -
  let ?p = "\<lparr>Interface = iface, LocalIP = ip4_String (To4 (Src r)), PeerIP = ip4_String (To4 (NetIP (Dst r)))\<rparr>"
  show ?thesis
  proof (cases "sessions m ?p")
    case None
    then show ?thesis using assms(1) by (simp add: AdminDownRoute_def)
  next
    case (Some i)
    have l: "linked m" and si: "sched_inv m" using assms by (simp_all add: mgr_inv_def)
    from linkedD(2) [OF l Some] obtain s where s: "mem m i = Some s" by blast
    note d = inv_butD [OF si s]
    let ?m1 = "put i (adminDownSession now s) m"
    have ad: "sess_inv (adminDownSession now s)" using d(1) by (rule sess_inv_adminDown)
    have st: "state (adminDownSession now s) = StateAdminDown" by (simp add: adminDownSession_def)
    have mk: "marks ?m1 i (adminDownSession now s)"
      using d(2) by (simp add: marks_def adminDownSession_def zero_time_def)
    have "inv_but {} {} ?m1"
      by (rule inv_but_update [OF si]) (use ad mk st in \<open>auto simp: tx_live_def det_live_def\<close>)
    moreover have "mem_frame (mem m) (mem ?m1)" using s by (auto simp: same_ident_def)
    ultimately have m1: "mgr_inv ?m1" by (intro mgr_inv_view [OF assms(1)]) simp_all
    let ?m3 = "(onSessionDown e i ?m1)\<lparr>installed := (installed (onSessionDown e i ?m1))(routeKeyFor iface r \<mapsto> False)\<rparr>"
    have m3: "mgr_inv ?m3" using mgr_inv_onSessionDown [OF m1] by (simp add: mgr_inv_maps)
    have "mgr_inv (scheduleTx rnd now i ?m3)"
    proof (rule mgr_inv_view [OF m3])
      have "inv_but ({} - {i}) {} (scheduleTx rnd now i ?m3)"
        using m3 assms(2) by (intro scheduleTx_inv) (simp_all add: mgr_inv_def)
      then show "sched_inv (scheduleTx rnd now i ?m3)" by simp
      show "mem_frame (mem ?m3) (mem (scheduleTx rnd now i ?m3))" by (rule frame_scheduleTx)
    qed simp
    then show ?thesis using Some s m1 by (simp add: AdminDownRoute_def Let_def)
  qed
qed

text \<open>
  Every step of the manager: a call of its interface, a received packet, an iteration of the
  scheduler loop, or one of the started goroutines, in any order.
\<close>

inductive mgr_step :: "Manager \<Rightarrow> Manager \<Rightarrow> bool" where
  register: "clock_ok txnow \<Longrightarrow> mgr_step m (snd (RegisterRoute e d rnd now txnow r iface port m))"
| withdraw: "mgr_step m (snd (WithdrawRoute e r iface m))"
| receive: "clock_ok now \<Longrightarrow> mgr_step m (mgr_HandleRx now tw ctrl p m)"
| admin: "clock_ok now \<Longrightarrow> mgr_step m (AdminDownRoute e rnd now r iface m)"
| loop: "tick_ok t \<Longrightarrow> mgr_step m (snd (runIter t m))"
| task_up: "spawned m = xs @ TaskSessionUp i # ys \<Longrightarrow> mgr_step m (onSessionUp e i (m\<lparr>spawned := xs @ ys\<rparr>))"
| task_down: "spawned m = xs @ TaskSessionDown i # ys \<Longrightarrow> mgr_step m (onSessionDown e i (m\<lparr>spawned := xs @ ys\<rparr>))"

text \<open>A step taken while the event queue is below its bound.\<close>

definition calm_step :: "Manager \<Rightarrow> Manager \<Rightarrow> bool" where
  "calm_step m m' \<longleftrightarrow> mgr_step m m' \<and> \<not> maybeDropOnOverflow eventTypeDetect (sched m)"

lemma mgr_inv_step: "mgr_step m m' \<Longrightarrow> \<not> maybeDropOnOverflow eventTypeDetect (sched m) \<Longrightarrow> mgr_inv m \<Longrightarrow> mgr_inv m'"
  by (induction rule: mgr_step.induct)
    (simp_all add: mgr_inv_Register mgr_inv_Withdraw mgr_inv_HandleRx mgr_inv_Admin mgr_inv_runIter
      mgr_inv_onSessionUp mgr_inv_onSessionDown mgr_inv_maps)

interpretation mgr: step_invariant calm_step mgr_inv
  by unfold_locales (auto simp: calm_step_def intro: mgr_inv_step)

lemma mgr_inv_empty: "ok_cfg c \<Longrightarrow> mgr_inv (emptyManager c v)"
  by (simp add: mgr_inv_def emptyManager_def inv_but_def linked_def)

lemma Validate_ok:
  assumes "Validate c = Inr c'"
  shows "0 < MinTxFloor c'" and "MinTxFloor c' \<le> MaxTxCeil c'" and "MinTxFloor c' \<le> BackoffMax c'"
    and "0 < cfgDetectMult c'" and "0 < TxMin c'" and "0 < RxMin c'" and "0 < MaxEvents c'"
proof -
  have "0 < MinTxFloor c' \<and> MinTxFloor c' \<le> MaxTxCeil c' \<and> MinTxFloor c' \<le> BackoffMax c' \<and> 0 < cfgDetectMult c'
    \<and> 0 < TxMin c' \<and> 0 < RxMin c' \<and> 0 < MaxEvents c'"
    using assms
    by (auto simp: Validate_def Let_def defaultMinTxFloor_def defaultMaxTxCeil_def defaultBackoffMax_def
        defaultMaxEvents_def millisecond_def second_def word_neq_0_conv split: if_splits)
  then show "0 < MinTxFloor c'" and "MinTxFloor c' \<le> MaxTxCeil c'" and "MinTxFloor c' \<le> BackoffMax c'"
    and "0 < cfgDetectMult c'" and "0 < TxMin c'" and "0 < RxMin c'" and "0 < MaxEvents c'" by blast+
qed

lemma AdminDown_empty: "sessions m = Map.empty \<Longrightarrow> AdminDownRoute e rnd now r iface m = m"
  by (simp add: AdminDownRoute_def)

lemma NewManager_eq:
  assumes "NewManager rnd now ex c = Inr m"
  shows "\<exists>c' v. Validate c = Inr c' \<and> ParseClientVersion (cfgClientVersion c') = Inr v \<and> m = emptyManager c' v"
proof -
  have "fold (\<lambda>ip m. AdminDownRoute False rnd now (excludedRoute ip) i m) xs (emptyManager c' v) = emptyManager c' v"
    for i xs c' v
    by (induction xs) (simp_all add: AdminDown_empty emptyManager_def)
  then show ?thesis using assms by (auto simp: NewManager_def split: sum.splits)
qed

end
