(* ===== verification/Liveness_Kernel.thy ===== *)
theory Liveness_Kernel
  imports Liveness_Manager
begin

text \<open>
  What the manager does to the kernel's routing table: the table that the logged netlink
  calls build, the routes the manager believes installed, and the conditions under which the
  two agree after every step; the effect of a withdrawal; the passive mode; and the cases in
  which the two part.
\<close>

text \<open>The routes the successful netlink calls have left in the kernel.\<close>

fun kernel_step :: "Route set \<Rightarrow> nl_call \<times> bool \<Rightarrow> Route set" where
  "kernel_step K (RouteAdd r, ok) = (if ok then insert r K else K)"
| "kernel_step K (RouteDelete r, ok) = (if ok then K - {r} else K)"

definition kernel :: "(nl_call \<times> bool) list \<Rightarrow> Route set" where
  "kernel log = foldl kernel_step {} log"

lemma kernel_snoc [simp]: "kernel (log @ [c]) = kernel_step (kernel log) c"
  by (simp add: kernel_def)

definition tracked :: "Manager \<Rightarrow> LRoute set" where
  "tracked m = {r. \<exists>rk. desired m rk = Some r \<and> is_installed rk m}"

definition peer_of :: "string \<Rightarrow> LRoute \<Rightarrow> Peer" where
  "peer_of iface r = \<lparr>Interface = iface, LocalIP = v4 (Src r), PeerIP = v4 (NetIP (Dst r))\<rparr>"


definition kernel_inv :: "string \<Rightarrow> LRoute set \<Rightarrow> Manager \<Rightarrow> bool" where
  "kernel_inv iface R m \<longleftrightarrow> \<not> PassiveMode (cfg m) \<and> \<not> HonorPeerAdvertisedPassive (cfg m)
     \<and> (\<forall>rk r. desired m rk = Some r \<longrightarrow> r \<in> R \<and> rk = routeKeyFor iface r)
     \<and> (\<forall>rk. is_installed rk m \<longrightarrow> desired m rk \<noteq> None)
     \<and> (\<forall>i s. mem m i = Some s \<longrightarrow> route s \<in> R \<and> peer s = peer_of iface (route s))
     \<and> kernel (nl_log m) = kernel_route ` tracked m"





lemma v4_eq: "v4 ip \<noteq> [] \<Longrightarrow> ip4_String (To4 ip) = v4 ip \<and> ip \<noteq> [] \<and> To4 ip \<noteq> []"
  by (auto simp: v4_def split: if_splits)





abbreviation sess_key :: "Session \<Rightarrow> RouteKey" where
  "sess_key s \<equiv> routeKeyFor (Interface (peer s)) (route s)"

lemma Snapshot_simps [simp]:
  "snapPeer (Snapshot s) = peer s" "snapRoute (Snapshot s) = route s"
  "snapPeerAdvertisedMode (Snapshot s) = peerAdvertisedMode s"
  by (simp_all add: Snapshot_def)

lemma onSessionUp_noop:
  assumes "mem m j = Some s" and "desired m (sess_key s) = None \<or> is_installed (sess_key s) m \<or> PassiveMode (cfg m)"
  shows "onSessionUp e j m = clearConvUp j m"
  using assms by (cases "desired m (sess_key s)") (auto simp: onSessionUp_def upDecide_def Let_def)

lemma onSessionUp_install:
  assumes "mem m j = Some s" and "desired m (sess_key s) = Some r" and "\<not> is_installed (sess_key s) m"
    and "\<not> PassiveMode (cfg m)"
  shows "onSessionUp e j m = clearConvUp j (netlink e (RouteAdd (kernel_route r))
     (m\<lparr>installed := (installed m)(sess_key s \<mapsto> True)\<rparr>))"
  using assms by (simp add: onSessionUp_def upDecide_def Let_def)

lemma onSessionDown_noop:
  assumes "mem m j = Some s" and "\<not> is_installed (sess_key s) m \<or> PassiveMode (cfg m)
     \<or> isPeerEffectivelyPassive (Snapshot s) m"
  shows "onSessionDown e j m = clearConvDown j m"
  using assms by (cases "desired m (sess_key s)") (auto simp: onSessionDown_def Let_def)

lemma onSessionDown_remove:
  assumes "mem m j = Some s" and "desired m (sess_key s) = Some r" and "is_installed (sess_key s) m"
    and "\<not> PassiveMode (cfg m)" and "\<not> isPeerEffectivelyPassive (Snapshot s) m" and "\<not> NoUninstall r"
  shows "onSessionDown e j m = netlink e (RouteDelete (kernel_route r))
     (clearConvDown j (m\<lparr>installed := (installed m)(sess_key s \<mapsto> False)\<rparr>))"
  using assms by (simp add: onSessionDown_def Let_def)

lemma clearConv_simps [simp]:
  "mgr_view (clearConvUp j m) = mgr_view m" "mgr_view (clearConvDown j m) = mgr_view m"
  by (simp_all add: clearConvUp_def clearConvDown_def split: option.split)





lemma HandleRx_frame:
  "mgr_view (mgr_HandleRx now tw ctrl p m) = mgr_view m"
  "mem_frame (mem m) (mem (mgr_HandleRx now tw ctrl p m))"
proof -
  show "mgr_view (mgr_HandleRx now tw ctrl p m) = mgr_view m"
    by (simp add: mgr_HandleRx_def split_beta Let_def split: option.split State.split)
  show "mem_frame (mem m) (mem (mgr_HandleRx now tw ctrl p m))"
  proof (cases "sessions m p")
    case None
    then show ?thesis by (simp add: mgr_HandleRx_def)
  next
    case (Some i)
    show ?thesis
    proof (cases "mem m i")
      case None
      with Some show ?thesis by (simp add: mgr_HandleRx_def)
    next
      case s: (Some s)
      let ?m1 = "put i (snd (HandleRx now ctrl s)) m"
      have a: "mem_frame (mem m) (mem (?m1\<lparr>spawned := ts\<rparr>))" for ts using s by (auto simp: same_ident_def)
      have b: "mem_frame (mem m) (mem (scheduleDetect now i (?m1\<lparr>spawned := ts\<rparr>)))" for ts
        using mem_frame_trans [OF a frame_scheduleDetect] .
      have same: "?m1\<lparr>spawned := spawned m\<rparr> = ?m1" by (simp add: put_def)
      have c: "mem_frame (mem m) (mem (scheduleDetect now i ?m1))"
        using b [of "spawned m"] by (simp only: same)
      show ?thesis
        using Some s a b c
        by (cases "state (snd (HandleRx now ctrl s))")
          (simp_all add: mgr_HandleRx_def split_beta Let_def GetState_def)
    qed
  qed
qed



lemma killSession_view:
  "cfg (killSession p m) = cfg m" "desired (killSession p m) = desired m" "installed (killSession p m) = installed m"
  "nl_log (killSession p m) = nl_log m"
  by (simp_all add: killSession_def Let_def split: option.split)








lemma kernel_inv_spawned [simp]: "kernel_inv i R (m\<lparr>spawned := ts\<rparr>) = kernel_inv i R m"
  by (simp add: kernel_inv_def tracked_def is_installed_def)




subsection \<open>Properties\<close>


lemma emptyManager_simps [simp]:
  "cfg (emptyManager c v) = c" "desired (emptyManager c v) = Map.empty" "mem (emptyManager c v) = Map.empty"
  "nl_log (emptyManager c v) = []" "installed (emptyManager c v) = Map.empty" "sessions (emptyManager c v) = Map.empty"
  by (simp_all add: emptyManager_def)



text \<open>
  C7. After every run of the manager below the bound of its queue, whatever the order of calls,
  packets, timeouts and goroutines: a peer in the sessions map has a managed session for that
  peer, whose session invariant holds; unless it is shut down it has a transmission pending,
  and in Up or Init the detect event for its deadline is pending; and no other session in
  memory is managed.
\<close>

theorem manager_invariant:
  assumes "NewManager rnd now ex c = Inr m0" and "ok_cfg (cfg m0)" and "calm_step\<^sup>*\<^sup>* m0 m"
  shows "(\<forall>p i. sessions m p = Some i \<longrightarrow> (\<exists>s. mem m i = Some s \<and> peer s = p \<and> alive s \<and> sess_inv s
        \<and> (state s \<noteq> StateAdminDown \<longrightarrow> pending m eventTypeTX i (nextTxScheduled s))
        \<and> (state s = StateUp \<or> state s = StateInit \<longrightarrow> pending m eventTypeDetect i (detectDeadline s))))
      \<and> (\<forall>i s. mem m i = Some s \<and> alive s \<longrightarrow> sessions m (peer s) = Some i)"
proof -
  obtain c' v where m0: "m0 = emptyManager c' v" using NewManager_eq [OF assms(1)] by blast
  have "mgr_inv m0" using assms(2) by (simp add: m0 mgr_inv_empty)
  from mgr.run_inv [OF assms(3) this] have si: "sched_inv m" and l: "linked m" by (simp_all add: mgr_inv_def)
  have "\<exists>s. mem m i = Some s \<and> peer s = p \<and> alive s \<and> sess_inv s
        \<and> (state s \<noteq> StateAdminDown \<longrightarrow> pending m eventTypeTX i (nextTxScheduled s))
        \<and> (state s = StateUp \<or> state s = StateInit \<longrightarrow> pending m eventTypeDetect i (detectDeadline s))"
    if p: "sessions m p = Some i" for p i
  proof -
    from linkedD(2) [OF l p] obtain s where s: "mem m i = Some s" "peer s = p" "alive s" by blast
    note d = inv_butD [OF si s(1)]
    have "state s \<noteq> StateAdminDown \<longrightarrow> pending m eventTypeTX i (nextTxScheduled s)"
      using d(2,3) s(3) by (simp add: tx_live_def marks_def)
    moreover have "pending m eventTypeDetect i (detectDeadline s)" if "state s = StateUp \<or> state s = StateInit"
      using d(2,4) s(3) that sess_inv_deadline [OF d(1) that] by (simp add: det_live_def marks_def)
    ultimately show ?thesis using s d(1) by blast
  qed
  moreover have "\<forall>i s. mem m i = Some s \<and> alive s \<longrightarrow> sessions m (peer s) = Some i"
    using linkedD(3) [OF l] by blast
  ultimately show ?thesis by blast
qed

lemma ip4_v4: "ip \<noteq> [] \<Longrightarrow> To4 ip \<noteq> [] \<Longrightarrow> ip4_String (To4 ip) = v4 ip"
  by (simp add: v4_def)

lemma killSession_sessions: "sessions (killSession p m) = (sessions m)(p := None)"
  by (simp add: killSession_def Let_def split: option.split)

text \<open>
  C20. A withdrawal that succeeds leaves neither the wish for the route nor the belief that it
  is installed nor the session of its peer, touches no other route and no other peer, and
  has deleted the route from the kernel exactly when it was installed (or the mode is passive)
  and it is not pinned.
\<close>

theorem withdraw_complete:
  assumes "WithdrawRoute e r i m = (None, m')"
  shows "desired m' = (desired m)(routeKeyFor i r := None) \<and> installed m' = (installed m)(routeKeyFor i r := None) \<and>
         sessions m' = (sessions m)(peer_of i r := None) \<and>
         nl_log m' = nl_log m @ (if \<not> NoUninstall r \<and> (PassiveMode (cfg m) \<or> IsInstalled (routeKeyFor i r) m)
                                 then [(RouteDelete (kernel_route r), True)] else [])"
proof -
  have v: "Src r \<noteq> []" "NetIP (Dst r) \<noteq> []" "To4 (Src r) \<noteq> []" "To4 (NetIP (Dst r)) \<noteq> []"
    using assms by (auto simp: WithdrawRoute_def split: if_splits)
  show ?thesis
    using assms v
    by (auto simp: WithdrawRoute_def Let_def ip4_v4 peer_of_def killSession_view killSession_sessions
        is_installed_def IsInstalled_def split: if_splits)
qed

text \<open>
  C21. In passive mode no session event touches the kernel: packets, timeouts, the goroutines
  and the administrative shutdown issue no netlink call.
\<close>

theorem passive_mode_leaves_kernel:
  assumes "PassiveMode (cfg m)"
  shows "nl_log (onSessionUp e j m) = nl_log m \<and> nl_log (onSessionDown e j m) = nl_log m \<and>
         nl_log (mgr_HandleRx now tw ctrl p m) = nl_log m \<and> nl_log (snd (runIter t m)) = nl_log m \<and>
         nl_log (AdminDownRoute e rnd now r i m) = nl_log m"
proof -
  have up: "nl_log (onSessionUp e j m) = nl_log m" for j
    using assms clearConv_simps(1) [of j m] onSessionUp_noop [of m j _ e]
    by (cases "mem m j") (simp_all add: onSessionUp_def mgr_view_def)
  have down: "nl_log (onSessionDown e j m') = nl_log m'" if "PassiveMode (cfg m')" for j m'
    using that clearConv_simps(2) [of j m'] onSessionDown_noop [of m' j _ e]
    by (cases "mem m' j") (simp_all add: onSessionDown_def mgr_view_def)
  have "nl_log (mgr_HandleRx now tw ctrl p m) = nl_log m" "nl_log (snd (runIter t m)) = nl_log m"
    using HandleRx_frame(1) [of now tw ctrl p m] view_runIter [of t m] by (simp_all add: mgr_view_def)
  moreover have "nl_log (AdminDownRoute e rnd now r i m) = nl_log m"
    using assms by (simp add: AdminDownRoute_def Let_def down split: option.split)
  ultimately show ?thesis using up down [OF assms] by simp
qed

subsection \<open>Where the two part\<close>

lemma clearConv_maps [simp]:
  "installed (clearConvUp j m) = installed m" "installed (clearConvDown j m) = installed m"
  "nl_log (clearConvUp j m) = nl_log m" "nl_log (clearConvDown j m) = nl_log m"
  "desired (clearConvUp j m) = desired m" "desired (clearConvDown j m) = desired m"
  "cfg (clearConvUp j m) = cfg m" "cfg (clearConvDown j m) = cfg m"
  using clearConv_simps [of j m] by (simp_all add: mgr_view_def)

lemma clearConv_mem:
  "mem m j = Some s \<Longrightarrow> mem (clearConvUp j m) j = Some (s\<lparr>convUpStart := zero_time\<rparr>)"
  "mem m j = Some s \<Longrightarrow> mem (clearConvDown j m) j = Some (s\<lparr>convDownStart := zero_time\<rparr>)"
  by (simp_all add: clearConvUp_def clearConvDown_def)

text \<open>
  C33. The order of the goroutines of one session matters: with a desired route that is not
  installed, running the up handler and then the down handler leaves the route out of the
  kernel, but running the down handler first leaves it installed, in whatever state the
  session is by then. Both are started without any order between them.
\<close>

theorem goroutine_order_matters:
  assumes "mem m j = Some s" and "desired m (routeKeyFor (Interface (peer s)) (route s)) = Some r"
    and "\<not> IsInstalled (routeKeyFor (Interface (peer s)) (route s)) m"
    and "\<not> PassiveMode (cfg m)" and "\<not> HonorPeerAdvertisedPassive (cfg m)" and "\<not> NoUninstall r"
  shows "kernel_route r \<notin> kernel (nl_log (onSessionDown False j (onSessionUp False j m))) \<and>
         \<not> IsInstalled (routeKeyFor (Interface (peer s)) (route s)) (onSessionDown False j (onSessionUp False j m)) \<and>
         kernel_route r \<in> kernel (nl_log (onSessionUp False j (onSessionDown False j m))) \<and>
         IsInstalled (routeKeyFor (Interface (peer s)) (route s)) (onSessionUp False j (onSessionDown False j m))"
proof -
  let ?rk = "sess_key s"
  have ni: "\<not> is_installed ?rk m" using assms(3) by (simp add: IsInstalled_def)
  note up = onSessionUp_install [OF assms(1,2) ni assms(4), of False]
  let ?m1 = "onSessionUp False j m"
  have "mem ?m1 j = Some (s\<lparr>convUpStart := zero_time\<rparr>)" using assms(1) by (simp add: onSessionUp_frame)
  from onSessionDown_remove [OF this, of r False]
  have down: "onSessionDown False j ?m1 = netlink False (RouteDelete (kernel_route r))
     (clearConvDown j (?m1\<lparr>installed := (installed ?m1)(?rk \<mapsto> False)\<rparr>))"
    using assms(2,4-6) by (simp add: onSessionUp_frame isPeerEffectivelyPassive_def is_installed_def up)
  let ?m2 = "clearConvDown j m"
  have d0: "onSessionDown False j m = ?m2" using onSessionDown_noop [OF assms(1)] ni by simp
  have "mem ?m2 j = Some (s\<lparr>convDownStart := zero_time\<rparr>)" using assms(1) by (simp add: clearConv_mem)
  from onSessionUp_install [OF this, of r False]
  have "onSessionUp False j ?m2 = clearConvUp j (netlink False (RouteAdd (kernel_route r))
     (?m2\<lparr>installed := (installed ?m2)(?rk \<mapsto> True)\<rparr>))"
    using assms(2,4) ni by (simp add: is_installed_def)
  then show ?thesis
    by (simp add: d0 down IsInstalled_def is_installed_def)
qed

text \<open>
  C34. A failed installation is believed: when the netlink call of the up handler fails, the
  route is not in the kernel but counts as installed, is reported as present, and no later up
  handler tries again.
\<close>

theorem failed_install_believed:
  assumes "mem m j = Some s" and "desired m (routeKeyFor (Interface (peer s)) (route s)) = Some r"
    and "\<not> IsInstalled (routeKeyFor (Interface (peer s)) (route s)) m" and "\<not> PassiveMode (cfg m)"
    and "m1 = onSessionUp True j m"
  shows "kernel (nl_log m1) = kernel (nl_log m) \<and>
         expectedKernelState (routeKeyFor (Interface (peer s)) (route s)) m1 = KernelStatePresent \<and>
         nl_log (onSessionUp e j m1) = nl_log m1"
proof -
  let ?rk = "sess_key s"
  have ni: "\<not> is_installed ?rk m" using assms(3) by (simp add: IsInstalled_def)
  note up = onSessionUp_install [OF assms(1,2) ni assms(4), of True]
  have i1: "is_installed ?rk m1" by (simp add: assms(5) up is_installed_def)
  have "mem m1 j = Some (s\<lparr>convUpStart := zero_time\<rparr>)" using assms(1) by (simp add: assms(5) onSessionUp_frame)
  from onSessionUp_noop [OF this, of e] have "nl_log (onSessionUp e j m1) = nl_log m1" using i1 by simp
  moreover have "kernel (nl_log m1) = kernel (nl_log m)" by (simp add: assms(5) up)
  ultimately show ?thesis
    using i1 assms(2) by (simp add: expectedKernelState_def assms(5) onSessionUp_frame)
qed

text \<open>
  The configured exclusions do nothing: the manager that \<open>NewManager\<close> builds is the same
  whatever addresses are excluded, because the shutdown of an excluded route finds no session.
\<close>

theorem exclusions_have_no_effect: "NewManager rnd now ex c = NewManager rnd now [] c"
proof -
  have "fold (\<lambda>ip m. AdminDownRoute False rnd now (excludedRoute ip) i m) xs (emptyManager c' v) = emptyManager c' v"
    for i xs c' v
    by (induction xs) (simp_all add: AdminDown_empty)
  then show ?thesis by (simp add: NewManager_def split: sum.split)
qed

text \<open>
  Shutting down the session of a peer that advertises passive mode, where that is honoured,
  forgets the route without removing it: it stays in the kernel, is no longer believed
  installed, and the withdrawal that follows issues no netlink call.
\<close>

theorem admin_down_of_passive_peer_leaks:
  assumes "sessions m (peer_of i r) = Some j" and "mem m j = Some s" and "state s \<noteq> StateAdminDown"
    and "v4 (Src r) \<noteq> []" and "v4 (NetIP (Dst r)) \<noteq> []" and "\<not> PassiveMode (cfg m)"
    and "HonorPeerAdvertisedPassive (cfg m)" and "peerAdvertisedMode s = PeerModePassive"
    and "m1 = AdminDownRoute e rnd now r i m"
  shows "nl_log m1 = nl_log m \<and> \<not> IsInstalled (routeKeyFor i r) m1 \<and>
         nl_log (snd (WithdrawRoute e' r i m1)) = nl_log m"
proof -
  have p: "\<lparr>Interface = i, LocalIP = ip4_String (To4 (Src r)), PeerIP = ip4_String (To4 (NetIP (Dst r)))\<rparr> = peer_of i r"
    using v4_eq [OF assms(4)] v4_eq [OF assms(5)] by (simp add: peer_of_def)
  let ?s1 = "adminDownSession now s" let ?m1 = "put j ?s1 m"
  have "peerAdvertisedMode ?s1 = PeerModePassive" using assms(8) by (simp add: adminDownSession_def)
  then have d: "onSessionDown e j ?m1 = clearConvDown j ?m1"
    using assms(7) onSessionDown_noop [of ?m1 j ?s1 e] by (simp add: isPeerEffectivelyPassive_def)
  let ?m2 = "clearConvDown j ?m1"
  have m1: "m1 = scheduleTx rnd now j (?m2\<lparr>installed := (installed ?m2)(routeKeyFor i r \<mapsto> False)\<rparr>)"
    using assms(1-3) by (simp add: assms(9) AdminDownRoute_def p Let_def d)
  have "nl_log m1 = nl_log m" "\<not> is_installed (routeKeyFor i r) m1" "cfg m1 = cfg m"
    by (simp_all add: m1 is_installed_def)
  moreover from this have "nl_log (snd (WithdrawRoute e' r i m1)) = nl_log m1"
    using assms(6) by (simp add: WithdrawRoute_def Let_def killSession_view is_installed_def)
  ultimately show ?thesis by (simp add: IsInstalled_def)
qed

subsection \<open>Concrete instances\<close>

definition example_version :: ClientVersion where
  "example_version = \<lparr>Major = 0, Minor = 8, Patch = 1, Channel = 0\<rparr>"

definition example_cfg :: "bool \<Rightarrow> bool \<Rightarrow> ManagerConfig" where
  "example_cfg passive honor =
     \<lparr>cfgLogger = True, cfgNetlinker = True, BindIP = ''0.0.0.0'', Port = 44880, PassiveMode = passive,
      TxMin = 300000000, RxMin = 300000000, cfgDetectMult = 3, MinTxFloor = 50000000,
      MaxTxCeil = 3000000000, BackoffMax = 60000000000, MaxEvents = 10240,
      HonorPeerAdvertisedPassive = honor, cfgClientVersion = version_String example_version\<rparr>"

abbreviation example_start :: "bool \<Rightarrow> bool \<Rightarrow> Manager" where
  "example_start passive honor \<equiv> emptyManager (example_cfg passive honor) example_version"

definition example_registered :: Manager where
  "example_registered =
     snd (RegisterRoute False 5 (\<lambda>n. 0) 1 example_time example_route ''doublezero0'' 44880 (example_start False False))"

definition example_desired :: "bool \<Rightarrow> bool \<Rightarrow> PeerMode \<Rightarrow> Manager" where
  "example_desired passive honor mode =
     (example_start passive honor)\<lparr>mem := [0 \<mapsto> (example_session StateDown)\<lparr>peerAdvertisedMode := mode\<rparr>],
        desired := [routeKeyFor ''doublezero0'' example_route \<mapsto> example_route],
        sessions := [peer_of ''doublezero0'' example_route \<mapsto> 0]\<rparr>"

lemma version_String_nonempty: "version_String v \<noteq> []"
  by (simp add: version_String_def)

lemma parse_example: "ParseClientVersion (version_String example_version) = Inr example_version"
  by (simp add: example_version_def version_String_dotted3 Parse_dotted3_plain channel_String_def channel_defs)

lemma example_NewManager:
  "NewManager (\<lambda>n. 0) 1 [] (example_cfg p h) = Inr (example_start p h)"
  by (simp add: NewManager_def Validate_def example_cfg_def parse_example version_String_nonempty)

lemma example_ok_cfg: "ok_cfg (cfg (example_start p h))"
  by (simp add: ok_cfg_def example_cfg_def span_ok_def)

lemma example_v4 [simp]: "v4 (Src example_route) \<noteq> []" "v4 (NetIP (Dst example_route)) \<noteq> []"
  by (simp_all add: v4_def To4_def ip4_String_def example_route_def)


lemma example_calm: "\<not> maybeDropOnOverflow eventTypeDetect (sched (example_start p h))"
  by (simp add: maybeDropOnOverflow_def emptyManager_def NewScheduler_def NewEventQueue_def eq_Len_def example_cfg_def)


theorem manager_invariant_witness:
  "{i. \<exists>s. mem example_registered i = Some s \<and> alive s} \<subseteq> {i. \<exists>p. sessions example_registered p = Some i}"
proof -
  have "calm_step (example_start False False) example_registered"
    unfolding calm_step_def example_registered_def
    using register [of example_time] example_calm by (simp add: clock_ok_def example_time_def)
  then have "calm_step\<^sup>*\<^sup>* (example_start False False) example_registered" by blast
  from manager_invariant [OF example_NewManager example_ok_cfg this] show ?thesis by blast
qed

theorem withdraw_complete_witness:
  "sessions (snd (WithdrawRoute False example_route ''doublezero0'' (example_desired False False PeerModeActive)))
     (peer_of ''doublezero0'' example_route) = None"
proof -
  let ?m = "example_desired False False PeerModeActive"
  have "WithdrawRoute False example_route ''doublezero0'' ?m = (None, snd (WithdrawRoute False example_route ''doublezero0'' ?m))"
    by (rule prod_eqI) (simp_all add: WithdrawRoute_def Let_def example_route_def To4_def)
  from withdraw_complete [OF this] show ?thesis by simp
qed

theorem passive_mode_leaves_kernel_witness:
  "nl_log (onSessionUp False 0 (example_desired True False PeerModeActive)) = []"
proof -
  have "PassiveMode (cfg (example_desired True False PeerModeActive))" "nl_log (example_desired True False PeerModeActive) = []"
    by (simp_all add: example_desired_def example_cfg_def)
  from passive_mode_leaves_kernel [OF this(1), of False 0] this(2) show ?thesis by auto
qed

lemma example_desired_simps:
  "mem (example_desired p h md) 0 = Some ((example_session StateDown)\<lparr>peerAdvertisedMode := md\<rparr>)"
  "Interface (peer (example_session st)) = ''doublezero0''" "route (example_session st) = example_route"
  "desired (example_desired p h md) (routeKeyFor ''doublezero0'' example_route) = Some example_route"
  "cfg (example_desired p h md) = example_cfg p h" "installed (example_desired p h md) = Map.empty"
  "nl_log (example_desired p h md) = []"
  "sessions (example_desired p h md) (peer_of ''doublezero0'' example_route) = Some 0"
  by (simp_all add: example_desired_def example_session_def)

theorem goroutine_order_matters_witness:
  "kernel_route example_route \<in> kernel (nl_log (onSessionUp False 0 (onSessionDown False 0 (example_desired False False PeerModeActive))))"
proof -
  have "\<not> NoUninstall example_route" by (simp add: example_route_def)
  then show ?thesis
    using goroutine_order_matters [OF example_desired_simps(1) [of False False PeerModeActive], of example_route]
    by (simp add: example_desired_simps IsInstalled_def is_installed_def example_cfg_def)
qed

theorem failed_install_believed_witness:
  "kernel (nl_log (onSessionUp True 0 (example_desired False False PeerModeActive))) = {}"
  using failed_install_believed [OF example_desired_simps(1) [of False False PeerModeActive], of example_route, OF _ _ _ refl, of True]
  by (simp add: example_desired_simps IsInstalled_def is_installed_def example_cfg_def kernel_def)

theorem admin_down_of_passive_peer_leaks_witness:
  "nl_log (snd (WithdrawRoute False example_route ''doublezero0''
     (AdminDownRoute False (\<lambda>n. 0) example_time example_route ''doublezero0'' (example_desired False True PeerModePassive)))) = []"
proof -
  let ?m = "example_desired False True PeerModePassive"
  let ?s = "(example_session StateDown)\<lparr>peerAdvertisedMode := PeerModePassive\<rparr>"
  have "state ?s \<noteq> StateAdminDown" by (simp add: example_session_def)
  moreover have "\<not> PassiveMode (cfg ?m)" "HonorPeerAdvertisedPassive (cfg ?m)" "peerAdvertisedMode ?s = PeerModePassive"
    "sessions ?m (peer_of ''doublezero0'' example_route) = Some 0" "mem ?m 0 = Some ?s"
    by (simp_all add: example_desired_simps example_cfg_def)
  ultimately show ?thesis
    using admin_down_of_passive_peer_leaks [of ?m "''doublezero0''" example_route 0 ?s
      "AdminDownRoute False (\<lambda>n. 0) example_time example_route ''doublezero0'' ?m" False "\<lambda>n. 0" example_time False]
    by (simp add: example_desired_simps)
qed

end
