(* ===== verification/Liveness_Receiver.thy ===== *)
theory Liveness_Receiver
  imports Liveness_Kernel
begin

text \<open>
  The receive loop of the liveness package (client/doublezerod/internal/liveness/receiver.go).
  One iteration of \<open>Run\<close> is a function of what the socket and the context answer; the result
  says whether the loop goes on, stops, fails, or hands a packet to the manager. Errors of the
  socket are records of what the code asks of them.
\<close>

datatype errno = EBADF | ENETDOWN | ENODEV | ENXIO | OtherErrno

record net_error =
  ne_closed :: bool
  ne_timeout :: bool
  ne_errno :: "errno option"
  ne_op :: "(bool \<times> bool) option"

text \<open>\<open>ne_op\<close> is the wrapped operation error with its answers to Timeout and Temporary.\<close>

definition isFatalNetErr :: "net_error \<Rightarrow> bool" where
  "isFatalNetErr e =
     (if ne_closed e then True
      else if (case ne_errno e of None \<Rightarrow> False
               | Some n \<Rightarrow> n = EBADF \<or> n = ENETDOWN \<or> n = ENODEV \<or> n = ENXIO) then True
      else (case ne_op e of None \<Rightarrow> False | Some (timeout, temporary) \<Rightarrow> \<not> timeout \<and> \<not> temporary))"

record Receiver =
  readErrWarnEvery :: duration
  readErrWarnLast :: gotime

definition NewReceiver :: Receiver where
  "NewReceiver = \<lparr>readErrWarnEvery = 5 * second, readErrWarnLast = zero_time\<rparr>"

record datagram =
  d_bytes :: "byte list"
  d_peer :: IP
  d_local :: IP
  d_ifname :: string

record rx_input =
  i_done :: bool
  i_deadline :: "net_error option"
  i_done2 :: bool
  i_read :: "net_error + datagram"
  i_done3 :: bool
  i_now :: gotime

datatype invalid = RxShort | RxBadLen | RxBadVersion | RxNotIPv4

datatype rx_result =
  RxStopped | RxFailed net_error | RxPolled | RxWarned net_error | RxInvalid invalid
| RxDeliver ControlPacket Peer

definition warn :: "gotime \<Rightarrow> Receiver \<Rightarrow> Receiver" where
  "warn now r =
     (if IsZero (readErrWarnLast r) \<or> time_sub now (readErrWarnLast r) \<ge> readErrWarnEvery r
      then r\<lparr>readErrWarnLast := now\<rparr> else r)"

definition invalidOf :: "packet_error \<Rightarrow> invalid" where
  "invalidOf e = (case e of ErrShortPacket \<Rightarrow> RxShort | ErrInvalidLength \<Rightarrow> RxBadLen
     | ErrUnsupportedVersion v \<Rightarrow> RxBadVersion)"

definition parseDatagram :: "datagram \<Rightarrow> rx_result" where
  "parseDatagram d =
     (case UnmarshalControlPacket (d_bytes d) of
        Inl e \<Rightarrow> RxInvalid (invalidOf e)
      | Inr ctrl \<Rightarrow>
          let localIP4 = v4 (d_local d); peerIP4 = v4 (d_peer d) in
          if localIP4 = '''' \<or> peerIP4 = '''' then RxInvalid RxNotIPv4
          else RxDeliver ctrl \<lparr>Interface = d_ifname d, LocalIP = localIP4, PeerIP = peerIP4\<rparr>)"

definition recvIter :: "rx_input \<Rightarrow> Receiver \<Rightarrow> rx_result \<times> Receiver" where
  "recvIter i r =
     (if i_done i then (RxStopped, r)
      else case i_deadline i of
        Some e \<Rightarrow>
          if i_done2 i then (RxStopped, r)
          else if ne_closed e then (RxFailed e, r)
          else let r1 = warn (i_now i) r in
            if isFatalNetErr e then (RxFailed e, r1) else (RxWarned e, r1)
      | None \<Rightarrow>
          (case i_read i of
             Inl e \<Rightarrow>
               if i_done3 i then (RxStopped, r)
               else if ne_timeout e then (RxPolled, r)
               else if ne_closed e then (RxFailed e, r)
               else let r1 = warn (i_now i) r in
                 if isFatalNetErr e then (RxFailed e, r1) else (RxWarned e, r1)
           | Inr d \<Rightarrow> (parseDatagram d, r)))"



lemma parseDatagram_not_end: "parseDatagram d \<noteq> RxStopped" "parseDatagram d \<noteq> RxFailed e"
  by (simp_all add: parseDatagram_def Let_def split: sum.split)

lemma closed_is_fatal: "ne_closed e \<Longrightarrow> isFatalNetErr e"
  by (simp add: isFatalNetErr_def)



text \<open>
  The loop ends with an error only for a closed socket or a fatal network error, ends
  quietly only when the context is done, and two warnings are never logged closer than the
  throttle interval.
\<close>

theorem receive_loop_ends:
  "(fst (recvIter i r) = RxFailed e \<longrightarrow> isFatalNetErr e) \<and>
   (fst (recvIter i r) = RxStopped \<longrightarrow> i_done i \<or> i_done2 i \<or> i_done3 i) \<and>
   (readErrWarnLast (snd (recvIter i r)) \<noteq> readErrWarnLast r \<longrightarrow>
      readErrWarnLast (snd (recvIter i r)) = i_now i \<and>
      (readErrWarnLast r = 0 \<or> readErrWarnEvery r \<le> time_sub (i_now i) (readErrWarnLast r)))"
proof (intro conjI impI)
  assume "fst (recvIter i r) = RxFailed e"
  then show "isFatalNetErr e"
    by (auto simp: recvIter_def Let_def closed_is_fatal parseDatagram_not_end split: option.splits sum.splits if_splits)
next
  assume "fst (recvIter i r) = RxStopped"
  then show "i_done i \<or> i_done2 i \<or> i_done3 i"
    by (simp add: recvIter_def Let_def parseDatagram_not_end split: option.splits sum.splits if_splits)
next
  assume c: "readErrWarnLast (snd (recvIter i r)) \<noteq> readErrWarnLast r"
  then have w: "snd (recvIter i r) = warn (i_now i) r"
    by (auto simp: recvIter_def Let_def split: option.splits sum.splits if_splits)
  with c show "readErrWarnLast (snd (recvIter i r)) = i_now i"
    and "readErrWarnLast r = 0 \<or> readErrWarnEvery r \<le> time_sub (i_now i) (readErrWarnLast r)"
    by (simp_all add: warn_def IsZero_def zero_time_def split: if_splits)
qed

subsection \<open>Concrete instances\<close>

definition example_input :: "net_error + datagram \<Rightarrow> rx_input" where
  "example_input rd = \<lparr>i_done = False, i_deadline = None, i_done2 = False, i_read = rd, i_done3 = False, i_now = 7\<rparr>"


theorem receive_loop_ends_witness:
  "fst (recvIter (example_input (Inl \<lparr>ne_closed = True, ne_timeout = False, ne_errno = None, ne_op = None\<rparr>)) NewReceiver)
     = RxFailed \<lparr>ne_closed = True, ne_timeout = False, ne_errno = None, ne_op = None\<rparr> \<and>
   isFatalNetErr \<lparr>ne_closed = True, ne_timeout = False, ne_errno = None, ne_op = None\<rparr>"
  (is "fst (recvIter ?i _) = RxFailed ?e \<and> _")
proof -
  have "fst (recvIter ?i NewReceiver) = RxFailed ?e" by (simp add: recvIter_def example_input_def)
  with receive_loop_ends [of ?i NewReceiver ?e] show ?thesis by simp
qed

end
