(* ===== verification/Borsh_Reader.thy ===== *)
theory Borsh_Reader
  imports Go_Prelude
begin

text \<open>
  The incremental Borsh reader, sdk/borsh-incremental/go/reader.go. A \<open>Reader\<close> is a byte
  slice with a cursor. A strict read returns a value, an error and the moved cursor, as the
  Go method does; the value that comes with an error is the one the source returns, because
  the \<open>TryRead\<close> variants hand it on. \<open>float64\<close> is its bit pattern.

  The contract of a read is the locale \<open>cursor_reader\<close>: it succeeds exactly on the
  representations of a value and moves past them. \<open>scalar_reader\<close> is the contract of the
  fixed-size fields; every slice reader over such a field meets the first contract, once and
  for all. The theory's properties: the cursor never leaves the data, an error moves the
  cursor only past a length prefix, and a record written by a program with fewer fields is
  read back with the defaults of the missing ones.
\<close>

datatype float64 = Float64frombits uint64

datatype borsh_error = NotEnough string nat nat | PanicMakeSlice

record Reader =
  data :: "byte list"
  offset :: nat

type_synonym 'a reading = "'a \<times> borsh_error option \<times> Reader"

definition NewReader :: "byte list \<Rightarrow> Reader" where
  "NewReader bs = \<lparr>data = bs, offset = 0\<rparr>"

definition Offset :: "Reader \<Rightarrow> nat" where
  "Offset r = offset r"

definition Remaining :: "Reader \<Rightarrow> int" where
  "Remaining r = int (length (data r)) - int (offset r)"

definition unread :: "Reader \<Rightarrow> byte list" where
  "unread r = drop (offset r) (data r)"

definition advance :: "nat \<Rightarrow> Reader \<Rightarrow> Reader" where
  "advance n r = r\<lparr>offset := offset r + n\<rparr>"

subsection \<open>Strict reads\<close>

definition ReadU8 :: "Reader \<Rightarrow> uint8 reading" where
  "ReadU8 r = (if offset r + 1 > length (data r) then (0, Some (NotEnough ''u8'' 1 (offset r)), r)
     else (data r ! offset r, None, advance 1 r))"

definition ReadBool :: "Reader \<Rightarrow> bool reading" where
  "ReadBool r = (case ReadU8 r of (v, err, r') \<Rightarrow> (v \<noteq> 0, err, r'))"

definition ReadU16 :: "Reader \<Rightarrow> uint16 reading" where
  "ReadU16 r = (if offset r + 2 > length (data r) then (0, Some (NotEnough ''u16'' 2 (offset r)), r)
     else (le_word (take 2 (unread r)), None, advance 2 r))"

definition ReadU32 :: "Reader \<Rightarrow> uint32 reading" where
  "ReadU32 r = (if offset r + 4 > length (data r) then (0, Some (NotEnough ''u32'' 4 (offset r)), r)
     else (le_word (take 4 (unread r)), None, advance 4 r))"

definition ReadU64 :: "Reader \<Rightarrow> uint64 reading" where
  "ReadU64 r = (if offset r + 8 > length (data r) then (0, Some (NotEnough ''u64'' 8 (offset r)), r)
     else (le_word (take 8 (unread r)), None, advance 8 r))"

definition ReadU128 :: "Reader \<Rightarrow> byte list reading" where
  "ReadU128 r = (if offset r + 16 > length (data r)
     then (replicate 16 0, Some (NotEnough ''u128'' 16 (offset r)), r)
     else (subslice (data r) (offset r) (offset r + 16), None, advance 16 r))"

definition ReadF64 :: "Reader \<Rightarrow> float64 reading" where
  "ReadF64 r = (case ReadU64 r of (v, err, r') \<Rightarrow> (Float64frombits v, err, r'))"

definition ReadPubkey :: "Reader \<Rightarrow> byte list reading" where
  "ReadPubkey r = (if offset r + 32 > length (data r)
     then (replicate 32 0, Some (NotEnough ''pubkey'' 32 (offset r)), r)
     else (subslice (data r) (offset r) (offset r + 32), None, advance 32 r))"

definition ReadIPv4 :: "Reader \<Rightarrow> byte list reading" where
  "ReadIPv4 r = (if offset r + 4 > length (data r)
     then (replicate 4 0, Some (NotEnough ''ipv4'' 4 (offset r)), r)
     else (subslice (data r) (offset r) (offset r + 4), None, advance 4 r))"

definition ReadNetworkV4 :: "Reader \<Rightarrow> byte list reading" where
  "ReadNetworkV4 r = (if offset r + 5 > length (data r)
     then (replicate 5 0, Some (NotEnough ''network_v4'' 5 (offset r)), r)
     else (subslice (data r) (offset r) (offset r + 5), None, advance 5 r))"

definition ReadString :: "Reader \<Rightarrow> byte list reading" where
  "ReadString r = (case ReadU32 r of
       (_, Some e, r') \<Rightarrow> ([], Some e, r')
     | (len, None, r') \<Rightarrow>
         if len = 0 then ([], None, r')
         else if offset r' + unat len > length (data r')
         then ([], Some (NotEnough ''string'' (unat len) (offset r')), r')
         else (subslice (data r') (offset r') (offset r' + unat len), None, advance (unat len) r'))"

text \<open>
  \<open>ReadBytes\<close> takes a Go \<open>int\<close>. A negative count passes the guard, as does one whose sum
  with the offset wraps around; \<open>make\<close> then panics, since the count is negative or beyond
  the largest allocation.
\<close>

definition maxAlloc :: int where "maxAlloc = 2 ^ 48"

definition ReadBytes :: "int \<Rightarrow> Reader \<Rightarrow> byte list reading" where
  "ReadBytes n r = (if i64 (int (offset r) + n) > int (length (data r))
     then ([], Some (NotEnough ''bytes'' (nat n) (offset r)), r)
     else if n < 0 \<or> n > maxAlloc then ([], Some PanicMakeSlice, r)
     else (subslice (data r) (offset r) (offset r + nat n), None, advance (nat n) r))"

text \<open>The three slice readers are one body over the element reader, its size and its name.\<close>

fun readLoop :: "(Reader \<Rightarrow> 'a reading) \<Rightarrow> nat \<Rightarrow> Reader \<Rightarrow> 'a list reading" where
  "readLoop rd 0 r = ([], None, r)"
| "readLoop rd (Suc n) r = (case rd r of
       (_, Some e, r') \<Rightarrow> ([], Some e, r')
     | (x, None, r') \<Rightarrow> (case readLoop rd n r' of
           (_, Some e, r'') \<Rightarrow> ([], Some e, r'')
         | (xs, None, r'') \<Rightarrow> (x # xs, None, r'')))"

definition readSlice :: "(Reader \<Rightarrow> 'a reading) \<Rightarrow> nat \<Rightarrow> string \<Rightarrow> Reader \<Rightarrow> 'a list reading" where
  "readSlice rd k what r = (case ReadU32 r of
       (_, Some e, r') \<Rightarrow> ([], Some e, r')
     | (len, None, r') \<Rightarrow>
         if len = 0 then ([], None, r')
         else if int (unat len) * int k > Remaining r'
         then ([], Some (NotEnough what (unat len) (offset r')), r')
         else readLoop rd (unat len) r')"

definition ReadPubkeySlice :: "Reader \<Rightarrow> byte list list reading" where
  "ReadPubkeySlice = readSlice ReadPubkey 32 ''pubkeys''"

definition ReadNetworkV4Slice :: "Reader \<Rightarrow> byte list list reading" where
  "ReadNetworkV4Slice = readSlice ReadNetworkV4 5 ''network_v4''"

definition ReadU32Slice :: "Reader \<Rightarrow> uint32 list reading" where
  "ReadU32Slice = readSlice ReadU32 4 ''u32s''"

subsection \<open>Reads with a default\<close>

definition TryReadU8 :: "uint8 \<Rightarrow> Reader \<Rightarrow> uint8 \<times> Reader" where
  "TryReadU8 def r = (if Remaining r < 1 then (def, r) else (case ReadU8 r of (v, _, r') \<Rightarrow> (v, r')))"

definition TryReadBool :: "bool \<Rightarrow> Reader \<Rightarrow> bool \<times> Reader" where
  "TryReadBool def r = (if Remaining r < 1 then (def, r) else (case ReadBool r of (v, _, r') \<Rightarrow> (v, r')))"

definition TryReadU16 :: "uint16 \<Rightarrow> Reader \<Rightarrow> uint16 \<times> Reader" where
  "TryReadU16 def r = (if Remaining r < 2 then (def, r) else (case ReadU16 r of (v, _, r') \<Rightarrow> (v, r')))"

definition TryReadU32 :: "uint32 \<Rightarrow> Reader \<Rightarrow> uint32 \<times> Reader" where
  "TryReadU32 def r = (if Remaining r < 4 then (def, r) else (case ReadU32 r of (v, _, r') \<Rightarrow> (v, r')))"

definition TryReadU64 :: "uint64 \<Rightarrow> Reader \<Rightarrow> uint64 \<times> Reader" where
  "TryReadU64 def r = (if Remaining r < 8 then (def, r) else (case ReadU64 r of (v, _, r') \<Rightarrow> (v, r')))"

definition TryReadU128 :: "byte list \<Rightarrow> Reader \<Rightarrow> byte list \<times> Reader" where
  "TryReadU128 def r = (if Remaining r < 16 then (def, r) else (case ReadU128 r of (v, _, r') \<Rightarrow> (v, r')))"

definition TryReadF64 :: "float64 \<Rightarrow> Reader \<Rightarrow> float64 \<times> Reader" where
  "TryReadF64 def r = (if Remaining r < 8 then (def, r) else (case ReadF64 r of (v, _, r') \<Rightarrow> (v, r')))"

definition TryReadPubkey :: "byte list \<Rightarrow> Reader \<Rightarrow> byte list \<times> Reader" where
  "TryReadPubkey def r = (if Remaining r < 32 then (def, r) else (case ReadPubkey r of (v, _, r') \<Rightarrow> (v, r')))"

definition TryReadIPv4 :: "byte list \<Rightarrow> Reader \<Rightarrow> byte list \<times> Reader" where
  "TryReadIPv4 def r = (if Remaining r < 4 then (def, r) else (case ReadIPv4 r of (v, _, r') \<Rightarrow> (v, r')))"

definition TryReadNetworkV4 :: "byte list \<Rightarrow> Reader \<Rightarrow> byte list \<times> Reader" where
  "TryReadNetworkV4 def r = (if Remaining r < 5 then (def, r) else (case ReadNetworkV4 r of (v, _, r') \<Rightarrow> (v, r')))"

definition TryReadString :: "byte list \<Rightarrow> Reader \<Rightarrow> byte list \<times> Reader" where
  "TryReadString def r = (if Remaining r < 4 then (def, r) else (case ReadString r of (v, _, r') \<Rightarrow> (v, r')))"

definition TryReadPubkeySlice :: "byte list list \<Rightarrow> Reader \<Rightarrow> byte list list \<times> Reader" where
  "TryReadPubkeySlice def r =
     (if Remaining r < 4 then (def, r) else (case ReadPubkeySlice r of (v, _, r') \<Rightarrow> (v, r')))"

definition TryReadNetworkV4Slice :: "byte list list \<Rightarrow> Reader \<Rightarrow> byte list list \<times> Reader" where
  "TryReadNetworkV4Slice def r =
     (if Remaining r < 4 then (def, r) else (case ReadNetworkV4Slice r of (v, _, r') \<Rightarrow> (v, r')))"

definition TryReadU32Slice :: "uint32 list \<Rightarrow> Reader \<Rightarrow> uint32 list \<times> Reader" where
  "TryReadU32Slice def r =
     (if Remaining r < 4 then (def, r) else (case ReadU32Slice r of (v, _, r') \<Rightarrow> (v, r')))"

subsection \<open>The contract of a read\<close>

lemma length_unread [simp]: "length (unread r) = length (data r) - offset r"
  by (simp add: unread_def)

lemma data_advance [simp]: "data (advance n r) = data r"
  by (simp add: advance_def)

lemma offset_advance [simp]: "offset (advance n r) = offset r + n"
  by (simp add: advance_def)

lemma unread_advance [simp]: "unread (advance n r) = drop n (unread r)"
  by (simp add: unread_def add.commute)

lemma advance_advance [simp]: "advance m (advance n r) = advance (n + m) r"
  by (simp add: advance_def add.assoc)

lemma advance_0 [simp]: "advance 0 r = r"
  by (simp add: advance_def)

lemma advance_eq_iff [simp]: "advance m r = advance n r \<longleftrightarrow> m = n"
  by (metis add_left_cancel offset_advance)

lemma short_iff: "0 < k \<Longrightarrow> length (data r) < offset r + k \<longleftrightarrow> length (unread r) < k"
  by auto

lemma Remaining_less: "0 < k \<Longrightarrow> Remaining r < int k \<longleftrightarrow> length (unread r) < k"
  by (auto simp: Remaining_def)

lemma subslice_unread: "subslice (data r) (offset r) (offset r + k) = take k (unread r)"
  by (simp add: subslice_def unread_def)

locale cursor_reader =
  fixes read :: "Reader \<Rightarrow> 'a reading"
    and codes :: "byte list \<Rightarrow> 'a \<Rightarrow> bool"
  assumes read_complete: "codes bs x \<Longrightarrow> unread r = bs @ ys \<Longrightarrow> read r = (x, None, advance (length bs) r)"
    and read_sound: "read r = (x, None, r') \<Longrightarrow>
      \<exists>bs. codes bs x \<and> unread r = bs @ unread r' \<and> r' = advance (length bs) r"
    and read_fails: "read r = (x, Some e, r') \<Longrightarrow> r' = r \<or> r' = advance 4 r \<and> 4 \<le> length (unread r)"
begin

lemma read_iff:
  "read r = (x, None, r') \<longleftrightarrow>
     (\<exists>bs. codes bs x \<and> unread r = bs @ unread r' \<and> r' = advance (length bs) r)"
  by (auto dest: read_sound read_complete)

lemma codes_unique:
  assumes "codes bs x" and "codes cs y" and "bs @ ys = cs @ zs"
  shows "bs = cs \<and> x = y"
proof -
  define r where "r = \<lparr>data = bs @ ys, offset = 0\<rparr>"
  have u: "unread r = bs @ ys" "unread r = cs @ zs" by (simp_all add: r_def unread_def assms(3))
  have "read r = (x, None, advance (length bs) r)" using assms(1) u(1) by (rule read_complete)
  moreover have "read r = (y, None, advance (length cs) r)" using assms(2) u(2) by (rule read_complete)
  ultimately have "x = y" "length bs = length cs" by auto
  then show ?thesis using assms(3) by simp
qed

lemma read_frame: "read r = (x, e, r') \<Longrightarrow>
    data r' = data r \<and> offset r \<le> offset r' \<and> (offset r \<le> length (data r) \<longrightarrow> offset r' \<le> length (data r'))"
proof (cases e)
  case None
  assume "read r = (x, e, r')"
  with None obtain bs where b: "unread r = bs @ unread r'" "r' = advance (length bs) r"
    using read_sound by blast
  have "length (unread r) = length bs + length (unread r')" using b(1) by simp
  then show ?thesis using b(2) by auto
next
  case (Some y)
  assume "read r = (x, e, r')"
  with Some read_fails [of r x y r'] show ?thesis by auto
qed

end

text \<open>A field of fixed size \<open>k\<close>: read whenever \<open>k\<close> bytes are left, and nothing moves otherwise.\<close>

locale scalar_reader = cursor_reader read codes
  for read :: "Reader \<Rightarrow> 'a reading" and codes +
  fixes k :: nat
  assumes size_pos: "0 < k"
    and codes_size: "codes bs x \<Longrightarrow> length bs = k"
    and read_when_left: "k \<le> length (unread r) \<Longrightarrow> \<exists>x. read r = (x, None, advance k r)"
    and read_short: "read r = (x, Some e, r') \<Longrightarrow> r' = r \<and> length (unread r) < k"
begin

lemma loop_complete:
  "list_all2 codes bss xs \<Longrightarrow> unread r = concat bss @ ys \<Longrightarrow>
   readLoop read (length xs) r = (xs, None, advance (length (concat bss)) r)"
proof (induction bss xs arbitrary: r rule: list_all2_induct)
  case Nil
  then show ?case by simp
next
  case (Cons bs bss x xs)
  have 1: "read r = (x, None, advance (length bs) r)"
    using Cons.hyps(1) by (rule read_complete) (use Cons.prems in simp)
  have "unread (advance (length bs) r) = concat bss @ ys" using Cons.prems by simp
  from Cons.IH [OF this] show ?case by (simp add: 1)
qed

lemma loop_ok:
  "n * k \<le> length (unread r) \<Longrightarrow>
   \<exists>xs bss. readLoop read n r = (xs, None, advance (n * k) r) \<and> list_all2 codes bss xs \<and> length xs = n
     \<and> length (concat bss) = n * k \<and> unread r = concat bss @ drop (n * k) (unread r)"
proof (induction n arbitrary: r)
  case 0
  then show ?case by (intro exI [of _ "[]"]) simp
next
  case (Suc n)
  then have "k \<le> length (unread r)" by simp
  then obtain x where x: "read r = (x, None, advance k r)" using read_when_left by blast
  from read_sound [OF this] obtain bs where b: "codes bs x" "unread r = bs @ drop k (unread r)" by auto
  then have lb: "length bs = k" using codes_size by blast
  have "n * k \<le> length (unread (advance k r))" using Suc.prems by simp
  from Suc.IH [OF this] obtain xs bss where i:
    "readLoop read n (advance k r) = (xs, None, advance (n * k) (advance k r))" "list_all2 codes bss xs"
    "length xs = n" "length (concat bss) = n * k"
    "drop k (unread r) = concat bss @ drop (n * k) (drop k (unread r))"
    unfolding unread_advance by blast
  have u: "unread r = (bs @ concat bss) @ drop (Suc n * k) (unread r)"
    using b(2) i(5) by (simp add: add.commute)
  show ?case
    by (rule exI [of _ "x # xs"], rule exI [of _ "bs # bss"]) (use x b(1) lb i u in simp)
qed

end

subsection \<open>Every read meets its contract\<close>

text \<open>The common shape of the fixed-size reads.\<close>

definition scalar :: "nat \<Rightarrow> 'a \<Rightarrow> string \<Rightarrow> (byte list \<Rightarrow> 'a) \<Rightarrow> Reader \<Rightarrow> 'a reading" where
  "scalar k z what f r = (if length (unread r) < k then (z, Some (NotEnough what k (offset r)), r)
     else (f (take k (unread r)), None, advance k r))"

definition scalar_codes :: "nat \<Rightarrow> (byte list \<Rightarrow> 'a) \<Rightarrow> byte list \<Rightarrow> 'a \<Rightarrow> bool" where
  "scalar_codes k f bs x \<longleftrightarrow> length bs = k \<and> x = f bs"

lemma scalar_contract:
  assumes "0 < k"
  shows "scalar_reader (scalar k z what f) (scalar_codes k f) k"
proof
  fix bs x r ys
  assume "scalar_codes k f bs x" and u: "unread r = bs @ ys"
  then have "length bs = k" "x = f bs" by (simp_all add: scalar_codes_def)
  with u show "scalar k z what f r = (x, None, advance (length bs) r)" by (simp add: scalar_def del: length_unread)
next
  fix r x r'
  assume "scalar k z what f r = (x, None, r')"
  then have "k \<le> length (unread r)" "x = f (take k (unread r))" "r' = advance k r"
    by (auto simp: scalar_def split: if_splits)
  then show "\<exists>bs. scalar_codes k f bs x \<and> unread r = bs @ unread r' \<and> r' = advance (length bs) r"
    by (intro exI [of _ "take k (unread r)"]) (simp add: scalar_codes_def del: length_unread)
qed (use assms in \<open>auto simp: scalar_def scalar_codes_def simp del: length_unread split: if_splits\<close>)

lemma nth_as_take: "offset r < length (data r) \<Longrightarrow> data r ! offset r = hd (take 1 (unread r))"
  by (simp add: unread_def hd_drop_conv_nth)

lemma scalars:
  "ReadU8 = scalar 1 0 ''u8'' hd"
  "ReadBool = scalar 1 False ''u8'' (\<lambda>bs. hd bs \<noteq> 0)"
  "ReadU16 = scalar 2 0 ''u16'' le_word"
  "ReadU32 = scalar 4 0 ''u32'' le_word"
  "ReadU64 = scalar 8 0 ''u64'' le_word"
  "ReadU128 = scalar 16 (replicate 16 0) ''u128'' id"
  "ReadF64 = scalar 8 (Float64frombits 0) ''u64'' (\<lambda>bs. Float64frombits (le_word bs))"
  "ReadPubkey = scalar 32 (replicate 32 0) ''pubkey'' id"
  "ReadIPv4 = scalar 4 (replicate 4 0) ''ipv4'' id"
  "ReadNetworkV4 = scalar 5 (replicate 5 0) ''network_v4'' id"
  by (rule ext; auto simp: scalar_def ReadU8_def ReadBool_def ReadU16_def ReadU32_def ReadU64_def ReadU128_def ReadF64_def
      ReadPubkey_def ReadIPv4_def ReadNetworkV4_def subslice_unread nth_as_take)+

interpretation rd_u8: scalar_reader ReadU8 "scalar_codes 1 hd" 1
  unfolding scalars by (rule scalar_contract) simp

interpretation rd_bool: scalar_reader ReadBool "scalar_codes 1 (\<lambda>bs. hd bs \<noteq> 0)" 1
  unfolding scalars by (rule scalar_contract) simp

interpretation rd_u16: scalar_reader ReadU16 "scalar_codes 2 le_word" 2
  unfolding scalars by (rule scalar_contract) simp

interpretation rd_u32: scalar_reader ReadU32 "scalar_codes 4 le_word" 4
  unfolding scalars by (rule scalar_contract) simp

interpretation rd_u64: scalar_reader ReadU64 "scalar_codes 8 le_word" 8
  unfolding scalars by (rule scalar_contract) simp

interpretation rd_u128: scalar_reader ReadU128 "scalar_codes 16 id" 16
  unfolding scalars by (rule scalar_contract) simp

interpretation rd_f64: scalar_reader ReadF64 "scalar_codes 8 (\<lambda>bs. Float64frombits (le_word bs))" 8
  unfolding scalars by (rule scalar_contract) simp

interpretation rd_pubkey: scalar_reader ReadPubkey "scalar_codes 32 id" 32
  unfolding scalars by (rule scalar_contract) simp

interpretation rd_ipv4: scalar_reader ReadIPv4 "scalar_codes 4 id" 4
  unfolding scalars by (rule scalar_contract) simp

interpretation rd_net: scalar_reader ReadNetworkV4 "scalar_codes 5 id" 5
  unfolding scalars by (rule scalar_contract) simp

text \<open>A length prefix followed by a body: the shape of strings and slices.\<close>

definition prefixed :: "nat \<Rightarrow> byte list \<Rightarrow> byte list \<Rightarrow> bool" where
  "prefixed n body bs \<longleftrightarrow> n < 2 ^ 32 \<and> bs = le_bytes 4 (of_nat n :: uint32) @ body"

lemma ReadU32_prefix:
  assumes "prefixed n body bs" and "unread r = bs @ ys"
  shows "ReadU32 r = (of_nat n, None, advance 4 r)" "unat (of_nat n :: uint32) = n"
    "(of_nat n :: uint32) = 0 \<longleftrightarrow> n = 0"
    "unread (advance 4 r) = body @ ys" "length bs = 4 + length body"
proof -
  have n: "n < 2 ^ 32" and bs: "bs = le_bytes 4 (of_nat n :: uint32) @ body"
    using assms(1) by (simp_all add: prefixed_def)
  have "scalar_codes 4 le_word (le_bytes 4 (of_nat n :: uint32)) (of_nat n :: uint32)"
    by (simp add: scalar_codes_def)
  moreover have u: "unread r = le_bytes 4 (of_nat n :: uint32) @ body @ ys" unfolding assms(2) bs by simp
  ultimately have "ReadU32 r = (of_nat n, None, advance (length (le_bytes 4 (of_nat n :: uint32))) r)"
    by (rule rd_u32.read_complete)
  then show "ReadU32 r = (of_nat n, None, advance 4 r)" by simp
  show v: "unat (of_nat n :: uint32) = n" using n by (simp add: unsigned_of_nat take_bit_nat_eq_self)
  show "(of_nat n :: uint32) = 0 \<longleftrightarrow> n = 0" by (simp only: unat_eq_0 [symmetric] v)
  show "unread (advance 4 r) = body @ ys" unfolding unread_advance u by simp
  show "length bs = 4 + length body" by (simp add: bs)
qed

lemma ReadU32_shape:
  assumes "ReadU32 r = (len, None, r')"
  shows "r' = advance 4 r" "4 \<le> length (unread r)"
    "take 4 (unread r) = le_bytes 4 len" "prefixed (unat len) body (le_bytes 4 len @ body)"
proof -
  from rd_u32.read_sound [OF assms] obtain bs where b: "scalar_codes 4 le_word bs len"
    "unread r = bs @ unread r'" "r' = advance (length bs) r" by blast
  then have l: "length bs = 4" "len = le_word bs" by (simp_all add: scalar_codes_def)
  then have e: "le_bytes 4 len = bs" using le_bytes_le_word [of bs, where 'a = 32] by simp
  show r': "r' = advance 4 r" using b(3) l(1) by simp
  show "take 4 (unread r) = le_bytes 4 len" unfolding e b(2) using l(1) by simp
  show "4 \<le> length (unread r)" unfolding b(2) using l(1) by simp
  show "prefixed (unat len) body (le_bytes 4 len @ body)"
    using unsigned_less [of len] by (simp add: prefixed_def)
qed

lemma ReadU32_error: "ReadU32 r = (len, Some e, r') \<Longrightarrow> r' = r"
  using rd_u32.read_short by blast

definition string_codes :: "byte list \<Rightarrow> byte list \<Rightarrow> bool" where
  "string_codes bs s \<longleftrightarrow> prefixed (length s) s bs"

interpretation rd_string: cursor_reader ReadString string_codes
proof
  fix bs s r ys
  assume "string_codes bs s" and u: "unread r = bs @ ys"
  then have "prefixed (length s) s bs" by (simp add: string_codes_def)
  note p = ReadU32_prefix [OF this u]
  have l: "length s \<le> length (unread (advance 4 r))" unfolding p(4) by simp
  show "ReadString r = (s, None, advance (length bs) r)"
  proof (cases "s = []")
    case True
    then show ?thesis using p by (simp add: ReadString_def)
  next
    case False
    then have "0 < length s" by simp
    then have "\<not> length (data (advance 4 r)) < offset (advance 4 r) + length s"
      using l short_iff [of "length s" "advance 4 r"] by linarith
    then show ?thesis using p False
      by (simp add: ReadString_def subslice_unread [of "advance 4 r", simplified])
  qed
next
  fix r s r'
  assume rd: "ReadString r = (s, None, r')"
  then obtain len r1 where l: "ReadU32 r = (len, None, r1)"
    by (auto simp: ReadString_def split: prod.splits option.splits)
  note h = ReadU32_shape [OF l]
  have s: "s = take (unat len) (drop 4 (unread r))" "r' = advance (4 + unat len) r"
    "unat len \<le> length (drop 4 (unread r))"
    using rd subslice_unread [of "advance 4 r" "unat len"]
    by (auto simp: ReadString_def l h(1) split: if_splits)
  then have ls: "length s = unat len" by (simp only: length_take min_absorb2)
  have "s @ unread r' = drop 4 (unread r)"
    by (simp add: s(1,2) drop_drop [symmetric] add.commute [of 4] del: drop_drop)
  then have "unread r = (le_bytes 4 len @ s) @ unread r'" by (metis append.assoc append_take_drop_id h(3))
  moreover have "string_codes (le_bytes 4 len @ s) s" using h(4) by (simp add: string_codes_def ls)
  moreover have "r' = advance (length (le_bytes 4 len @ s)) r" by (simp add: s(2) ls)
  ultimately show "\<exists>bs. string_codes bs s \<and> unread r = bs @ unread r' \<and> r' = advance (length bs) r"
    by blast
next
  fix r s e r'
  assume rd: "ReadString r = (s, Some e, r')"
  obtain len e' r1 where l: "ReadU32 r = (len, e', r1)" by (metis prod_cases3)
  show "r' = r \<or> r' = advance 4 r \<and> 4 \<le> length (unread r)"
  proof (cases e')
    case None
    note h = ReadU32_shape(1,2) [OF l [unfolded None]]
    show ?thesis using rd h(2)
      by (auto simp: None l h(1) ReadString_def simp del: length_unread split: if_splits)
  next
    case (Some y)
    then show ?thesis using ReadU32_error [of r len y r1] l rd by (simp add: ReadString_def)
  qed
qed

definition slice_codes :: "(byte list \<Rightarrow> 'a \<Rightarrow> bool) \<Rightarrow> byte list \<Rightarrow> 'a list \<Rightarrow> bool" where
  "slice_codes codes bs xs \<longleftrightarrow> (\<exists>bss. prefixed (length xs) (concat bss) bs \<and> list_all2 codes bss xs)"

lemma readSlice_shape:
  assumes "ReadU32 r = (len, None, advance 4 r)" and "0 < k"
  shows "readSlice rd k what r =
    (if length (drop 4 (unread r)) < unat len * k
     then ([], Some (NotEnough what (unat len) (offset r + 4)), advance 4 r) else readLoop rd (unat len) (advance 4 r))"
proof (cases "len = 0")
  case True
  then show ?thesis using assms by (simp add: readSlice_def)
next
  case False
  then have "0 < unat len * k" using assms(2) by (simp add: unat_gt_0)
  from Remaining_less [OF this, of "advance 4 r"] show ?thesis
    using assms False by (simp add: readSlice_def del: length_unread)
qed

locale slice_reader = scalar_reader read codes k
  for read :: "Reader \<Rightarrow> 'a reading" and codes and k +
  fixes what :: string
begin

lemma concat_size: "list_all2 codes bss xs \<Longrightarrow> length (concat bss) = length xs * k"
  by (induction bss xs rule: list_all2_induct) (auto simp: codes_size)

lemma slice_complete:
  assumes "slice_codes codes bs xs" and u: "unread r = bs @ ys"
  shows "readSlice read k what r = (xs, None, advance (length bs) r)"
proof -
  obtain bss where b: "prefixed (length xs) (concat bss) bs" "list_all2 codes bss xs"
    using assms(1) by (auto simp: slice_codes_def)
  note p = ReadU32_prefix [OF b(1) u]
  have "length (drop 4 (unread r)) = length (concat bss) + length ys" using p(4) by simp
  then show ?thesis using p loop_complete [OF b(2) p(4)] concat_size [OF b(2)]
    by (simp add: readSlice_shape [OF p(1) size_pos])
qed

lemma slice_cases:
  obtains (short) e where "readSlice read k what r = ([], Some e, r)"
  | (corrupt) e where "readSlice read k what r = ([], Some e, advance 4 r)" "4 \<le> length (unread r)"
  | (ok) xs bs where "readSlice read k what r = (xs, None, advance (length bs) r)"
      "slice_codes codes bs xs" "\<exists>ys. unread r = bs @ ys"
proof -
  obtain len e' r1 where l: "ReadU32 r = (len, e', r1)" by (metis prod_cases3)
  show ?thesis
  proof (cases e')
    case (Some y)
    then show ?thesis using l ReadU32_error [of r len y r1] by (intro short) (simp add: readSlice_def)
  next
    case None
    note h = ReadU32_shape [OF l [unfolded None]]
    note s = readSlice_shape [OF l [unfolded None h(1)] size_pos, of read what]
    show ?thesis
    proof (cases "length (drop 4 (unread r)) < unat len * k")
      case True
      with s have "readSlice read k what r =
        ([], Some (NotEnough what (unat len) (offset r + 4)), advance 4 r)" by (simp only: if_True)
      then show ?thesis using h(2) by (rule corrupt)
    next
      case False
      then have "unat len * k \<le> length (unread (advance 4 r))" by simp
      from loop_ok [OF this] obtain xs bss where x:
        "readLoop read (unat len) (advance 4 r) = (xs, None, advance (unat len * k) (advance 4 r))"
        "list_all2 codes bss xs" "length xs = unat len" "length (concat bss) = unat len * k"
        "drop 4 (unread r) = concat bss @ drop (unat len * k) (drop 4 (unread r))"
        unfolding unread_advance by blast
      let ?bs = "le_bytes 4 len @ concat bss"
      have "readSlice read k what r = (xs, None, advance (length ?bs) r)"
        using s False x(1,4) by simp
      moreover have "slice_codes codes ?bs xs"
        unfolding slice_codes_def using h(4) [of "concat bss"] x(2,3) by auto
      moreover have "\<exists>ys. unread r = ?bs @ ys"
        using x(5) by (metis append.assoc append_take_drop_id h(3))
      ultimately show ?thesis by (rule ok)
    qed
  qed
qed

end

sublocale slice_reader \<subseteq> slices: cursor_reader "readSlice read k what" "slice_codes codes"
proof
  show "readSlice read k what r = (x, None, advance (length bs) r)"
    if "slice_codes codes bs x" "unread r = bs @ ys" for bs x r ys
    using that by (rule slice_complete)
  show "\<exists>bs. slice_codes codes bs x \<and> unread r = bs @ unread r' \<and> r' = advance (length bs) r"
    if "readSlice read k what r = (x, None, r')" for r x r'
    using that by (cases r rule: slice_cases) auto
  show "r' = r \<or> r' = advance 4 r \<and> 4 \<le> length (unread r)"
    if "readSlice read k what r = (x, Some e, r')" for r x e r'
    using that by (cases r rule: slice_cases) auto
qed

interpretation rd_pubkeys: slice_reader ReadPubkey "scalar_codes 32 id" 32 "''pubkeys''"
  rewrites "readSlice ReadPubkey 32 ''pubkeys'' = ReadPubkeySlice"
  by unfold_locales (simp_all add: ReadPubkeySlice_def)

interpretation rd_nets: slice_reader ReadNetworkV4 "scalar_codes 5 id" 5 "''network_v4''"
  rewrites "readSlice ReadNetworkV4 5 ''network_v4'' = ReadNetworkV4Slice"
  by unfold_locales (simp_all add: ReadNetworkV4Slice_def)

interpretation rd_u32s: slice_reader ReadU32 "scalar_codes 4 le_word" 4 "''u32s''"
  rewrites "readSlice ReadU32 4 ''u32s'' = ReadU32Slice"
  by unfold_locales (simp_all add: ReadU32Slice_def)

subsection \<open>Records: sequences of fields\<close>

text \<open>
  A field's value with its kind. \<open>readField\<close> and \<open>tryField\<close> call the read of the kind of their
  first argument, which for \<open>tryField\<close> is the default; \<open>represents\<close> says which bytes stand for
  a value.
\<close>

datatype borsh_value =
    VU8 uint8 | VBool bool | VU16 uint16 | VU32 uint32 | VU64 uint64 | VU128 "byte list" | VF64 float64
  | VPubkey "byte list" | VIPv4 "byte list" | VNetworkV4 "byte list" | VString "byte list"
  | VPubkeySlice "byte list list" | VNetworkV4Slice "byte list list" | VU32Slice "uint32 list"

definition as_value :: "('a \<Rightarrow> borsh_value) \<Rightarrow> 'a reading \<Rightarrow> borsh_value reading" where
  "as_value c = map_prod c id"

fun readField :: "borsh_value \<Rightarrow> Reader \<Rightarrow> borsh_value reading" where
  "readField (VU8 _) r = as_value VU8 (ReadU8 r)"
| "readField (VBool _) r = as_value VBool (ReadBool r)"
| "readField (VU16 _) r = as_value VU16 (ReadU16 r)"
| "readField (VU32 _) r = as_value VU32 (ReadU32 r)"
| "readField (VU64 _) r = as_value VU64 (ReadU64 r)"
| "readField (VU128 _) r = as_value VU128 (ReadU128 r)"
| "readField (VF64 _) r = as_value VF64 (ReadF64 r)"
| "readField (VPubkey _) r = as_value VPubkey (ReadPubkey r)"
| "readField (VIPv4 _) r = as_value VIPv4 (ReadIPv4 r)"
| "readField (VNetworkV4 _) r = as_value VNetworkV4 (ReadNetworkV4 r)"
| "readField (VString _) r = as_value VString (ReadString r)"
| "readField (VPubkeySlice _) r = as_value VPubkeySlice (ReadPubkeySlice r)"
| "readField (VNetworkV4Slice _) r = as_value VNetworkV4Slice (ReadNetworkV4Slice r)"
| "readField (VU32Slice _) r = as_value VU32Slice (ReadU32Slice r)"

fun tryField :: "borsh_value \<Rightarrow> Reader \<Rightarrow> borsh_value \<times> Reader" where
  "tryField (VU8 d) r = map_prod VU8 id (TryReadU8 d r)"
| "tryField (VBool d) r = map_prod VBool id (TryReadBool d r)"
| "tryField (VU16 d) r = map_prod VU16 id (TryReadU16 d r)"
| "tryField (VU32 d) r = map_prod VU32 id (TryReadU32 d r)"
| "tryField (VU64 d) r = map_prod VU64 id (TryReadU64 d r)"
| "tryField (VU128 d) r = map_prod VU128 id (TryReadU128 d r)"
| "tryField (VF64 d) r = map_prod VF64 id (TryReadF64 d r)"
| "tryField (VPubkey d) r = map_prod VPubkey id (TryReadPubkey d r)"
| "tryField (VIPv4 d) r = map_prod VIPv4 id (TryReadIPv4 d r)"
| "tryField (VNetworkV4 d) r = map_prod VNetworkV4 id (TryReadNetworkV4 d r)"
| "tryField (VString d) r = map_prod VString id (TryReadString d r)"
| "tryField (VPubkeySlice d) r = map_prod VPubkeySlice id (TryReadPubkeySlice d r)"
| "tryField (VNetworkV4Slice d) r = map_prod VNetworkV4Slice id (TryReadNetworkV4Slice d r)"
| "tryField (VU32Slice d) r = map_prod VU32Slice id (TryReadU32Slice d r)"

fun represents :: "byte list \<Rightarrow> borsh_value \<Rightarrow> bool" where
  "represents bs (VU8 v) = scalar_codes 1 hd bs v"
| "represents bs (VBool v) = scalar_codes 1 (\<lambda>bs. hd bs \<noteq> 0) bs v"
| "represents bs (VU16 v) = scalar_codes 2 le_word bs v"
| "represents bs (VU32 v) = scalar_codes 4 le_word bs v"
| "represents bs (VU64 v) = scalar_codes 8 le_word bs v"
| "represents bs (VU128 v) = scalar_codes 16 id bs v"
| "represents bs (VF64 v) = scalar_codes 8 (\<lambda>bs. Float64frombits (le_word bs)) bs v"
| "represents bs (VPubkey v) = scalar_codes 32 id bs v"
| "represents bs (VIPv4 v) = scalar_codes 4 id bs v"
| "represents bs (VNetworkV4 v) = scalar_codes 5 id bs v"
| "represents bs (VString v) = string_codes bs v"
| "represents bs (VPubkeySlice v) = slice_codes (scalar_codes 32 id) bs v"
| "represents bs (VNetworkV4Slice v) = slice_codes (scalar_codes 5 id) bs v"
| "represents bs (VU32Slice v) = slice_codes (scalar_codes 4 le_word) bs v"

fun kind :: "borsh_value \<Rightarrow> nat" where
  "kind (VU8 _) = 0" | "kind (VBool _) = 1" | "kind (VU16 _) = 2" | "kind (VU32 _) = 3" | "kind (VU64 _) = 4"
| "kind (VU128 _) = 5" | "kind (VF64 _) = 6" | "kind (VPubkey _) = 7" | "kind (VIPv4 _) = 8"
| "kind (VNetworkV4 _) = 9" | "kind (VString _) = 10" | "kind (VPubkeySlice _) = 11"
| "kind (VNetworkV4Slice _) = 12" | "kind (VU32Slice _) = 13"

definition variable_size :: "borsh_value \<Rightarrow> bool" where
  "variable_size v \<longleftrightarrow> kind v \<ge> 10"

definition min_size :: "borsh_value \<Rightarrow> nat" where
  "min_size v = [1, 1, 2, 4, 8, 16, 8, 32, 4, 5, 4, 4, 4, 4] ! kind v"

lemma as_value_eq: "as_value c p = (v, e, r') \<longleftrightarrow> (\<exists>x. v = c x \<and> p = (x, e, r'))"
  by (cases p) (auto simp: as_value_def)

lemmas field_reads = rd_u8.read_iff rd_bool.read_iff rd_u16.read_iff rd_u32.read_iff rd_u64.read_iff
  rd_u128.read_iff rd_f64.read_iff rd_pubkey.read_iff rd_ipv4.read_iff rd_net.read_iff rd_string.read_iff
  rd_pubkeys.slices.read_iff rd_nets.slices.read_iff rd_u32s.slices.read_iff

lemma readField_iff:
  "readField d r = (v, None, r') \<longleftrightarrow>
     kind v = kind d \<and> (\<exists>bs. represents bs v \<and> unread r = bs @ unread r' \<and> r' = advance (length bs) r)"
  by (cases d; cases v) (simp_all add: as_value_eq field_reads)

lemmas scalar_fails = rd_u8.read_short rd_bool.read_short rd_u16.read_short rd_u32.read_short rd_u64.read_short
  rd_u128.read_short rd_f64.read_short rd_pubkey.read_short rd_ipv4.read_short rd_net.read_short

lemmas prefixed_fails = rd_string.read_fails rd_pubkeys.slices.read_fails rd_nets.slices.read_fails rd_u32s.slices.read_fails

lemma readField_fails:
  assumes "readField d r = (v, Some e, r')"
  shows "r' = r \<or> variable_size d \<and> r' = advance 4 r \<and> 4 \<le> length (unread r)"
  using assms
  by (cases d) (auto simp: as_value_eq variable_size_def simp del: length_unread dest: scalar_fails prefixed_fails)

lemma tryField_cases:
  "tryField d r = (if length (unread r) < min_size d then (d, r)
     else (case readField d r of (v, _, r') \<Rightarrow> (v, r')))"
  by (cases d)
    (auto simp: TryReadU8_def TryReadBool_def TryReadU16_def TryReadU32_def TryReadU64_def TryReadU128_def
      TryReadF64_def TryReadPubkey_def TryReadIPv4_def TryReadNetworkV4_def TryReadString_def TryReadPubkeySlice_def
      TryReadNetworkV4Slice_def TryReadU32Slice_def as_value_def min_size_def Remaining_def split: prod.splits)

subsection \<open>Properties\<close>

text \<open>
  C36. A strict read of a field succeeds with a value exactly when the unread bytes begin with
  a representation of it, and moves the cursor just past it. A read that fails leaves the
  cursor where it was, or, for strings and slices only, right behind a length prefix that
  promises more bytes than there are.
\<close>

theorem strict_reads_exact:
  "(readField d r = (v, None, r') \<longleftrightarrow>
      kind v = kind d \<and> (\<exists>bs. represents bs v \<and> unread r = bs @ unread r' \<and> r' = advance (length bs) r)) \<and>
   (case readField d r of (_, Some _, r'') \<Rightarrow>
      r'' = r \<or> (variable_size d \<and> r'' = advance 4 r \<and> 4 \<le> length (unread r)) | _ \<Rightarrow> True)"
proof
  show "readField d r = (v, None, r') \<longleftrightarrow>
      kind v = kind d \<and> (\<exists>bs. represents bs v \<and> unread r = bs @ unread r' \<and> r' = advance (length bs) r)"
    by (rule readField_iff)
  show "case readField d r of (_, Some _, r'') \<Rightarrow>
      r'' = r \<or> (variable_size d \<and> r'' = advance 4 r \<and> 4 \<le> length (unread r)) | _ \<Rightarrow> True"
    using readField_fails [of d r] by (auto simp del: length_unread split: prod.split option.split)
qed

fun tryFields :: "borsh_value list \<Rightarrow> Reader \<Rightarrow> borsh_value list \<times> Reader" where
  "tryFields [] r = ([], r)"
| "tryFields (d # ds) r = (case tryField d r of (v, r') \<Rightarrow> (case tryFields ds r' of (vs, r'') \<Rightarrow> (v # vs, r'')))"

lemma represents_size: "represents bs v \<Longrightarrow> min_size v \<le> length bs"
  by (cases v) (auto simp: min_size_def scalar_codes_def string_codes_def slice_codes_def prefixed_def)

lemma tryField_present:
  assumes "represents bs v" and "kind v = kind d" and "unread r = bs @ ys"
  shows "tryField d r = (v, advance (length bs) r)"
proof -
  have "min_size d \<le> length (unread r)"
    using represents_size [OF assms(1)] assms(2,3) by (simp add: min_size_def del: length_unread)
  moreover have "readField d r = (v, None, advance (length bs) r)"
    unfolding readField_iff using assms by auto
  ultimately show ?thesis by (simp add: tryField_cases del: length_unread)
qed

lemma min_size_pos: "0 < min_size d"
  by (cases d) (simp_all add: min_size_def)

lemma tryFields_missing: "unread r = [] \<Longrightarrow> tryFields ds r = (ds, r)"
proof (induction ds)
  case (Cons d ds)
  then have "tryField d r = (d, r)" using min_size_pos [of d] by (simp add: tryField_cases del: length_unread)
  with Cons show ?case by simp
qed simp

lemma tryFields_prefix:
  "list_all2 represents bss vs \<Longrightarrow> unread r = concat bss \<Longrightarrow> map kind vs = map kind (take (length vs) ds) \<Longrightarrow>
   length vs \<le> length ds \<Longrightarrow>
   tryFields ds r = (vs @ drop (length vs) ds, advance (length (concat bss)) r)"
proof (induction bss vs arbitrary: r ds rule: list_all2_induct)
  case Nil
  then show ?case by (simp add: tryFields_missing)
next
  case (Cons bs bss v vs)
  then obtain d ds' where ds: "ds = d # ds'" by (cases ds) auto
  have "tryField d r = (v, advance (length bs) r)"
    using Cons.hyps(1) by (rule tryField_present) (use Cons.prems ds in simp_all)
  moreover have "unread (advance (length bs) r) = concat bss" using Cons.prems(1) by simp
  ultimately show ?case using Cons.IH [of "advance (length bs) r" ds'] Cons.prems ds by simp
qed

text \<open>
  C17. The purpose of the package: a record that an older program wrote, with fewer fields at
  the end, is read back by a newer reader as the fields that were written followed by the
  defaults of the fields it does not have, and all of the data is consumed.
\<close>

theorem older_records_read_with_defaults:
  assumes "list_all2 represents bss vs" and "map kind vs = map kind (take (length vs) defaults)"
    and "length vs \<le> length defaults"
  shows "tryFields defaults (NewReader (concat bss)) =
    (vs @ drop (length vs) defaults, advance (length (concat bss)) (NewReader (concat bss)))"
  using assms by (intro tryFields_prefix) (simp_all add: NewReader_def unread_def)

lemma le_bytes_4: "le_bytes 4 w = [ucast w, ucast (drop_bit 8 w), ucast (drop_bit 16 w), ucast (drop_bit 24 w)]"
  by (simp add: eval_nat_numeral drop_bit_drop_bit)

theorem older_records_read_with_defaults_witness:
  "tryFields [VU8 0, VString [], VU32Slice [], VBool True]
      (NewReader ([7] @ [2, 0, 0, 0, 104, 105] @ [1, 0, 0, 0, 5, 0, 0, 0])) =
   ([VU8 7, VString [104, 105], VU32Slice [5], VBool True],
    advance 15 (NewReader ([7] @ [2, 0, 0, 0, 104, 105] @ [1, 0, 0, 0, 5, 0, 0, 0])))"
proof -
  have "slice_codes (scalar_codes 4 le_word) [1, 0, 0, 0, 5, 0, 0, 0] [5 :: uint32]"
    unfolding slice_codes_def
    by (intro exI [of _ "[[5, 0, 0, 0]]"]) (simp add: prefixed_def scalar_codes_def le_bytes_4)
  then have "list_all2 represents [[7], [2, 0, 0, 0, 104, 105], [1, 0, 0, 0, 5, 0, 0, 0]]
     [VU8 7, VString [104, 105], VU32Slice [5]]"
    by (simp add: string_codes_def prefixed_def scalar_codes_def le_bytes_4)
  from older_records_read_with_defaults [OF this, of "[VU8 0, VString [], VU32Slice [], VBool True]"]
  show ?thesis by simp
qed

text \<open>Any sequence of reads, as a client of the package can make them.\<close>

inductive read_step :: "Reader \<Rightarrow> Reader \<Rightarrow> bool" where
  strict_read: "readField d r = (v, e, r') \<Longrightarrow> read_step r r'"
| try_read: "tryField d r = (v, r') \<Longrightarrow> read_step r r'"
| bytes_read: "ReadBytes n r = (bs, e, r') \<Longrightarrow> read_step r r'"

definition cursor_ok :: "byte list \<Rightarrow> Reader \<Rightarrow> bool" where
  "cursor_ok bs r \<longleftrightarrow> data r = bs \<and> offset r \<le> length bs \<and> int (length bs) \<le> maxAlloc"

lemma readField_frame:
  assumes "readField d r = (v, e, r')" and "cursor_ok bs r"
  shows "cursor_ok bs r'"
proof (cases e)
  case None
  from assms(1) obtain cs where c: "unread r = cs @ unread r'" "r' = advance (length cs) r"
    unfolding None readField_iff by blast
  have "length (unread r) = length cs + length (unread r')" by (simp only: c(1) length_append)
  then show ?thesis using assms(2) c(2) by (auto simp: cursor_ok_def)
next
  case (Some y)
  from readField_fails [OF assms(1) [unfolded Some]] assms(2) show ?thesis by (auto simp: cursor_ok_def)
qed

lemma i64_wrap:
  assumes "2 ^ 63 \<le> x" and "x < 2 ^ 64"
  shows "i64 x = x - 2 ^ 64"
proof -
  have "(x + 2 ^ 63) mod 2 ^ 64 = (x + 2 ^ 63 - 2 ^ 64) mod 2 ^ 64" by (simp only: minus_mod_self2)
  also have "\<dots> = x + 2 ^ 63 - 2 ^ 64" by (rule mod_pos_pos_trivial) (use assms in simp_all)
  finally show ?thesis by (simp add: i64_def signed_take_bit_eq_take_bit_shift take_bit_eq_mod)
qed

lemma no_wrap: "0 \<le> n \<Longrightarrow> n \<le> maxAlloc \<Longrightarrow> int k \<le> maxAlloc \<Longrightarrow> i64 (int k + n) = int k + n"
  by (simp add: maxAlloc_def)

lemma ReadBytes_frame:
  assumes "ReadBytes n r = (v, e, r')" and "cursor_ok bs r"
  shows "cursor_ok bs r'"
  using assms no_wrap [of n "offset r"] by (auto simp: ReadBytes_def cursor_ok_def split: if_splits)

lemma cursor_ok_step:
  assumes "read_step r r'" and "cursor_ok bs r"
  shows "cursor_ok bs r'"
  using assms(1)
proof cases
  case (strict_read d v e)
  then show ?thesis using assms(2) by (rule readField_frame)
next
  case (try_read d v)
  then show ?thesis using assms(2) readField_frame [of d r _ _ r' bs]
    by (auto simp: tryField_cases split: if_splits prod.splits)
next
  case (bytes_read n v e)
  then show ?thesis using assms(2) by (rule ReadBytes_frame)
qed

interpretation cursor: step_invariant read_step "cursor_ok bs" for bs
  by unfold_locales (rule cursor_ok_step)

text \<open>
  C37. Whatever sequence of reads a client makes, the reader keeps its data, its cursor stays
  within them, so that no read indexes out of range; \<open>ReadBytes\<close> alone can panic, exactly on a
  negative count or one whose sum with the cursor wraps around.
\<close>

theorem cursor_stays_in_data:
  assumes "read_step\<^sup>*\<^sup>* (NewReader bs) r" and "int (length bs) \<le> maxAlloc"
    and "- (2 ^ 63) \<le> n" and "n < 2 ^ 63"
  shows "data r = bs \<and> offset r \<le> length bs \<and> Remaining r = int (length (unread r)) \<and>
    (fst (snd (ReadBytes n r)) = Some PanicMakeSlice \<longleftrightarrow> n < 0 \<or> 2 ^ 63 \<le> int (offset r) + n)"
proof -
  have c: "data r = bs" "offset r \<le> length bs" using cursor.run_inv [OF assms(1), of bs] assms(2) by (auto simp: cursor_ok_def NewReader_def)
  then have o: "int (offset r) \<le> 2 ^ 48" using assms(2) by (simp add: maxAlloc_def)
  consider "n < 0" | "0 \<le> n" "int (offset r) + n < 2 ^ 63" | "2 ^ 63 \<le> int (offset r) + n" by linarith
  then have "fst (snd (ReadBytes n r)) = Some PanicMakeSlice \<longleftrightarrow> n < 0 \<or> 2 ^ 63 \<le> int (offset r) + n"
  proof cases
    case 1
    then have "i64 (int (offset r) + n) = int (offset r) + n" using assms(3) o by simp
    then show ?thesis using 1 c by (simp add: ReadBytes_def)
  next
    case 2
    then have "i64 (int (offset r) + n) = int (offset r) + n" by simp
    then show ?thesis using 2 c assms(2) by (auto simp: ReadBytes_def)
  next
    case 3
    then have "i64 (int (offset r) + n) = int (offset r) + n - 2 ^ 64" using assms(4) o by (intro i64_wrap) simp_all
    then show ?thesis using 3 o assms(4) by (auto simp: ReadBytes_def maxAlloc_def)
  qed
  then show ?thesis using c by (simp add: Remaining_def)
qed

theorem cursor_stays_in_data_witness:
  "fst (snd (ReadBytes (- 1) (advance 1 (NewReader [7, 8])))) = Some PanicMakeSlice"
proof -
  have "readField (VU8 0) (NewReader [7, 8]) = (VU8 7, None, advance 1 (NewReader [7, 8]))"
    by (simp add: ReadU8_def NewReader_def as_value_def)
  then have "read_step\<^sup>*\<^sup>* (NewReader [7, 8]) (advance 1 (NewReader [7, 8]))" by (blast intro: strict_read)
  from cursor_stays_in_data [OF this, of "- 1"] show ?thesis by (simp add: maxAlloc_def)
qed

end
