(* ===== verification/Byte_Reader.thy ===== *)
theory Byte_Reader
  imports Borsh_Reader Liveness_Version "HOL-Library.State_Monad"
begin

text \<open>
  The cursor of the serviceability SDK, smartcontract/sdk/go/serviceability/bytereader.go. The
  struct has the two fields of the incremental Borsh reader, so the model shares its record.
  A read never reports an error: it is a computation of the state monad over the cursor whose
  value is zero, nil or the given default when the bytes are missing. \<open>Remaining\<close> and the size
  guards of the slices are \<open>uint32\<close> arithmetic, with its wrap-around.

  The contract of a read is the locale \<open>field_reader\<close>: what it returns and where it leaves the
  cursor when the unread bytes begin with a representation, and when there are none at all. The properties:
  where no guard wraps around, every read returns the value and moves the cursor exactly as the
  checked reader of the Borsh package does; and where one does, a slice of phantom elements is
  returned.
\<close>

type_synonym ByteReader = Reader
type_synonym 'a br = "(ByteReader, 'a) state"

record Uint128 =
  High :: uint64
  Low :: uint64

definition NewByteReader :: "byte list \<Rightarrow> ByteReader" where
  "NewByteReader bs = \<lparr>data = bs, offset = 0\<rparr>"

definition GetOffset :: "nat br" where
  "GetOffset = State (\<lambda>r. (offset r, r))"

definition br_Remaining :: "uint32 br" where
  "br_Remaining = State (\<lambda>r. (word_of_int (int (length (data r)) - int (offset r)), r))"

definition br_ReadU8 :: "uint8 br" where
  "br_ReadU8 = State (\<lambda>r. if offset r + 1 > length (data r) then (0, r)
     else (data r ! offset r, advance 1 r))"

definition br_ReadU16 :: "uint16 br" where
  "br_ReadU16 = State (\<lambda>r. if offset r + 2 > length (data r) then (0, r)
     else (le_word (take 2 (unread r)), advance 2 r))"

definition br_ReadU16OrDefault :: "uint16 \<Rightarrow> uint16 br" where
  "br_ReadU16OrDefault def = State (\<lambda>r. if offset r + 2 > length (data r) then (def, r)
     else run_state br_ReadU16 r)"

definition br_ReadU32 :: "uint32 br" where
  "br_ReadU32 = State (\<lambda>r. if offset r + 4 > length (data r) then (0, r)
     else (le_word (take 4 (unread r)), advance 4 r))"

definition br_ReadU64 :: "uint64 br" where
  "br_ReadU64 = State (\<lambda>r. if offset r + 8 > length (data r) then (0, r)
     else (le_word (take 8 (unread r)), advance 8 r))"

definition br_ReadI64 :: "int br" where
  "br_ReadI64 = do { v \<leftarrow> br_ReadU64; State_Monad.return (sint v) }"

definition br_ReadU128 :: "Uint128 br" where
  "br_ReadU128 = State (\<lambda>r. if offset r + 16 > length (data r) then (\<lparr>High = 0, Low = 0\<rparr>, r)
     else (\<lparr>High = le_word (subslice (data r) (offset r) (offset r + 8)),
            Low = le_word (subslice (data r) (offset r + 8) (offset r + 16))\<rparr>, advance 16 r))"

definition br_ReadF64 :: "float64 br" where
  "br_ReadF64 = do { v \<leftarrow> br_ReadU64; State_Monad.return (Float64frombits v) }"

definition br_ReadPubkey :: "byte list br" where
  "br_ReadPubkey = State (\<lambda>r. if offset r + 32 > length (data r) then (replicate 32 0, r)
     else (subslice (data r) (offset r) (offset r + 32), advance 32 r))"

definition br_ReadIPv4 :: "byte list br" where
  "br_ReadIPv4 = State (\<lambda>r. if offset r + 4 > length (data r) then (replicate 4 0, r)
     else (subslice (data r) (offset r) (offset r + 4), advance 4 r))"

definition br_ReadNetworkV4 :: "byte list br" where
  "br_ReadNetworkV4 = State (\<lambda>r. if offset r + 5 > length (data r) then (replicate 5 0, r)
     else (subslice (data r) (offset r) (offset r + 5), advance 5 r))"

text \<open>The loop of the slice readers, and their common body over the element and its size.\<close>

fun br_loop :: "'a br \<Rightarrow> nat \<Rightarrow> 'a list br" where
  "br_loop rd 0 = State_Monad.return []"
| "br_loop rd (Suc n) = do { x \<leftarrow> rd; xs \<leftarrow> br_loop rd n; State_Monad.return (x # xs) }"

definition br_slice :: "'a br \<Rightarrow> uint32 \<Rightarrow> 'a list br" where
  "br_slice rd k = do {
     len \<leftarrow> br_ReadU32;
     rem \<leftarrow> br_Remaining;
     if len = 0 \<or> len * k > rem then State_Monad.return [] else br_loop rd (unat len) }"

definition br_ReadPubkeySlice :: "byte list list br" where
  "br_ReadPubkeySlice = br_slice br_ReadPubkey 32"

definition br_ReadIPv4Slice :: "byte list list br" where
  "br_ReadIPv4Slice = br_slice br_ReadIPv4 4"

definition br_ReadNetworkV4Slice :: "byte list list br" where
  "br_ReadNetworkV4Slice = br_slice br_ReadNetworkV4 5"

definition br_ReadString :: "byte list br" where
  "br_ReadString = do {
     len \<leftarrow> br_ReadU32;
     if len = 0 then State_Monad.return []
     else State (\<lambda>r. if offset r + unat len > length (data r) then ([], r)
       else (subslice (data r) (offset r) (offset r + unat len), advance (unat len) r)) }"

text \<open>
  The counts of \<open>ReadBytes\<close> and \<open>Skip\<close> are Go \<open>int\<close>s that their only callers compute as positive
  differences (deserialize.go:191, 467 and 473), so they are \<open>nat\<close>; nil is the empty list.
\<close>

definition br_ReadBytes :: "nat \<Rightarrow> byte list br" where
  "br_ReadBytes n = State (\<lambda>r. if offset r + n > length (data r) then ([], r)
     else (subslice (data r) (offset r) (offset r + n), advance n r))"

definition br_Skip :: "nat \<Rightarrow> unit br" where
  "br_Skip n = State (\<lambda>r. ((), r\<lparr>offset := (if offset r + n > length (data r) then length (data r) else offset r + n)\<rparr>))"

definition hex_digit :: "nat \<Rightarrow> char" where
  "hex_digit n = ''0123456789abcdef'' ! n"

definition hex_byte :: "byte \<Rightarrow> string" where
  "hex_byte b = [hex_digit (unat b div 16), hex_digit (unat b mod 16)]"

text \<open>\<open>DumpBytes\<close> for a count whose sum with the offset does not wrap around.\<close>

definition DumpBytes :: "int \<Rightarrow> string br" where
  "DumpBytes n = State (\<lambda>r.
     let n' = (if int (offset r) + n > int (length (data r)) then int (length (data r)) - int (offset r) else n)
     in if n' \<le> 0 then (''<no bytes>'', r)
        else (''offset='' @ itoa (offset r) @ '' bytes='' @
              concat (map hex_byte (subslice (data r) (offset r) (offset r + nat n'))), r))"

subsection \<open>The two readers agree\<close>

definition drop_err :: "'a reading \<Rightarrow> 'a \<times> Reader" where
  "drop_err p = (fst p, snd (snd p))"

lemma run_bind [simp]: "run_state (m \<bind> f) r = (case run_state m r of (x, r') \<Rightarrow> run_state (f x) r')"
  by (simp add: State_Monad.bind_def split_beta Let_def)

lemma run_return [simp]: "run_state (State_Monad.return x) r = (x, r)"
  by (simp add: State_Monad.return_def)

lemma scalars_agree:
  "run_state br_ReadU8 r = drop_err (ReadU8 r)"
  "run_state br_ReadU16 r = drop_err (ReadU16 r)"
  "run_state br_ReadU32 r = drop_err (ReadU32 r)"
  "run_state br_ReadU64 r = drop_err (ReadU64 r)"
  "run_state br_ReadF64 r = drop_err (ReadF64 r)"
  "run_state br_ReadPubkey r = drop_err (ReadPubkey r)"
  "run_state br_ReadIPv4 r = drop_err (ReadIPv4 r)"
  "run_state br_ReadNetworkV4 r = drop_err (ReadNetworkV4 r)"
  by (simp_all add: drop_err_def br_ReadU8_def br_ReadU16_def br_ReadU32_def br_ReadU64_def br_ReadF64_def
      br_ReadPubkey_def br_ReadIPv4_def br_ReadNetworkV4_def ReadU8_def ReadU16_def ReadU32_def ReadU64_def
      ReadF64_def ReadPubkey_def ReadIPv4_def ReadNetworkV4_def)

definition uint128_of :: "byte list \<Rightarrow> Uint128" where
  "uint128_of bs = \<lparr>High = le_word (take 8 bs), Low = le_word (drop 8 bs)\<rparr>"

lemma u128_agrees: "run_state br_ReadU128 r = map_prod uint128_of id (drop_err (ReadU128 r))"
proof -
  have z: "uint128_of (replicate 16 0) = \<lparr>High = 0, Low = 0\<rparr>"
    by (simp add: uint128_of_def eval_nat_numeral)
  have t: "drop 8 (subslice (data r) (offset r) (offset r + 16)) = subslice (data r) (offset r + 8) (offset r + 16)"
    by (simp add: subslice_def drop_take add.commute)
  have u: "take 8 (subslice (data r) (offset r) (offset r + 16)) = subslice (data r) (offset r) (offset r + 8)"
    by (simp add: subslice_def)
  show ?thesis
    by (simp add: br_ReadU128_def ReadU128_def drop_err_def z) (simp add: uint128_of_def t u)
qed

lemma string_agrees: "run_state br_ReadString r = drop_err (ReadString r)"
  by (auto simp: br_ReadString_def ReadString_def scalars_agree drop_err_def ReadU32_def split: prod.split option.split)

text \<open>The number of elements the length prefix at the cursor promises; 0 without one.\<close>

definition promised :: "Reader \<Rightarrow> nat" where
  "promised r = unat (fst (ReadU32 r))"

context scalar_reader
begin

lemma loop_agrees:
  assumes "\<And>r. run_state m r = drop_err (read r)"
  shows "n * k \<le> length (unread r) \<Longrightarrow> run_state (br_loop m n) r = drop_err (readLoop read n r)"
proof (induction n arbitrary: r)
  case 0
  then show ?case by (simp add: drop_err_def)
next
  case (Suc n)
  then have "k \<le> length (unread r)" by simp
  then obtain x where x: "read r = (x, None, advance k r)" using read_when_left by blast
  have "n * k \<le> length (unread (advance k r))" using Suc.prems by simp
  from Suc.IH [OF this] loop_ok [OF this] show ?case by (auto simp: assms x drop_err_def)
qed

end

lemma word_mult_no_wrap:
  fixes a b :: uint32
  assumes "unat a * unat b < 2 ^ 32"
  shows "unat (a * b) = unat a * unat b"
  using assms by (simp add: unat_mult_lem [symmetric] unat_word_ariths)

lemma slice_agrees:
  assumes sr: "scalar_reader read codes k" and m: "\<And>r. run_state m r = drop_err (read r)"
    and k: "unat (kw :: uint32) = k"
    and small: "length (data r) < 2 ^ 32" and fits: "promised r * k < 2 ^ 32"
  shows "run_state (br_slice m kw) r = drop_err (readSlice read k what r)"
proof -
  have k0: "0 < k" using sr by (rule scalar_reader.size_pos)
  obtain len e r' where l: "ReadU32 r = (len, e, r')" by (metis prod_cases3)
  have run: "run_state br_ReadU32 r = (len, r')" by (simp add: scalars_agree l drop_err_def)
  show ?thesis
  proof (cases e)
    case (Some y)
    then have "len = 0" using l by (auto simp: ReadU32_def split: if_splits)
    then show ?thesis using l Some by (simp add: br_slice_def run readSlice_def drop_err_def br_Remaining_def)
  next
    case None
    note h = ReadU32_shape(1,2) [OF l [unfolded None]]
    note s = readSlice_shape [OF l [unfolded None h(1)] k0, of read what]
    let ?rem = "word_of_int (int (length (data r')) - int (offset r')) :: uint32"
    have o: "offset r' \<le> length (data r')" using h by simp
    then have "?rem = of_nat (length (unread r'))" by (simp add: of_nat_diff)
    then have rem: "unat ?rem = length (unread r')"
      using small h(1) by (simp add: unsigned_of_nat take_bit_nat_eq_self)
    have "unat (len * kw) = unat len * k"
      using word_mult_no_wrap [of len kw] fits l k by (simp add: promised_def)
    then have g: "len * kw > ?rem \<longleftrightarrow> length (drop 4 (unread r)) < unat len * k"
      using rem h(1) by (simp add: word_less_nat_alt)
    show ?thesis
    proof (cases "len = 0 \<or> len * kw > ?rem")
      case True
      then show ?thesis using s g by (auto simp: br_slice_def run br_Remaining_def drop_err_def h(1))
    next
      case False
      then have "unat len * k \<le> length (unread r')" using g h(1) by simp
      from scalar_reader.loop_agrees [OF sr m this] show ?thesis
        using False s g h(1) by (auto simp: br_slice_def run br_Remaining_def)
    qed
  qed
qed

lemmas slices_agree =
  slice_agrees [OF rd_pubkey.scalar_reader_axioms scalars_agree(6), of 32 _ "''pubkeys''", folded ReadPubkeySlice_def br_ReadPubkeySlice_def]
  slice_agrees [OF rd_net.scalar_reader_axioms scalars_agree(8), of 5 _ "''network_v4''", folded ReadNetworkV4Slice_def br_ReadNetworkV4Slice_def]
  slice_agrees [OF rd_ipv4.scalar_reader_axioms scalars_agree(7), of 4 _ "''ipv4''", folded br_ReadIPv4Slice_def]



lemma loop_at_end:
  assumes "run_state m r = (z, r)"
  shows "run_state (br_loop m n) r = (replicate n z, r)"
  by (induction n) (simp_all add: assms)

text \<open>
  C38. The guards of the slice readers do not protect against a corrupt length prefix: \<open>length * 32\<close>
  wraps around, so that four bytes of account data make \<open>ReadPubkeySlice\<close> return 2^27 zero keys
  that nobody wrote, where the checked reader reports that the data are missing.
\<close>

theorem wrapped_guard_returns_phantom_keys:
  "run_state br_ReadPubkeySlice (NewByteReader (le_bytes 4 (2 ^ 27 :: uint32))) =
     (replicate (2 ^ 27) (replicate 32 0), advance 4 (NewByteReader (le_bytes 4 (2 ^ 27 :: uint32)))) \<and>
   fst (snd (ReadPubkeySlice (NewByteReader (le_bytes 4 (2 ^ 27 :: uint32))))) = Some (NotEnough ''pubkeys'' (2 ^ 27) 4)"
proof -
  define r where "r = NewByteReader (le_bytes 4 (2 ^ 27 :: uint32))"
  have p: "prefixed (2 ^ 27) [] (le_bytes 4 (2 ^ 27 :: uint32))" "unread r = le_bytes 4 (2 ^ 27 :: uint32) @ []"
    by (simp_all add: prefixed_def r_def NewByteReader_def unread_def)
  note l = ReadU32_prefix [OF p, unfolded append.simps]
  have e: "offset (advance 4 r) = 4" "length (data (advance 4 r)) = 4" by (simp_all add: r_def NewByteReader_def)
  have z: "run_state br_ReadPubkey (advance 4 r) = (replicate 32 0, advance 4 r)"
    by (simp add: br_ReadPubkey_def e [unfolded offset_advance data_advance])
  have w: "(4294967296 :: uint32) = 0" using word_exp_length_eq_0 [where 'a = 32] by simp
  have "run_state br_ReadPubkeySlice r = run_state (br_loop br_ReadPubkey (unat (of_nat (2 ^ 27) :: uint32))) (advance 4 r)"
    unfolding br_ReadPubkeySlice_def br_slice_def run_bind scalars_agree(3) l(1)
    by (simp add: drop_err_def br_Remaining_def w)
  also have "\<dots> = (replicate (2 ^ 27) (replicate 32 0), advance 4 r)"
    unfolding l(2) by (rule loop_at_end [OF z])
  finally have 1: "run_state br_ReadPubkeySlice r = (replicate (2 ^ 27) (replicate 32 0), advance 4 r)" .
  have "length (drop 4 (unread r)) < unat (of_nat (2 ^ 27) :: uint32) * 32" unfolding l(2) p(2) by simp
  then have 2: "fst (snd (ReadPubkeySlice r)) = Some (NotEnough ''pubkeys'' (2 ^ 27) 4)"
    unfolding ReadPubkeySlice_def using readSlice_shape [OF l(1), of 32 ReadPubkey "''pubkeys''"] l(2) e(1) by simp
  from 1 2 show ?thesis unfolding r_def by blast
qed

subsection \<open>The contract of a field\<close>

text \<open>
  \<open>yields m bs ys x\<close>: with \<open>bs\<close> and then \<open>ys\<close> left to read, \<open>m\<close> returns \<open>x\<close> and stops behind \<open>bs\<close>.
  Account data are smaller than 4 GiB, and the cursor is within them.
\<close>

definition cursor_small :: "Reader \<Rightarrow> bool" where
  "cursor_small r \<longleftrightarrow> offset r \<le> length (data r) \<and> length (data r) < 2 ^ 32"

definition yields :: "'a br \<Rightarrow> byte list \<Rightarrow> byte list \<Rightarrow> 'a \<Rightarrow> bool" where
  "yields m bs ys x \<longleftrightarrow> (\<forall>r. cursor_small r \<and> unread r = bs @ ys \<longrightarrow>
     run_state m r = (x, advance (length bs) r))"

lemma yieldsI:
  "(\<And>r. cursor_small r \<Longrightarrow> unread r = bs @ ys \<Longrightarrow> run_state m r = (x, advance (length bs) r)) \<Longrightarrow>
   yields m bs ys x"
  by (simp add: yields_def)

lemma yieldsD: "yields m bs ys x \<Longrightarrow> cursor_small r \<Longrightarrow> unread r = bs @ ys \<Longrightarrow>
    run_state m r = (x, advance (length bs) r)"
  by (simp add: yields_def)

lemma yields_bind:
  assumes "yields m bs (cs @ ys) x" and "yields (f x) cs ys y"
  shows "yields (m \<bind> f) (bs @ cs) ys y"
proof (rule yieldsI)
  fix r
  assume l: "cursor_small r" and u: "unread r = (bs @ cs) @ ys"
  then have "run_state m r = (x, advance (length bs) r)" using assms(1) by (intro yieldsD) simp_all
  moreover have "cursor_small (advance (length bs) r)" using l u by (auto simp: cursor_small_def dest: arg_cong [where f = length])
  then have "run_state (f x) (advance (length bs) r) = (y, advance (length cs) (advance (length bs) r))"
    using assms(2) u by (intro yieldsD) simp_all
  ultimately show "run_state (m \<bind> f) r = (y, advance (length (bs @ cs)) r)" by simp
qed

lemma yields_return: "yields (State_Monad.return x) [] ys x"
  by (simp add: yields_def)

lemma yields_small: "(length (bs @ ys) < 2 ^ 32 \<Longrightarrow> yields m bs ys x) \<Longrightarrow> yields m bs ys x"
proof (rule yieldsI)
  fix r
  assume y: "length (bs @ ys) < 2 ^ 32 \<Longrightarrow> yields m bs ys x" and c: "cursor_small r" and u: "unread r = bs @ ys"
  have "length (bs @ ys) \<le> length (data r)" by (simp only: u [symmetric] length_unread diff_le_self)
  then have "length (bs @ ys) < 2 ^ 32" using c unfolding cursor_small_def by linarith
  from y [OF this] c u show "run_state m r = (x, advance (length bs) r)" by (rule yieldsD)
qed

lemma run_Remaining: "cursor_small r \<Longrightarrow> run_state br_Remaining r = (of_nat (length (unread r)), r)"
  by (simp add: br_Remaining_def cursor_small_def of_nat_diff)

lemma yields_Remaining: "yields br_Remaining [] ys (of_nat (length ys))"
proof (rule yieldsI)
  fix r
  assume "cursor_small r" and "unread r = [] @ ys"
  then show "run_state br_Remaining r = (of_nat (length ys), advance (length []) r)"
    by (simp add: run_Remaining del: length_unread)
qed

lemma yields_loop:
  assumes "\<And>x ys. x \<in> set xs \<Longrightarrow> yields rd (enc x) ys (f x)"
  shows "yields (br_loop rd (length xs)) (concat (map enc xs)) ys (map f xs)"
  using assms
proof (induction xs)
  case Nil
  then show ?case by (simp add: yields_return)
next
  case (Cons x xs)
  have "yields (br_loop rd (length xs)) (concat (map enc xs)) ys (map f xs)" using Cons by simp
  then have "yields (br_loop rd (length xs) \<bind> (\<lambda>v. State_Monad.return (f x # v))) (concat (map enc xs)) ys (map f (x # xs))"
    by (rule yields_bind [where cs = "[]", simplified]) (simp add: yields_return)
  moreover have "yields rd (enc x) (concat (map enc xs) @ ys) (f x)" using Cons.prems by simp
  ultimately show ?case by (simp add: yields_bind)
qed

lemma yields_last:
  assumes "yields m bs ys x" and "yields (f x) [] ys y"
  shows "yields (m \<bind> f) bs ys y"
  using yields_bind [of m bs "[]" ys x f y] assms by simp

text \<open>\<open>s.Field = reader.Read()\<close>, with the update function of the field.\<close>

definition assign :: "'a br \<Rightarrow> (('a \<Rightarrow> 'a) \<Rightarrow> 's \<Rightarrow> 's) \<Rightarrow> 's \<Rightarrow> 's br" where
  "assign rd u s = do { x \<leftarrow> rd; State_Monad.return (u (\<lambda>_. x) s) }"

lemma yields_assign: "yields rd bs ys x \<Longrightarrow> yields (assign rd u s) bs ys (u (\<lambda>_. x) s)"
  unfolding assign_def by (rule yields_last) (auto intro: yields_return)

locale field_reader =
  fixes rd :: "'a br" and enc :: "'a \<Rightarrow> byte list" and ok :: "'a \<Rightarrow> bool" and zero :: 'a
  assumes rd_enc: "ok x \<Longrightarrow> yields rd (enc x) ys x"
    and rd_missing: "yields rd [] [] zero"
begin

lemma assign_then:
  assumes "yields (f (u (\<lambda>_. x) s)) bs ys y" and "ok x"
  shows "yields (assign rd u s \<bind> f) (enc x @ bs) ys y"
  by (rule yields_bind [where x = "u (\<lambda>_. x) s"]) (rule yields_assign rd_enc assms)+

lemma assign_last: "ok x \<Longrightarrow> yields (assign rd u s) (enc x) ys (u (\<lambda>_. x) s)"
  by (intro yields_assign rd_enc)

lemma assign_missing: "yields (assign rd u s) [] [] (u (\<lambda>_. zero) s)"
  by (intro yields_assign rd_missing)

lemma skip_then:
  assumes "yields f bs ys y" and "ok x"
  shows "yields (rd \<bind> (\<lambda>_. f)) (enc x @ bs) ys y"
  by (rule yields_bind [OF rd_enc [OF assms(2)] assms(1)])

lemma missing_then:
  assumes "yields (f (u (\<lambda>_. zero) s)) [] [] y"
  shows "yields (assign rd u s \<bind> f) [] [] y"
  by (rule yields_last [where x = "u (\<lambda>_. zero) s"]) (rule assign_missing assms)+

end

text \<open>A read that agrees with a scalar of the checked reader.\<close>

lemma scalar_field:
  assumes "\<And>r. run_state m r = drop_err (scalar k z what f r)" and "0 < k"
    and "\<And>x. ok x \<Longrightarrow> length (enc x) = k \<and> f (enc x) = x"
  shows "field_reader m enc ok z"
proof
  show "yields m (enc x) ys x" if "ok x" for x ys
    using assms(3) [OF that] by (intro yieldsI) (simp add: assms(1) scalar_def drop_err_def del: length_unread)
  show "yields m [] [] z"
    using assms(2) by (intro yieldsI) (simp add: assms(1) scalar_def drop_err_def del: length_unread)
qed

lemma le_word_bytes:
  "le_word (le_bytes 2 (v2 :: uint16)) = v2" "le_word (le_bytes 4 (v4 :: uint32)) = v4" "le_word (le_bytes 8 (v8 :: uint64)) = v8"
  by simp_all

interpretation f_u8: field_reader br_ReadU8 "\<lambda>v. [v]" "\<lambda>_. True" 0
  by (rule scalar_field [where k = 1 and f = hd]) (simp_all add: scalars_agree scalars)

interpretation f_u16: field_reader br_ReadU16 "le_bytes 2" "\<lambda>_. True" 0
  by (rule scalar_field [where k = 2 and f = le_word]) (simp_all add: scalars_agree scalars)

interpretation f_u32: field_reader br_ReadU32 "le_bytes 4" "\<lambda>_. True" 0
  by (rule scalar_field [where k = 4 and f = le_word]) (simp_all add: scalars_agree scalars)

interpretation f_u64: field_reader br_ReadU64 "le_bytes 8" "\<lambda>_. True" 0
  by (rule scalar_field [where k = 8 and f = le_word]) (simp_all add: scalars_agree scalars)

definition f64_bits :: "float64 \<Rightarrow> uint64" where
  "f64_bits v = (case v of Float64frombits b \<Rightarrow> b)"

interpretation f_f64: field_reader br_ReadF64 "\<lambda>v. le_bytes 8 (f64_bits v)" "\<lambda>_. True" "Float64frombits 0"
  by (rule scalar_field [where k = 8 and f = "\<lambda>bs. Float64frombits (le_word bs)"])
    (simp_all add: scalars_agree scalars f64_bits_def split: float64.split)

interpretation f_pubkey: field_reader br_ReadPubkey "\<lambda>v. v" "\<lambda>v. length v = 32" "replicate 32 0"
  by (rule scalar_field [where k = 32 and f = id]) (simp_all add: scalars_agree scalars)

interpretation f_ipv4: field_reader br_ReadIPv4 "\<lambda>v. v" "\<lambda>v. length v = 4" "replicate 4 0"
  by (rule scalar_field [where k = 4 and f = id]) (simp_all add: scalars_agree scalars)

interpretation f_net: field_reader br_ReadNetworkV4 "\<lambda>v. v" "\<lambda>v. length v = 5" "replicate 5 0"
  by (rule scalar_field [where k = 5 and f = id]) (simp_all add: scalars_agree scalars)

definition enc_u128 :: "Uint128 \<Rightarrow> byte list" where
  "enc_u128 v = le_bytes 8 (High v) @ le_bytes 8 (Low v)"

interpretation f_u128: field_reader br_ReadU128 enc_u128 "\<lambda>_. True" "\<lparr>High = 0, Low = 0\<rparr>"
proof (rule scalar_field [where k = 16 and f = uint128_of])
  show "run_state br_ReadU128 r = drop_err (scalar 16 \<lparr>High = 0, Low = 0\<rparr> ''u128'' uint128_of r)" for r
  proof -
    have "uint128_of (replicate 16 0) = \<lparr>High = 0, Low = 0\<rparr>"
      by (simp add: uint128_of_def eval_nat_numeral)
    then show ?thesis
      by (simp add: u128_agrees scalars scalar_def drop_err_def)
  qed
  show "length (enc_u128 x) = 16 \<and> uint128_of (enc_u128 x) = x" for x
    by (simp add: enc_u128_def uint128_of_def)
qed simp

definition enc_string :: "byte list \<Rightarrow> byte list" where
  "enc_string s = le_bytes 4 (of_nat (length s) :: uint32) @ s"

interpretation f_string: field_reader br_ReadString enc_string "\<lambda>s. length s < 2 ^ 32" "[]"
proof
  show "yields br_ReadString (enc_string s) ys s" if "length s < 2 ^ 32" for s ys
  proof (rule yieldsI)
    fix r
    assume u: "unread r = enc_string s @ ys"
    have "string_codes (enc_string s) s" using that by (simp add: string_codes_def prefixed_def enc_string_def)
    from rd_string.read_complete [OF this u] show "run_state br_ReadString r = (s, advance (length (enc_string s)) r)"
      by (simp add: string_agrees drop_err_def)
  qed
  show "yields br_ReadString [] [] []"
    by (rule yieldsI)
      (simp add: string_agrees ReadString_def scalars scalar_def drop_err_def del: length_unread)
qed

definition enc_slice :: "byte list list \<Rightarrow> byte list" where
  "enc_slice xs = le_bytes 4 (of_nat (length xs) :: uint32) @ concat xs"

definition slice_ok :: "nat \<Rightarrow> byte list list \<Rightarrow> bool" where
  "slice_ok k xs \<longleftrightarrow> length xs * k < 2 ^ 32 \<and> list_all (\<lambda>x. length x = k) xs"

lemma slice_codes_raw:
  assumes "slice_ok k xs" and "0 < k"
  shows "slice_codes (scalar_codes k id) (enc_slice xs) xs"
proof -
  have "length xs \<le> length xs * k" using assms(2) by simp
  moreover have "length xs * k < 2 ^ 32" using assms(1) by (simp add: slice_ok_def)
  ultimately have "length xs < 2 ^ 32" by linarith
  moreover have "list_all2 (scalar_codes k id) xs xs"
    using assms(1) by (simp add: slice_ok_def list_all2_same list_all_iff scalar_codes_def)
  ultimately show ?thesis by (auto simp: slice_codes_def prefixed_def enc_slice_def)
qed

lemma slice_field:
  assumes agree: "\<And>r. length (data r) < 2 ^ 32 \<Longrightarrow> promised r * k < 2 ^ 32 \<Longrightarrow> run_state m r = drop_err (read r)"
    and read: "cursor_reader read (slice_codes (scalar_codes k id))" and "0 < k"
    and short: "\<And>r. unread r = [] \<Longrightarrow> drop_err (read r) = ([], r)"
  shows "field_reader m enc_slice (slice_ok k) []"
proof
  show "yields m (enc_slice xs) ys xs" if ok: "slice_ok k xs" for xs ys
  proof (rule yieldsI)
    fix r
    assume "cursor_small r" and u: "unread r = enc_slice xs @ ys"
    then have d: "length (data r) < 2 ^ 32" by (simp add: cursor_small_def)
    have "length xs \<le> length xs * k" using \<open>0 < k\<close> by simp
    then have n: "length xs < 2 ^ 32" using ok unfolding slice_ok_def by linarith
    then have "prefixed (length xs) (concat xs) (enc_slice xs)" by (simp add: prefixed_def enc_slice_def)
    from ReadU32_prefix(1,2) [OF this u] ok have "promised r * k < 2 ^ 32"
      by (simp add: promised_def slice_ok_def)
    from agree [OF d this] cursor_reader.read_complete [OF read slice_codes_raw [OF ok \<open>0 < k\<close>] u]
    show "run_state m r = (xs, advance (length (enc_slice xs)) r)" by (simp add: drop_err_def)
  qed
  show "yields m [] [] []"
  proof (rule yieldsI)
    fix r :: Reader
    assume "cursor_small r" and "unread r = [] @ []"
    then have d: "length (data r) < 2 ^ 32" and u: "unread r = []" by (simp_all add: cursor_small_def)
    then have "promised r * k < 2 ^ 32" by (simp add: promised_def scalars scalar_def del: length_unread)
    from agree [OF d this] short [OF u] show "run_state m r = ([], advance (length []) r)" by simp
  qed
qed

lemma slice_missing: "unread r = [] \<Longrightarrow> drop_err (readSlice rd k what r) = ([], r)"
  by (simp add: readSlice_def scalars scalar_def drop_err_def del: length_unread)

interpretation f_pubkeys: field_reader br_ReadPubkeySlice enc_slice "slice_ok 32" "[]"
  using slices_agree(1) rd_pubkeys.slices.cursor_reader_axioms
  by (rule slice_field) (simp_all add: ReadPubkeySlice_def slice_missing)

interpretation f_nets: field_reader br_ReadNetworkV4Slice enc_slice "slice_ok 5" "[]"
  using slices_agree(2) rd_nets.slices.cursor_reader_axioms
  by (rule slice_field) (simp_all add: ReadNetworkV4Slice_def slice_missing)

end
