(* ===== verification/Serviceability_State.thy ===== *)
theory Serviceability_State
  imports Byte_Reader
begin

text \<open>
  The accounts of the serviceability program as the Go SDK holds them,
  smartcontract/sdk/go/serviceability/state.go: one record per struct, its fields in the order
  and with the names of the source behind the name of the variable the code uses for it. The
  one-byte enumerations (statuses, types, tags) are \<open>uint8\<close>, as their Go types are; public keys,
  addresses and networks are byte lists; strings are their bytes; a pointer is an option.
  \<open>zeroDevice\<close> and its like are Go's zero values, which \<open>var dev Device\<close> gives.

  The theory ends with the resource pools: capacity and use of an allocator's bitmap.
\<close>

datatype deser_error = LengthMismatch nat nat

record GlobalConfig =
  cfg_AccountType :: uint8
  cfg_Owner :: "byte list"
  cfg_BumpSeed :: uint8
  cfg_LocalASN :: uint32
  cfg_RemoteASN :: uint32
  cfg_DeviceTunnelBlock :: "byte list"
  cfg_UserTunnelBlock :: "byte list"
  cfg_MulticastGroupBlock :: "byte list"
  cfg_NextBGPCommunity :: uint16
  cfg_MulticastPublisherBlock :: "byte list"
  cfg_PubKey :: "byte list"

record GlobalState =
  gs_AccountType :: uint8
  gs_BumpSeed :: uint8
  gs_AccountIndex :: Uint128
  gs_FoundationAllowlist :: "byte list list"
  gs_ActivatorAuthorityPK :: "byte list"
  gs_SentinelAuthorityPK :: "byte list"
  gs_ContributorAirdropLamports :: uint64
  gs_UserAirdropLamports :: uint64
  gs_HealthOraclePK :: "byte list"
  gs_QAAllowlist :: "byte list list"
  gs_FeatureFlags :: Uint128
  gs_FeedAuthorityPK :: "byte list"
  gs_PubKey :: "byte list"

record Location =
  loc_AccountType :: uint8
  loc_Owner :: "byte list"
  loc_Index :: Uint128
  loc_BumpSeed :: uint8
  loc_Lat :: float64
  loc_Lng :: float64
  loc_LocId :: uint32
  loc_Status :: uint8
  loc_Code :: "byte list"
  loc_Name :: "byte list"
  loc_Country :: "byte list"
  loc_ReferenceCount :: uint32
  loc_PubKey :: "byte list"

record Exchange =
  exchange_AccountType :: uint8
  exchange_Owner :: "byte list"
  exchange_Index :: Uint128
  exchange_BumpSeed :: uint8
  exchange_Lat :: float64
  exchange_Lng :: float64
  exchange_BgpCommunity :: uint16
  exchange_ReferenceCount :: uint32
  exchange_Status :: uint8
  exchange_Code :: "byte list"
  exchange_Name :: "byte list"
  exchange_Device1PK :: "byte list"
  exchange_Device2PK :: "byte list"
  exchange_PubKey :: "byte list"

record FlexAlgoNodeSegment =
  seg_Topology :: "byte list"
  seg_NodeSegmentIdx :: uint16

record Interface =
  iface_Size :: uint16
  iface_Version :: uint8
  iface_Status :: uint8
  iface_Name :: "byte list"
  iface_InterfaceType :: uint8
  iface_InterfaceCYOA :: uint8
  iface_InterfaceDIA :: uint8
  iface_LoopbackType :: uint8
  iface_Bandwidth :: uint64
  iface_Cir :: uint64
  iface_Mtu :: uint16
  iface_RoutingMode :: uint8
  iface_VlanId :: uint16
  iface_IpNet :: "byte list"
  iface_NodeSegmentIdx :: uint16
  iface_UserTunnelEndpoint :: bool
  iface_FlexAlgoNodeSegments :: "FlexAlgoNodeSegment list"

record Device =
  dev_AccountType :: uint8
  dev_Owner :: "byte list"
  dev_Index :: Uint128
  dev_BumpSeed :: uint8
  dev_LocationPubKey :: "byte list"
  dev_ExchangePubKey :: "byte list"
  dev_DeviceType :: uint8
  dev_PublicIp :: "byte list"
  dev_Status :: uint8
  dev_Code :: "byte list"
  dev_DzPrefixes :: "byte list list"
  dev_MetricsPublisherPubKey :: "byte list"
  dev_ContributorPubKey :: "byte list"
  dev_MgmtVrf :: "byte list"
  dev_DeprecatedInterfaces :: "Interface list"
  dev_ReferenceCount :: uint32
  dev_UsersCount :: uint16
  dev_MaxUsers :: uint16
  dev_DeviceHealth :: uint8
  dev_DeviceDesiredStatus :: uint8
  dev_UnicastUsersCount :: uint16
  dev_MulticastSubscribersCount :: uint16
  dev_MaxUnicastUsers :: uint16
  dev_MaxMulticastSubscribers :: uint16
  dev_ReservedSeats :: uint16
  dev_MulticastPublishersCount :: uint16
  dev_MaxMulticastPublishers :: uint16
  dev_Interfaces :: "Interface list"
  dev_DeserializeError :: "deser_error option"
  dev_PubKey :: "byte list"

record Link =
  link_AccountType :: uint8
  link_Owner :: "byte list"
  link_Index :: Uint128
  link_BumpSeed :: uint8
  link_SideAPubKey :: "byte list"
  link_SideZPubKey :: "byte list"
  link_LinkType :: uint8
  link_Bandwidth :: uint64
  link_Mtu :: uint32
  link_DelayNs :: uint64
  link_JitterNs :: uint64
  link_TunnelId :: uint16
  link_TunnelNet :: "byte list"
  link_Status :: uint8
  link_Code :: "byte list"
  link_ContributorPubKey :: "byte list"
  link_SideAIfaceName :: "byte list"
  link_SideZIfaceName :: "byte list"
  link_DelayOverrideNs :: uint64
  link_LinkHealth :: uint8
  link_LinkDesiredStatus :: uint8
  link_LinkTopologies :: "byte list list"
  link_LinkFlags :: uint32
  link_PubKey :: "byte list"

record Contributor =
  contributor_AccountType :: uint8
  contributor_Owner :: "byte list"
  contributor_Index :: Uint128
  contributor_BumpSeed :: uint8
  contributor_Status :: uint8
  contributor_Code :: "byte list"
  contributor_ReferenceCount :: uint32
  contributor_OpsManagerPK :: "byte list"
  contributor_PubKey :: "byte list"

record Tenant =
  tenant_AccountType :: uint8
  tenant_Owner :: "byte list"
  tenant_BumpSeed :: uint8
  tenant_Code :: "byte list"
  tenant_VrfId :: uint16
  tenant_ReferenceCount :: uint32
  tenant_Administrators :: "byte list list"
  tenant_PaymentStatus :: uint8
  tenant_TokenAccount :: "byte list"
  tenant_MetroRouting :: bool
  tenant_RouteLiveness :: bool
  tenant_BillingDiscriminant :: uint8
  tenant_BillingRate :: uint64
  tenant_BillingLastDeductionDzEpoch :: uint64
  tenant_IncludeTopologies :: "byte list list"
  tenant_PubKey :: "byte list"

record User =
  user_AccountType :: uint8
  user_Owner :: "byte list"
  user_Index :: Uint128
  user_BumpSeed :: uint8
  user_UserType :: uint8
  user_TenantPubKey :: "byte list"
  user_DevicePubKey :: "byte list"
  user_CyoaType :: uint8
  user_ClientIp :: "byte list"
  user_DzIp :: "byte list"
  user_TunnelId :: uint16
  user_TunnelNet :: "byte list"
  user_Status :: uint8
  user_Publishers :: "byte list list"
  user_Subscribers :: "byte list list"
  user_ValidatorPubKey :: "byte list"
  user_TunnelEndpoint :: "byte list"
  user_TunnelFlags :: uint8
  user_BgpStatus :: uint8
  user_LastBgpUpAt :: uint64
  user_LastBgpReportedAt :: uint64
  user_BgpRttNs :: uint64
  user_FeedPk :: "byte list"
  user_PubKey :: "byte list"

record MulticastGroup =
  mg_AccountType :: uint8
  mg_Owner :: "byte list"
  mg_Index :: Uint128
  mg_BumpSeed :: uint8
  mg_TenantPubKey :: "byte list"
  mg_MulticastIp :: "byte list"
  mg_MaxBandwidth :: uint64
  mg_Status :: uint8
  mg_Code :: "byte list"
  mg_PublisherCount :: uint32
  mg_SubscriberCount :: uint32
  mg_PubKey :: "byte list"

record ProgramVersion =
  pv_Major :: uint32
  pv_Minor :: uint32
  pv_Patch :: uint32

record ProgramConfig =
  pc_AccountType :: uint8
  pc_BumpSeed :: uint8
  pc_Version :: ProgramVersion
  pc_MinCompatVersion :: ProgramVersion

record FeedSeat =
  seat_FeedKey :: "byte list"
  seat_MaxUsers :: uint8
  seat_MaxFutureUsers :: uint8
  seat_CurrentUsers :: uint8
  seat_AnniversaryDay :: uint8
  seat_WindowEnd :: int
  seat_TerminatesAt :: int

record AccessPass =
  ap_AccountType :: uint8
  ap_Owner :: "byte list"
  ap_BumpSeed :: uint8
  ap_AccessPassTypeTag :: uint8
  ap_AssociatedPubkey :: "byte list"
  ap_OthersTypeName :: "byte list"
  ap_OthersKey :: "byte list"
  ap_FeedSeats :: "FeedSeat list"
  ap_ClientIp :: "byte list"
  ap_UserPayer :: "byte list"
  ap_LastAccessEpoch :: uint64
  ap_ConnectionCount :: uint16
  ap_Status :: uint8
  ap_MGroupPubAllowlist :: "byte list list"
  ap_MGroupSubAllowlist :: "byte list list"
  ap_Flags :: uint8
  ap_TenantAllowlist :: "byte list list"
  ap_UnicastUserCount :: uint16
  ap_MaxUnicastUsers :: uint16
  ap_MulticastUserCount :: uint16
  ap_MaxMulticastUsers :: uint16
  ap_PubKey :: "byte list"

record IpAllocator =
  ipa_BaseNet :: "byte list"
  ipa_FirstFreeIndex :: uint64

record IdAllocator =
  ida_RangeStart :: uint16
  ida_RangeEnd :: uint16
  ida_FirstFreeIndex :: uint64

record Allocator =
  alloc_Type :: uint8
  alloc_IpAllocator :: "IpAllocator option"
  alloc_IdAllocator :: "IdAllocator option"

record ResourceExtension =
  ext_AccountType :: uint8
  ext_Owner :: "byte list"
  ext_BumpSeed :: uint8
  ext_AssociatedWith :: "byte list"
  ext_Allocator :: Allocator
  ext_Storage :: "byte list"
  ext_PubKey :: "byte list"

record Permission =
  perm_AccountType :: uint8
  perm_Owner :: "byte list"
  perm_BumpSeed :: uint8
  perm_Status :: uint8
  perm_UserPayer :: "byte list"
  perm_PermissionsLo :: uint64
  perm_PermissionsHi :: uint64
  perm_PubKey :: "byte list"

record TopologyInfo =
  topo_AccountType :: uint8
  topo_Owner :: "byte list"
  topo_BumpSeed :: uint8
  topo_Name :: "byte list"
  topo_AdminGroupBit :: uint8
  topo_FlexAlgoNumber :: uint8
  topo_Constraint :: uint8
  topo_ReferenceCount :: uint32
  topo_PubKey :: "byte list"

record Feed =
  feed_AccountType :: uint8
  feed_Owner :: "byte list"
  feed_BumpSeed :: uint8
  feed_Code :: "byte list"
  feed_Name :: "byte list"
  feed_Exchange :: "byte list"
  feed_Groups :: "byte list list"
  feed_PubKey :: "byte list"

subsection \<open>Zero values\<close>

definition zeroGlobalConfig :: GlobalConfig where
  "zeroGlobalConfig = \<lparr>cfg_AccountType = 0, cfg_Owner = replicate 32 0, cfg_BumpSeed = 0, cfg_LocalASN = 0,
     cfg_RemoteASN = 0, cfg_DeviceTunnelBlock = replicate 5 0, cfg_UserTunnelBlock = replicate 5 0,
     cfg_MulticastGroupBlock = replicate 5 0, cfg_NextBGPCommunity = 0, cfg_MulticastPublisherBlock = replicate 5 0,
     cfg_PubKey = replicate 32 0\<rparr>"

definition zeroGlobalState :: GlobalState where
  "zeroGlobalState = \<lparr>gs_AccountType = 0, gs_BumpSeed = 0, gs_AccountIndex = \<lparr>High = 0, Low =
     0\<rparr>, gs_FoundationAllowlist = [], gs_ActivatorAuthorityPK = replicate 32 0, gs_SentinelAuthorityPK =
     replicate 32 0, gs_ContributorAirdropLamports = 0, gs_UserAirdropLamports = 0, gs_HealthOraclePK = replicate 32
     0, gs_QAAllowlist = [], gs_FeatureFlags = \<lparr>High = 0, Low = 0\<rparr>, gs_FeedAuthorityPK = replicate 32
     0, gs_PubKey = replicate 32 0\<rparr>"

definition zeroLocation :: Location where
  "zeroLocation = \<lparr>loc_AccountType = 0, loc_Owner = replicate 32 0, loc_Index = \<lparr>High = 0, Low =
     0\<rparr>, loc_BumpSeed = 0, loc_Lat = Float64frombits 0, loc_Lng = Float64frombits 0, loc_LocId = 0, loc_Status
     = 0, loc_Code = [], loc_Name = [], loc_Country = [], loc_ReferenceCount = 0, loc_PubKey = replicate 32
     0\<rparr>"

definition zeroExchange :: Exchange where
  "zeroExchange = \<lparr>exchange_AccountType = 0, exchange_Owner = replicate 32 0, exchange_Index = \<lparr>High
     = 0, Low = 0\<rparr>, exchange_BumpSeed = 0, exchange_Lat = Float64frombits 0, exchange_Lng = Float64frombits 0,
     exchange_BgpCommunity = 0, exchange_ReferenceCount = 0, exchange_Status = 0, exchange_Code = [], exchange_Name =
     [], exchange_Device1PK = replicate 32 0, exchange_Device2PK = replicate 32 0, exchange_PubKey = replicate 32
     0\<rparr>"

definition zeroInterface :: Interface where
  "zeroInterface = \<lparr>iface_Size = 0, iface_Version = 0, iface_Status = 0, iface_Name = [],
     iface_InterfaceType = 0, iface_InterfaceCYOA = 0, iface_InterfaceDIA = 0, iface_LoopbackType = 0,
     iface_Bandwidth = 0, iface_Cir = 0, iface_Mtu = 0, iface_RoutingMode = 0, iface_VlanId = 0, iface_IpNet =
     replicate 5 0, iface_NodeSegmentIdx = 0, iface_UserTunnelEndpoint = False, iface_FlexAlgoNodeSegments =
     []\<rparr>"

definition zeroDevice :: Device where
  "zeroDevice = \<lparr>dev_AccountType = 0, dev_Owner = replicate 32 0, dev_Index = \<lparr>High = 0, Low =
     0\<rparr>, dev_BumpSeed = 0, dev_LocationPubKey = replicate 32 0, dev_ExchangePubKey = replicate 32 0,
     dev_DeviceType = 0, dev_PublicIp = replicate 4 0, dev_Status = 0, dev_Code = [], dev_DzPrefixes = [],
     dev_MetricsPublisherPubKey = replicate 32 0, dev_ContributorPubKey = replicate 32 0, dev_MgmtVrf = [],
     dev_DeprecatedInterfaces = [], dev_ReferenceCount = 0, dev_UsersCount = 0, dev_MaxUsers = 0, dev_DeviceHealth =
     0, dev_DeviceDesiredStatus = 0, dev_UnicastUsersCount = 0, dev_MulticastSubscribersCount = 0,
     dev_MaxUnicastUsers = 0, dev_MaxMulticastSubscribers = 0, dev_ReservedSeats = 0, dev_MulticastPublishersCount =
     0, dev_MaxMulticastPublishers = 0, dev_Interfaces = [], dev_DeserializeError = None, dev_PubKey = replicate 32
     0\<rparr>"

definition zeroLink :: Link where
  "zeroLink = \<lparr>link_AccountType = 0, link_Owner = replicate 32 0, link_Index = \<lparr>High = 0, Low =
     0\<rparr>, link_BumpSeed = 0, link_SideAPubKey = replicate 32 0, link_SideZPubKey = replicate 32 0,
     link_LinkType = 0, link_Bandwidth = 0, link_Mtu = 0, link_DelayNs = 0, link_JitterNs = 0, link_TunnelId = 0,
     link_TunnelNet = replicate 5 0, link_Status = 0, link_Code = [], link_ContributorPubKey = replicate 32 0,
     link_SideAIfaceName = [], link_SideZIfaceName = [], link_DelayOverrideNs = 0, link_LinkHealth = 0,
     link_LinkDesiredStatus = 0, link_LinkTopologies = [], link_LinkFlags = 0, link_PubKey = replicate 32 0\<rparr>"

definition zeroContributor :: Contributor where
  "zeroContributor = \<lparr>contributor_AccountType = 0, contributor_Owner = replicate 32 0, contributor_Index =
     \<lparr>High = 0, Low = 0\<rparr>, contributor_BumpSeed = 0, contributor_Status = 0, contributor_Code = [],
     contributor_ReferenceCount = 0, contributor_OpsManagerPK = replicate 32 0, contributor_PubKey = replicate 32
     0\<rparr>"

definition zeroTenant :: Tenant where
  "zeroTenant = \<lparr>tenant_AccountType = 0, tenant_Owner = replicate 32 0, tenant_BumpSeed = 0, tenant_Code =
     [], tenant_VrfId = 0, tenant_ReferenceCount = 0, tenant_Administrators = [], tenant_PaymentStatus = 0,
     tenant_TokenAccount = replicate 32 0, tenant_MetroRouting = False, tenant_RouteLiveness = False,
     tenant_BillingDiscriminant = 0, tenant_BillingRate = 0, tenant_BillingLastDeductionDzEpoch = 0,
     tenant_IncludeTopologies = [], tenant_PubKey = replicate 32 0\<rparr>"

definition zeroUser :: User where
  "zeroUser = \<lparr>user_AccountType = 0, user_Owner = replicate 32 0, user_Index = \<lparr>High = 0, Low =
     0\<rparr>, user_BumpSeed = 0, user_UserType = 0, user_TenantPubKey = replicate 32 0, user_DevicePubKey =
     replicate 32 0, user_CyoaType = 0, user_ClientIp = replicate 4 0, user_DzIp = replicate 4 0, user_TunnelId = 0,
     user_TunnelNet = replicate 5 0, user_Status = 0, user_Publishers = [], user_Subscribers = [],
     user_ValidatorPubKey = replicate 32 0, user_TunnelEndpoint = replicate 4 0, user_TunnelFlags = 0, user_BgpStatus
     = 0, user_LastBgpUpAt = 0, user_LastBgpReportedAt = 0, user_BgpRttNs = 0, user_FeedPk = replicate 32 0,
     user_PubKey = replicate 32 0\<rparr>"

definition zeroMulticastGroup :: MulticastGroup where
  "zeroMulticastGroup = \<lparr>mg_AccountType = 0, mg_Owner = replicate 32 0, mg_Index = \<lparr>High = 0, Low =
     0\<rparr>, mg_BumpSeed = 0, mg_TenantPubKey = replicate 32 0, mg_MulticastIp = replicate 4 0, mg_MaxBandwidth =
     0, mg_Status = 0, mg_Code = [], mg_PublisherCount = 0, mg_SubscriberCount = 0, mg_PubKey = replicate 32
     0\<rparr>"

definition zeroProgramVersion :: ProgramVersion where
  "zeroProgramVersion = \<lparr>pv_Major = 0, pv_Minor = 0, pv_Patch = 0\<rparr>"

definition zeroProgramConfig :: ProgramConfig where
  "zeroProgramConfig = \<lparr>pc_AccountType = 0, pc_BumpSeed = 0, pc_Version = zeroProgramVersion,
     pc_MinCompatVersion = zeroProgramVersion\<rparr>"

definition zeroAccessPass :: AccessPass where
  "zeroAccessPass = \<lparr>ap_AccountType = 0, ap_Owner = replicate 32 0, ap_BumpSeed = 0, ap_AccessPassTypeTag =
     0, ap_AssociatedPubkey = replicate 32 0, ap_OthersTypeName = [], ap_OthersKey = [], ap_FeedSeats = [],
     ap_ClientIp = replicate 4 0, ap_UserPayer = replicate 32 0, ap_LastAccessEpoch = 0, ap_ConnectionCount = 0,
     ap_Status = 0, ap_MGroupPubAllowlist = [], ap_MGroupSubAllowlist = [], ap_Flags = 0, ap_TenantAllowlist = [],
     ap_UnicastUserCount = 0, ap_MaxUnicastUsers = 0, ap_MulticastUserCount = 0, ap_MaxMulticastUsers = 0, ap_PubKey
     = replicate 32 0\<rparr>"

definition zeroAllocator :: Allocator where
  "zeroAllocator = \<lparr>alloc_Type = 0, alloc_IpAllocator = None, alloc_IdAllocator = None\<rparr>"

definition zeroResourceExtension :: ResourceExtension where
  "zeroResourceExtension = \<lparr>ext_AccountType = 0, ext_Owner = replicate 32 0, ext_BumpSeed = 0,
     ext_AssociatedWith = replicate 32 0, ext_Allocator = zeroAllocator, ext_Storage = [], ext_PubKey = replicate 32
     0\<rparr>"

definition zeroPermission :: Permission where
  "zeroPermission = \<lparr>perm_AccountType = 0, perm_Owner = replicate 32 0, perm_BumpSeed = 0, perm_Status = 0,
     perm_UserPayer = replicate 32 0, perm_PermissionsLo = 0, perm_PermissionsHi = 0, perm_PubKey = replicate 32
     0\<rparr>"

definition zeroTopologyInfo :: TopologyInfo where
  "zeroTopologyInfo = \<lparr>topo_AccountType = 0, topo_Owner = replicate 32 0, topo_BumpSeed = 0, topo_Name =
     [], topo_AdminGroupBit = 0, topo_FlexAlgoNumber = 0, topo_Constraint = 0, topo_ReferenceCount = 0, topo_PubKey =
     replicate 32 0\<rparr>"

definition zeroFeed :: Feed where
  "zeroFeed = \<lparr>feed_AccountType = 0, feed_Owner = replicate 32 0, feed_BumpSeed = 0, feed_Code = [],
     feed_Name = [], feed_Exchange = replicate 32 0, feed_Groups = [], feed_PubKey = replicate 32 0\<rparr>"

subsection \<open>Account types and tags\<close>

definition GlobalStateType :: uint8 where "GlobalStateType = 1"
definition GlobalConfigType :: uint8 where "GlobalConfigType = 2"
definition LocationType :: uint8 where "LocationType = 3"
definition ExchangeType :: uint8 where "ExchangeType = 4"
definition DeviceType :: uint8 where "DeviceType = 5"
definition LinkType :: uint8 where "LinkType = 6"
definition UserType :: uint8 where "UserType = 7"
definition MulticastGroupType :: uint8 where "MulticastGroupType = 8"
definition ProgramConfigType :: uint8 where "ProgramConfigType = 9"
definition ContributorType :: uint8 where "ContributorType = 10"
definition AccessPassType :: uint8 where "AccessPassType = 11"
definition ResourceExtensionType :: uint8 where "ResourceExtensionType = 12"
definition TenantType :: uint8 where "TenantType = 13"
definition PermissionType :: uint8 where "PermissionType = 15"
definition IndexType :: uint8 where "IndexType = 16"
definition TopologyType :: uint8 where "TopologyType = 17"
definition FeedType :: uint8 where "FeedType = 18"

lemmas account_types = GlobalStateType_def GlobalConfigType_def LocationType_def ExchangeType_def DeviceType_def
  LinkType_def UserType_def MulticastGroupType_def ProgramConfigType_def ContributorType_def AccessPassType_def
  ResourceExtensionType_def TenantType_def PermissionType_def IndexType_def TopologyType_def FeedType_def

definition AllocatorTypeIp :: uint8 where "AllocatorTypeIp = 0"
definition AllocatorTypeId :: uint8 where "AllocatorTypeId = 1"

definition AccessPassTypePrepaid :: uint8 where "AccessPassTypePrepaid = 0"
definition AccessPassTypeSolanaValidator :: uint8 where "AccessPassTypeSolanaValidator = 1"
definition AccessPassTypeSolanaRPC :: uint8 where "AccessPassTypeSolanaRPC = 2"
definition AccessPassTypeOthers :: uint8 where "AccessPassTypeOthers = 3"
definition AccessPassTypeEdgeSeat :: uint8 where "AccessPassTypeEdgeSeat = 4"

lemmas tag_defs = AllocatorTypeIp_def AllocatorTypeId_def AccessPassTypePrepaid_def AccessPassTypeSolanaValidator_def
  AccessPassTypeSolanaRPC_def AccessPassTypeOthers_def AccessPassTypeEdgeSeat_def

definition CurrentInterfaceVersion :: uint8 where "CurrentInterfaceVersion = 4"

subsection \<open>Resource pools\<close>

text \<open>
  \<open>RangeEnd - RangeStart\<close> is \<open>uint16\<close> arithmetic: a range that ends before it starts has a
  huge capacity, not none.
\<close>

definition TotalCapacity :: "ResourceExtension \<Rightarrow> int" where
  "TotalCapacity r = (let a = ext_Allocator r in
     if alloc_Type a = AllocatorTypeIp then
       (case alloc_IpAllocator a of None \<Rightarrow> 0
        | Some ip \<Rightarrow> let prefixLen = unat (ipa_BaseNet ip ! 4) in
            if prefixLen > 32 then 0 else 2 ^ (32 - prefixLen))
     else if alloc_Type a = AllocatorTypeId then
       (case alloc_IdAllocator a of None \<Rightarrow> 0
        | Some i \<Rightarrow> uint (ida_RangeEnd i - ida_RangeStart i))
     else 0)"

text \<open>\<open>for b != 0 \{ count += int(b & 1); b >>= 1 \}\<close>, which returns nothing if it does not end.\<close>

partial_function (option) bitLoop :: "int \<Rightarrow> byte \<Rightarrow> int option" where
  "bitLoop count b = (if b = 0 then Some count else bitLoop (count + uint (b AND 1)) (drop_bit 1 b))"

fun countLoop :: "int \<Rightarrow> byte list \<Rightarrow> int option" where
  "countLoop count [] = Some count"
| "countLoop count (b # bs) = (case bitLoop count b of None \<Rightarrow> None | Some c \<Rightarrow> countLoop c bs)"

definition AllocatedCount :: "ResourceExtension \<Rightarrow> int option" where
  "AllocatedCount r = countLoop 0 (ext_Storage r)"

definition AvailableCount :: "ResourceExtension \<Rightarrow> int option" where
  "AvailableCount r = map_option (\<lambda>n. TotalCapacity r - n) (AllocatedCount r)"

definition onChainNetToString :: "byte list \<Rightarrow> string" where
  "onChainNetToString n = (let prefixLen = unat (n ! 4) in
     if prefixLen > 0 \<and> prefixLen \<le> 32
     then itoa (unat (n ! 0)) @ ''.'' @ itoa (unat (n ! 1)) @ ''.'' @ itoa (unat (n ! 2)) @ ''.'' @ itoa (unat (n ! 3))
          @ ''/'' @ itoa prefixLen
     else [])"

definition BaseNetString :: "ResourceExtension \<Rightarrow> string" where
  "BaseNetString r = (if alloc_Type (ext_Allocator r) \<noteq> AllocatorTypeIp then []
     else (case alloc_IpAllocator (ext_Allocator r) of None \<Rightarrow> [] | Some ip \<Rightarrow> onChainNetToString (ipa_BaseNet ip)))"

definition RangeString :: "ResourceExtension \<Rightarrow> string" where
  "RangeString r = (if alloc_Type (ext_Allocator r) \<noteq> AllocatorTypeId then []
     else (case alloc_IdAllocator (ext_Allocator r) of None \<Rightarrow> []
       | Some i \<Rightarrow> ''['' @ itoa (unat (ida_RangeStart i)) @ '', '' @ itoa (unat (ida_RangeEnd i)) @ '')''))"

lemma bitLoop_returns: "bitLoop count b = Some (count + int (card {i. bit b i}))"
proof (induction "unat b" arbitrary: b count rule: less_induct)
  case less
  show ?case
  proof (cases "b = 0")
    case True
    then have e: "{i. bit b i} = {}" by auto
    show ?thesis unfolding e bitLoop.simps [of count b] by (simp add: True)
  next
    case False
    have "unat (drop_bit 1 b) < unat b"
      unfolding unat_drop_bit_eq using False unat_gt_0 [of b] by (simp add: drop_bit_eq_div)
    note ih = less.hyps [OF this]
    let ?S = "{i. bit b i}"
    have fin: "finite ?S" by (rule finite_subset [of _ "{..<8}"]) (auto dest: bit_imp_le_length)
    have split: "?S = (if bit b 0 then {0} else {}) \<union> Suc ` {i. bit (drop_bit 1 b) i}"
    proof (rule set_eqI)
      fix i
      show "i \<in> ?S \<longleftrightarrow> i \<in> (if bit b 0 then {0} else {}) \<union> Suc ` {i. bit (drop_bit 1 b) i}"
        by (cases i) (auto simp: bit_simps)
    qed
    have "finite {i. bit (drop_bit 1 b) i}"
      by (rule finite_subset [of _ "{..<8}"]) (auto dest: bit_imp_le_length)
    then have "card ?S = (if bit b 0 then 1 else 0) + card {i. bit (drop_bit 1 b) i}"
      by (subst split) (simp add: card_insert_if card_image)
    moreover have "uint (b AND 1) = (if bit b 0 then 1 else 0)"
      by (simp add: and_one_eq mod2_eq_if bit_0)
    ultimately show ?thesis using False ih by (subst bitLoop.simps) simp
  qed
qed

lemma countLoop_returns:
  "countLoop count bs = Some (count + (\<Sum>b\<leftarrow>bs. int (card {i. bit b i})))"
  by (induction bs arbitrary: count) (simp_all add: bitLoop_returns)

text \<open>
  C39. Counting the used resources of a pool always ends, for any bitmap, with the number of set
  bits; and the available resources are the capacity without them.
\<close>

theorem allocated_count_ends:
  "AllocatedCount r = Some (\<Sum>b\<leftarrow>ext_Storage r. int (card {i. bit b i})) \<and>
   AvailableCount r = Some (TotalCapacity r - (\<Sum>b\<leftarrow>ext_Storage r. int (card {i. bit b i})))"
  by (simp add: AllocatedCount_def AvailableCount_def countLoop_returns)

end
