(* ===== verification/Serviceability_Deserialize.thy ===== *)
theory Serviceability_Deserialize
  imports Serviceability_State
begin

text \<open>
  Reading accounts: smartcontract/sdk/go/serviceability/deserialize.go, and the dispatch over
  account types of client.go. A deserializer takes the struct its Go argument points to and
  returns it with the fields it assigns; every line \<open>s.Field = reader.Read()\<close> of the source is one
  \<open>assign\<close>. Conversions to the one-byte enumeration types keep the byte. The log lines are left
  out. What the RPC node returns is an argument.
\<close>

text \<open>\<open>(reader.ReadU8() != 0)\<close>.\<close>

definition br_flag :: "bool br" where
  "br_flag = do { b \<leftarrow> br_ReadU8; State_Monad.return (b \<noteq> 0) }"

subsection \<open>Straight-line accounts\<close>

definition DeserializeGlobalState :: "GlobalState \<Rightarrow> GlobalState br" where
  "DeserializeGlobalState gs = do {
     gs \<leftarrow> assign br_ReadU8 gs_AccountType_update gs;
     gs \<leftarrow> assign br_ReadU8 gs_BumpSeed_update gs;
     gs \<leftarrow> assign br_ReadU128 gs_AccountIndex_update gs;
     gs \<leftarrow> assign br_ReadPubkeySlice gs_FoundationAllowlist_update gs;
     _ \<leftarrow> br_ReadPubkeySlice;
     _ \<leftarrow> br_ReadPubkeySlice;
     gs \<leftarrow> assign br_ReadPubkey gs_ActivatorAuthorityPK_update gs;
     gs \<leftarrow> assign br_ReadPubkey gs_SentinelAuthorityPK_update gs;
     gs \<leftarrow> assign br_ReadU64 gs_ContributorAirdropLamports_update gs;
     gs \<leftarrow> assign br_ReadU64 gs_UserAirdropLamports_update gs;
     gs \<leftarrow> assign br_ReadPubkey gs_HealthOraclePK_update gs;
     gs \<leftarrow> assign br_ReadPubkeySlice gs_QAAllowlist_update gs;
     gs \<leftarrow> assign br_ReadU128 gs_FeatureFlags_update gs;
     assign br_ReadPubkey gs_FeedAuthorityPK_update gs }"

definition DeserializeGlobalConfig :: "GlobalConfig \<Rightarrow> GlobalConfig br" where
  "DeserializeGlobalConfig cfg = do {
     cfg \<leftarrow> assign br_ReadU8 cfg_AccountType_update cfg;
     cfg \<leftarrow> assign br_ReadPubkey cfg_Owner_update cfg;
     cfg \<leftarrow> assign br_ReadU8 cfg_BumpSeed_update cfg;
     cfg \<leftarrow> assign br_ReadU32 cfg_LocalASN_update cfg;
     cfg \<leftarrow> assign br_ReadU32 cfg_RemoteASN_update cfg;
     cfg \<leftarrow> assign br_ReadNetworkV4 cfg_DeviceTunnelBlock_update cfg;
     cfg \<leftarrow> assign br_ReadNetworkV4 cfg_UserTunnelBlock_update cfg;
     cfg \<leftarrow> assign br_ReadNetworkV4 cfg_MulticastGroupBlock_update cfg;
     cfg \<leftarrow> assign br_ReadU16 cfg_NextBGPCommunity_update cfg;
     assign br_ReadNetworkV4 cfg_MulticastPublisherBlock_update cfg }"

definition DeserializeConfig :: "GlobalConfig \<Rightarrow> GlobalConfig br" where
  "DeserializeConfig cfg = DeserializeGlobalConfig cfg"

definition DeserializeLocation :: "Location \<Rightarrow> Location br" where
  "DeserializeLocation loc = do {
     loc \<leftarrow> assign br_ReadU8 loc_AccountType_update loc;
     loc \<leftarrow> assign br_ReadPubkey loc_Owner_update loc;
     loc \<leftarrow> assign br_ReadU128 loc_Index_update loc;
     loc \<leftarrow> assign br_ReadU8 loc_BumpSeed_update loc;
     loc \<leftarrow> assign br_ReadF64 loc_Lat_update loc;
     loc \<leftarrow> assign br_ReadF64 loc_Lng_update loc;
     loc \<leftarrow> assign br_ReadU32 loc_LocId_update loc;
     loc \<leftarrow> assign br_ReadU8 loc_Status_update loc;
     loc \<leftarrow> assign br_ReadString loc_Code_update loc;
     loc \<leftarrow> assign br_ReadString loc_Name_update loc;
     loc \<leftarrow> assign br_ReadString loc_Country_update loc;
     assign br_ReadU32 loc_ReferenceCount_update loc }"

definition DeserializeExchange :: "Exchange \<Rightarrow> Exchange br" where
  "DeserializeExchange exchange = do {
     exchange \<leftarrow> assign br_ReadU8 exchange_AccountType_update exchange;
     exchange \<leftarrow> assign br_ReadPubkey exchange_Owner_update exchange;
     exchange \<leftarrow> assign br_ReadU128 exchange_Index_update exchange;
     exchange \<leftarrow> assign br_ReadU8 exchange_BumpSeed_update exchange;
     exchange \<leftarrow> assign br_ReadF64 exchange_Lat_update exchange;
     exchange \<leftarrow> assign br_ReadF64 exchange_Lng_update exchange;
     exchange \<leftarrow> assign br_ReadU16 exchange_BgpCommunity_update exchange;
     _ \<leftarrow> br_ReadU16;
     exchange \<leftarrow> assign br_ReadU8 exchange_Status_update exchange;
     exchange \<leftarrow> assign br_ReadString exchange_Code_update exchange;
     exchange \<leftarrow> assign br_ReadString exchange_Name_update exchange;
     exchange \<leftarrow> assign br_ReadU32 exchange_ReferenceCount_update exchange;
     exchange \<leftarrow> assign br_ReadPubkey exchange_Device1PK_update exchange;
     assign br_ReadPubkey exchange_Device2PK_update exchange }"

definition DeserializeContributor :: "Contributor \<Rightarrow> Contributor br" where
  "DeserializeContributor contributor = do {
     contributor \<leftarrow> assign br_ReadU8 contributor_AccountType_update contributor;
     contributor \<leftarrow> assign br_ReadPubkey contributor_Owner_update contributor;
     contributor \<leftarrow> assign br_ReadU128 contributor_Index_update contributor;
     contributor \<leftarrow> assign br_ReadU8 contributor_BumpSeed_update contributor;
     contributor \<leftarrow> assign br_ReadU8 contributor_Status_update contributor;
     contributor \<leftarrow> assign br_ReadString contributor_Code_update contributor;
     contributor \<leftarrow> assign br_ReadU32 contributor_ReferenceCount_update contributor;
     assign br_ReadPubkey contributor_OpsManagerPK_update contributor }"

definition DeserializeLink :: "Link \<Rightarrow> Link br" where
  "DeserializeLink link = do {
     link \<leftarrow> assign br_ReadU8 link_AccountType_update link;
     link \<leftarrow> assign br_ReadPubkey link_Owner_update link;
     link \<leftarrow> assign br_ReadU128 link_Index_update link;
     link \<leftarrow> assign br_ReadU8 link_BumpSeed_update link;
     link \<leftarrow> assign br_ReadPubkey link_SideAPubKey_update link;
     link \<leftarrow> assign br_ReadPubkey link_SideZPubKey_update link;
     link \<leftarrow> assign br_ReadU8 link_LinkType_update link;
     link \<leftarrow> assign br_ReadU64 link_Bandwidth_update link;
     link \<leftarrow> assign br_ReadU32 link_Mtu_update link;
     link \<leftarrow> assign br_ReadU64 link_DelayNs_update link;
     link \<leftarrow> assign br_ReadU64 link_JitterNs_update link;
     link \<leftarrow> assign br_ReadU16 link_TunnelId_update link;
     link \<leftarrow> assign br_ReadNetworkV4 link_TunnelNet_update link;
     link \<leftarrow> assign br_ReadU8 link_Status_update link;
     link \<leftarrow> assign br_ReadString link_Code_update link;
     link \<leftarrow> assign br_ReadPubkey link_ContributorPubKey_update link;
     link \<leftarrow> assign br_ReadString link_SideAIfaceName_update link;
     link \<leftarrow> assign br_ReadString link_SideZIfaceName_update link;
     link \<leftarrow> assign br_ReadU64 link_DelayOverrideNs_update link;
     link \<leftarrow> assign br_ReadU8 link_LinkHealth_update link;
     link \<leftarrow> assign br_ReadU8 link_LinkDesiredStatus_update link;
     link \<leftarrow> assign br_ReadPubkeySlice link_LinkTopologies_update link;
     assign br_ReadU32 link_LinkFlags_update link }"

definition DeserializeUser :: "User \<Rightarrow> User br" where
  "DeserializeUser user = do {
     user \<leftarrow> assign br_ReadU8 user_AccountType_update user;
     user \<leftarrow> assign br_ReadPubkey user_Owner_update user;
     user \<leftarrow> assign br_ReadU128 user_Index_update user;
     user \<leftarrow> assign br_ReadU8 user_BumpSeed_update user;
     user \<leftarrow> assign br_ReadU8 user_UserType_update user;
     user \<leftarrow> assign br_ReadPubkey user_TenantPubKey_update user;
     user \<leftarrow> assign br_ReadPubkey user_DevicePubKey_update user;
     user \<leftarrow> assign br_ReadU8 user_CyoaType_update user;
     user \<leftarrow> assign br_ReadIPv4 user_ClientIp_update user;
     user \<leftarrow> assign br_ReadIPv4 user_DzIp_update user;
     user \<leftarrow> assign br_ReadU16 user_TunnelId_update user;
     user \<leftarrow> assign br_ReadNetworkV4 user_TunnelNet_update user;
     user \<leftarrow> assign br_ReadU8 user_Status_update user;
     user \<leftarrow> assign br_ReadPubkeySlice user_Publishers_update user;
     user \<leftarrow> assign br_ReadPubkeySlice user_Subscribers_update user;
     user \<leftarrow> assign br_ReadPubkey user_ValidatorPubKey_update user;
     user \<leftarrow> assign br_ReadIPv4 user_TunnelEndpoint_update user;
     user \<leftarrow> assign br_ReadU8 user_TunnelFlags_update user;
     user \<leftarrow> assign br_ReadU8 user_BgpStatus_update user;
     user \<leftarrow> assign br_ReadU64 user_LastBgpUpAt_update user;
     user \<leftarrow> assign br_ReadU64 user_LastBgpReportedAt_update user;
     user \<leftarrow> assign br_ReadU64 user_BgpRttNs_update user;
     assign br_ReadPubkey user_FeedPk_update user }"

definition DeserializeMulticastGroup :: "MulticastGroup \<Rightarrow> MulticastGroup br" where
  "DeserializeMulticastGroup mg = do {
     mg \<leftarrow> assign br_ReadU8 mg_AccountType_update mg;
     mg \<leftarrow> assign br_ReadPubkey mg_Owner_update mg;
     mg \<leftarrow> assign br_ReadU128 mg_Index_update mg;
     mg \<leftarrow> assign br_ReadU8 mg_BumpSeed_update mg;
     mg \<leftarrow> assign br_ReadPubkey mg_TenantPubKey_update mg;
     mg \<leftarrow> assign br_ReadIPv4 mg_MulticastIp_update mg;
     mg \<leftarrow> assign br_ReadU64 mg_MaxBandwidth_update mg;
     mg \<leftarrow> assign br_ReadU8 mg_Status_update mg;
     mg \<leftarrow> assign br_ReadString mg_Code_update mg;
     mg \<leftarrow> assign br_ReadU32 mg_PublisherCount_update mg;
     assign br_ReadU32 mg_SubscriberCount_update mg }"

definition DeserializeTenant :: "Tenant \<Rightarrow> Tenant br" where
  "DeserializeTenant tenant = do {
     tenant \<leftarrow> assign br_ReadU8 tenant_AccountType_update tenant;
     tenant \<leftarrow> assign br_ReadPubkey tenant_Owner_update tenant;
     tenant \<leftarrow> assign br_ReadU8 tenant_BumpSeed_update tenant;
     tenant \<leftarrow> assign br_ReadString tenant_Code_update tenant;
     tenant \<leftarrow> assign br_ReadU16 tenant_VrfId_update tenant;
     tenant \<leftarrow> assign br_ReadU32 tenant_ReferenceCount_update tenant;
     tenant \<leftarrow> assign br_ReadPubkeySlice tenant_Administrators_update tenant;
     tenant \<leftarrow> assign br_ReadU8 tenant_PaymentStatus_update tenant;
     tenant \<leftarrow> assign br_ReadPubkey tenant_TokenAccount_update tenant;
     tenant \<leftarrow> assign br_flag tenant_MetroRouting_update tenant;
     tenant \<leftarrow> assign br_flag tenant_RouteLiveness_update tenant;
     tenant \<leftarrow> assign br_ReadU8 tenant_BillingDiscriminant_update tenant;
     tenant \<leftarrow> assign br_ReadU64 tenant_BillingRate_update tenant;
     tenant \<leftarrow> assign br_ReadU64 tenant_BillingLastDeductionDzEpoch_update tenant;
     assign br_ReadPubkeySlice tenant_IncludeTopologies_update tenant }"

definition DeserializeProgramVersion :: "ProgramVersion \<Rightarrow> ProgramVersion br" where
  "DeserializeProgramVersion pv = do {
     pv \<leftarrow> assign br_ReadU32 pv_Major_update pv;
     pv \<leftarrow> assign br_ReadU32 pv_Minor_update pv;
     assign br_ReadU32 pv_Patch_update pv }"

definition DeserializeProgramConfig :: "ProgramConfig \<Rightarrow> ProgramConfig br" where
  "DeserializeProgramConfig pc = do {
     pc \<leftarrow> assign br_ReadU8 pc_AccountType_update pc;
     pc \<leftarrow> assign br_ReadU8 pc_BumpSeed_update pc;
     pc \<leftarrow> assign (DeserializeProgramVersion (pc_Version pc)) pc_Version_update pc;
     assign (DeserializeProgramVersion (pc_MinCompatVersion pc)) pc_MinCompatVersion_update pc }"

definition DeserializePermission :: "Permission \<Rightarrow> Permission br" where
  "DeserializePermission perm = do {
     perm \<leftarrow> assign br_ReadU8 perm_AccountType_update perm;
     perm \<leftarrow> assign br_ReadPubkey perm_Owner_update perm;
     perm \<leftarrow> assign br_ReadU8 perm_BumpSeed_update perm;
     perm \<leftarrow> assign br_ReadU8 perm_Status_update perm;
     perm \<leftarrow> assign br_ReadPubkey perm_UserPayer_update perm;
     perm \<leftarrow> assign br_ReadU64 perm_PermissionsLo_update perm;
     assign br_ReadU64 perm_PermissionsHi_update perm }"

definition DeserializeTopologyInfo :: "TopologyInfo \<Rightarrow> TopologyInfo br" where
  "DeserializeTopologyInfo topo = do {
     topo \<leftarrow> assign br_ReadU8 topo_AccountType_update topo;
     topo \<leftarrow> assign br_ReadPubkey topo_Owner_update topo;
     topo \<leftarrow> assign br_ReadU8 topo_BumpSeed_update topo;
     topo \<leftarrow> assign br_ReadString topo_Name_update topo;
     topo \<leftarrow> assign br_ReadU8 topo_AdminGroupBit_update topo;
     topo \<leftarrow> assign br_ReadU8 topo_FlexAlgoNumber_update topo;
     topo \<leftarrow> assign br_ReadU8 topo_Constraint_update topo;
     assign br_ReadU32 topo_ReferenceCount_update topo }"

definition DeserializeFeed :: "Feed \<Rightarrow> Feed br" where
  "DeserializeFeed feed = do {
     feed \<leftarrow> assign br_ReadU8 feed_AccountType_update feed;
     feed \<leftarrow> assign br_ReadPubkey feed_Owner_update feed;
     feed \<leftarrow> assign br_ReadU8 feed_BumpSeed_update feed;
     feed \<leftarrow> assign br_ReadString feed_Code_update feed;
     feed \<leftarrow> assign br_ReadString feed_Name_update feed;
     feed \<leftarrow> assign br_ReadPubkey feed_Exchange_update feed;
     assign br_ReadPubkeySlice feed_Groups_update feed }"

subsection \<open>Interfaces and devices\<close>

definition DeserializeInterfaceV1 :: "Interface \<Rightarrow> Interface br" where
  "DeserializeInterfaceV1 iface = do {
     iface \<leftarrow> assign br_ReadU8 iface_Status_update iface;
     iface \<leftarrow> assign br_ReadString iface_Name_update iface;
     iface \<leftarrow> assign br_ReadU8 iface_InterfaceType_update iface;
     iface \<leftarrow> assign br_ReadU8 iface_LoopbackType_update iface;
     iface \<leftarrow> assign br_ReadU16 iface_VlanId_update iface;
     iface \<leftarrow> assign br_ReadNetworkV4 iface_IpNet_update iface;
     iface \<leftarrow> assign br_ReadU16 iface_NodeSegmentIdx_update iface;
     assign br_flag iface_UserTunnelEndpoint_update iface }"

definition DeserializeInterfaceV2 :: "Interface \<Rightarrow> Interface br" where
  "DeserializeInterfaceV2 iface = do {
     iface \<leftarrow> assign br_ReadU8 iface_Status_update iface;
     iface \<leftarrow> assign br_ReadString iface_Name_update iface;
     iface \<leftarrow> assign br_ReadU8 iface_InterfaceType_update iface;
     iface \<leftarrow> assign br_ReadU8 iface_InterfaceCYOA_update iface;
     iface \<leftarrow> assign br_ReadU8 iface_InterfaceDIA_update iface;
     iface \<leftarrow> assign br_ReadU8 iface_LoopbackType_update iface;
     iface \<leftarrow> assign br_ReadU64 iface_Bandwidth_update iface;
     iface \<leftarrow> assign br_ReadU64 iface_Cir_update iface;
     iface \<leftarrow> assign br_ReadU16 iface_Mtu_update iface;
     iface \<leftarrow> assign br_ReadU8 iface_RoutingMode_update iface;
     iface \<leftarrow> assign br_ReadU16 iface_VlanId_update iface;
     iface \<leftarrow> assign br_ReadNetworkV4 iface_IpNet_update iface;
     iface \<leftarrow> assign br_ReadU16 iface_NodeSegmentIdx_update iface;
     assign br_flag iface_UserTunnelEndpoint_update iface }"

text \<open>The segments of a legacy V3 interface are read and dropped.\<close>

fun skipSegments :: "nat \<Rightarrow> unit br" where
  "skipSegments 0 = State_Monad.return ()"
| "skipSegments (Suc n) = do { _ \<leftarrow> br_ReadPubkey; _ \<leftarrow> br_ReadU16; skipSegments n }"

definition DeserializeInterface :: "Interface \<Rightarrow> Interface br" where
  "DeserializeInterface iface = do {
     iface \<leftarrow> assign br_ReadU8 iface_Version_update iface;
     if iface_Version iface = 0 then DeserializeInterfaceV1 iface
     else if iface_Version iface = 1 \<or> iface_Version iface = 2 then DeserializeInterfaceV2 iface
     else if iface_Version iface = 3 then do {
       iface \<leftarrow> DeserializeInterfaceV2 iface;
       segCount \<leftarrow> br_ReadU32;
       _ \<leftarrow> skipSegments (unat segCount);
       State_Monad.return iface }
     else State_Monad.return iface }"

text \<open>
  The body of a size-prefixed interface, the loop over its segments with its guard, and the
  skip to the end of the element. The capacity the source reserves for the segments is left out.
\<close>

definition sizedBody :: "Interface \<Rightarrow> Interface br" where
  "sizedBody iface = do {
     iface \<leftarrow> assign br_ReadU8 iface_Status_update iface;
     iface \<leftarrow> assign br_ReadString iface_Name_update iface;
     iface \<leftarrow> assign br_ReadU8 iface_InterfaceType_update iface;
     iface \<leftarrow> assign br_ReadU8 iface_InterfaceCYOA_update iface;
     iface \<leftarrow> assign br_ReadU8 iface_InterfaceDIA_update iface;
     iface \<leftarrow> assign br_ReadU8 iface_LoopbackType_update iface;
     iface \<leftarrow> assign br_ReadU64 iface_Bandwidth_update iface;
     iface \<leftarrow> assign br_ReadU64 iface_Cir_update iface;
     iface \<leftarrow> assign br_ReadU16 iface_Mtu_update iface;
     iface \<leftarrow> assign br_ReadU8 iface_RoutingMode_update iface;
     iface \<leftarrow> assign br_ReadU16 iface_VlanId_update iface;
     iface \<leftarrow> assign br_ReadNetworkV4 iface_IpNet_update iface;
     iface \<leftarrow> assign br_ReadU16 iface_NodeSegmentIdx_update iface;
     assign br_flag iface_UserTunnelEndpoint_update iface }"

definition readSegment :: "FlexAlgoNodeSegment br" where
  "readSegment = do {
     topology \<leftarrow> br_ReadPubkey;
     idx \<leftarrow> br_ReadU16;
     State_Monad.return \<lparr>seg_Topology = topology, seg_NodeSegmentIdx = idx\<rparr> }"

fun segmentLoop :: "nat \<Rightarrow> FlexAlgoNodeSegment list \<Rightarrow> FlexAlgoNodeSegment list br" where
  "segmentLoop 0 segs = State_Monad.return segs"
| "segmentLoop (Suc n) segs = do {
     remaining \<leftarrow> br_Remaining;
     if remaining < 34 then State_Monad.return segs
     else do { s \<leftarrow> readSegment; segmentLoop n (segs @ [s]) } }"

definition skipTo :: "nat \<Rightarrow> unit br" where
  "skipTo target = do {
     cur \<leftarrow> GetOffset;
     if cur < target then br_Skip (target - cur) else State_Monad.return () }"

definition DeserializeInterfaceSized :: "Interface \<Rightarrow> Interface br" where
  "DeserializeInterfaceSized iface = do {
     start \<leftarrow> GetOffset;
     iface \<leftarrow> assign br_ReadU16 iface_Size_update iface;
     iface \<leftarrow> assign br_ReadU8 iface_Version_update iface;
     iface \<leftarrow> sizedBody iface;
     segCount \<leftarrow> br_ReadU32;
     iface \<leftarrow> assign (segmentLoop (unat segCount) []) iface_FlexAlgoNodeSegments_update iface;
     _ \<leftarrow> skipTo (start + unat (iface_Size iface));
     State_Monad.return iface }"

text \<open>The straight-line stretches of \<open>DeserializeDevice\<close>, then the whole with its two early returns.\<close>

definition deviceHead :: "Device \<Rightarrow> Device br" where
  "deviceHead dev = do {
     dev \<leftarrow> assign br_ReadU8 dev_AccountType_update dev;
     dev \<leftarrow> assign br_ReadPubkey dev_Owner_update dev;
     dev \<leftarrow> assign br_ReadU128 dev_Index_update dev;
     dev \<leftarrow> assign br_ReadU8 dev_BumpSeed_update dev;
     dev \<leftarrow> assign br_ReadPubkey dev_LocationPubKey_update dev;
     dev \<leftarrow> assign br_ReadPubkey dev_ExchangePubKey_update dev;
     dev \<leftarrow> assign br_ReadU8 dev_DeviceType_update dev;
     dev \<leftarrow> assign br_ReadIPv4 dev_PublicIp_update dev;
     dev \<leftarrow> assign br_ReadU8 dev_Status_update dev;
     dev \<leftarrow> assign br_ReadString dev_Code_update dev;
     dev \<leftarrow> assign br_ReadNetworkV4Slice dev_DzPrefixes_update dev;
     dev \<leftarrow> assign br_ReadPubkey dev_MetricsPublisherPubKey_update dev;
     dev \<leftarrow> assign br_ReadPubkey dev_ContributorPubKey_update dev;
     assign br_ReadString dev_MgmtVrf_update dev }"

definition deviceCounters :: "Device \<Rightarrow> Device br" where
  "deviceCounters dev = do {
     dev \<leftarrow> assign br_ReadU32 dev_ReferenceCount_update dev;
     dev \<leftarrow> assign br_ReadU16 dev_UsersCount_update dev;
     dev \<leftarrow> assign br_ReadU16 dev_MaxUsers_update dev;
     dev \<leftarrow> assign br_ReadU8 dev_DeviceHealth_update dev;
     dev \<leftarrow> assign br_ReadU8 dev_DeviceDesiredStatus_update dev;
     dev \<leftarrow> assign br_ReadU16 dev_UnicastUsersCount_update dev;
     dev \<leftarrow> assign br_ReadU16 dev_MulticastSubscribersCount_update dev;
     dev \<leftarrow> assign br_ReadU16 dev_MaxUnicastUsers_update dev;
     dev \<leftarrow> assign br_ReadU16 dev_MaxMulticastSubscribers_update dev;
     dev \<leftarrow> assign br_ReadU16 dev_ReservedSeats_update dev;
     dev \<leftarrow> assign br_ReadU16 dev_MulticastPublishersCount_update dev;
     assign br_ReadU16 dev_MaxMulticastPublishers_update dev }"

definition rebuilt :: "Interface \<Rightarrow> Interface" where
  "rebuilt legacy = legacy\<lparr>iface_Version := CurrentInterfaceVersion, iface_Size := 0\<rparr>"

definition deviceInterfaces :: "Device \<Rightarrow> Device br" where
  "deviceInterfaces dev = do {
     remaining \<leftarrow> br_Remaining;
     if remaining = 0
     then State_Monad.return (dev\<lparr>dev_Interfaces := map rebuilt (dev_DeprecatedInterfaces dev)\<rparr>)
     else do {
       newLen \<leftarrow> br_ReadU32;
       if unat newLen \<noteq> length (dev_DeprecatedInterfaces dev)
       then State_Monad.return (dev\<lparr>dev_DeserializeError :=
              Some (LengthMismatch (unat newLen) (length (dev_DeprecatedInterfaces dev)))\<rparr>)
       else assign (br_loop (DeserializeInterfaceSized zeroInterface) (unat newLen)) dev_Interfaces_update dev } }"

definition DeserializeDevice :: "Device \<Rightarrow> Device br" where
  "DeserializeDevice dev = do {
     dev \<leftarrow> deviceHead dev;
     dev \<leftarrow> State_Monad.return (dev\<lparr>dev_DeprecatedInterfaces := []\<rparr>);
     len \<leftarrow> br_ReadU32;
     remaining \<leftarrow> br_Remaining;
     if len > 0 \<and> len * 18 > remaining then State_Monad.return dev
     else do {
       dev \<leftarrow> assign (br_loop (DeserializeInterface zeroInterface) (unat len)) dev_DeprecatedInterfaces_update dev;
       dev \<leftarrow> deviceCounters dev;
       deviceInterfaces dev } }"

subsection \<open>Access passes and resource pools\<close>

definition readFeedSeat :: "FeedSeat br" where
  "readFeedSeat = do {
     feedKey \<leftarrow> br_ReadPubkey;
     maxUsers \<leftarrow> br_ReadU8;
     maxFutureUsers \<leftarrow> br_ReadU8;
     currentUsers \<leftarrow> br_ReadU8;
     anniversaryDay \<leftarrow> br_ReadU8;
     windowEnd \<leftarrow> br_ReadI64;
     terminatesAt \<leftarrow> br_ReadI64;
     State_Monad.return \<lparr>seat_FeedKey = feedKey, seat_MaxUsers = maxUsers, seat_MaxFutureUsers = maxFutureUsers,
       seat_CurrentUsers = currentUsers, seat_AnniversaryDay = anniversaryDay, seat_WindowEnd = windowEnd,
       seat_TerminatesAt = terminatesAt\<rparr> }"

definition accessPassType :: "AccessPass \<Rightarrow> AccessPass br" where
  "accessPassType ap = (
     if ap_AccessPassTypeTag ap = AccessPassTypeSolanaValidator \<or> ap_AccessPassTypeTag ap = AccessPassTypeSolanaRPC
     then assign br_ReadPubkey ap_AssociatedPubkey_update ap
     else if ap_AccessPassTypeTag ap = AccessPassTypeOthers
     then do {
       ap \<leftarrow> assign br_ReadString ap_OthersTypeName_update ap;
       assign br_ReadString ap_OthersKey_update ap }
     else if ap_AccessPassTypeTag ap = AccessPassTypeEdgeSeat
     then do {
       count \<leftarrow> br_ReadU32;
       remaining \<leftarrow> br_Remaining;
       if count > 0 \<and> count \<le> remaining div 52
       then assign (br_loop readFeedSeat (unat count)) ap_FeedSeats_update ap
       else State_Monad.return ap }
     else State_Monad.return ap)"

definition accessPassHead :: "AccessPass \<Rightarrow> AccessPass br" where
  "accessPassHead ap = do {
     ap \<leftarrow> assign br_ReadU8 ap_AccountType_update ap;
     ap \<leftarrow> assign br_ReadPubkey ap_Owner_update ap;
     ap \<leftarrow> assign br_ReadU8 ap_BumpSeed_update ap;
     assign br_ReadU8 ap_AccessPassTypeTag_update ap }"

definition accessPassTail :: "AccessPass \<Rightarrow> AccessPass br" where
  "accessPassTail ap = do {
     ap \<leftarrow> assign br_ReadIPv4 ap_ClientIp_update ap;
     ap \<leftarrow> assign br_ReadPubkey ap_UserPayer_update ap;
     ap \<leftarrow> assign br_ReadU64 ap_LastAccessEpoch_update ap;
     ap \<leftarrow> assign br_ReadU16 ap_ConnectionCount_update ap;
     ap \<leftarrow> assign br_ReadU8 ap_Status_update ap;
     ap \<leftarrow> assign br_ReadPubkeySlice ap_MGroupPubAllowlist_update ap;
     ap \<leftarrow> assign br_ReadPubkeySlice ap_MGroupSubAllowlist_update ap;
     ap \<leftarrow> assign br_ReadU8 ap_Flags_update ap;
     ap \<leftarrow> assign br_ReadPubkeySlice ap_TenantAllowlist_update ap;
     ap \<leftarrow> assign br_ReadU16 ap_UnicastUserCount_update ap;
     ap \<leftarrow> assign (br_ReadU16OrDefault 1) ap_MaxUnicastUsers_update ap;
     ap \<leftarrow> assign br_ReadU16 ap_MulticastUserCount_update ap;
     assign (br_ReadU16OrDefault 1) ap_MaxMulticastUsers_update ap }"

definition DeserializeAccessPass :: "AccessPass \<Rightarrow> AccessPass br" where
  "DeserializeAccessPass ap = do {
     ap \<leftarrow> accessPassHead ap;
     ap \<leftarrow> accessPassType ap;
     accessPassTail ap }"

definition resourceExtensionBitmapOffset :: nat where
  "resourceExtensionBitmapOffset = 88"

definition extensionHead :: "ResourceExtension \<Rightarrow> ResourceExtension br" where
  "extensionHead ext = do {
     ext \<leftarrow> assign br_ReadU8 ext_AccountType_update ext;
     ext \<leftarrow> assign br_ReadPubkey ext_Owner_update ext;
     ext \<leftarrow> assign br_ReadU8 ext_BumpSeed_update ext;
     assign br_ReadPubkey ext_AssociatedWith_update ext }"

definition readIpAllocator :: "IpAllocator br" where
  "readIpAllocator = do {
     baseNet \<leftarrow> br_ReadNetworkV4;
     firstFree \<leftarrow> br_ReadU64;
     State_Monad.return \<lparr>ipa_BaseNet = baseNet, ipa_FirstFreeIndex = firstFree\<rparr> }"

definition readIdAllocator :: "IdAllocator br" where
  "readIdAllocator = do {
     rangeStart \<leftarrow> br_ReadU16;
     rangeEnd \<leftarrow> br_ReadU16;
     firstFree \<leftarrow> br_ReadU64;
     State_Monad.return \<lparr>ida_RangeStart = rangeStart, ida_RangeEnd = rangeEnd, ida_FirstFreeIndex = firstFree\<rparr> }"

definition readBitmap :: "ResourceExtension \<Rightarrow> ResourceExtension br" where
  "readBitmap ext = do {
     _ \<leftarrow> skipTo resourceExtensionBitmapOffset;
     remaining \<leftarrow> br_Remaining;
     if unat remaining > 0 then assign (br_ReadBytes (unat remaining)) ext_Storage_update ext
     else State_Monad.return ext }"

definition DeserializeResourceExtension :: "ResourceExtension \<Rightarrow> ResourceExtension br" where
  "DeserializeResourceExtension ext = do {
     ext \<leftarrow> extensionHead ext;
     allocatorType \<leftarrow> br_ReadU8;
     ext \<leftarrow> State_Monad.return (ext\<lparr>ext_Allocator := (ext_Allocator ext)\<lparr>alloc_Type := allocatorType\<rparr>\<rparr>);
     if allocatorType = AllocatorTypeIp then do {
       a \<leftarrow> readIpAllocator;
       readBitmap (ext\<lparr>ext_Allocator := (ext_Allocator ext)\<lparr>alloc_IpAllocator := Some a\<rparr>\<rparr>) }
     else if allocatorType = AllocatorTypeId then do {
       a \<leftarrow> readIdAllocator;
       readBitmap (ext\<lparr>ext_Allocator := (ext_Allocator ext)\<lparr>alloc_IdAllocator := Some a\<rparr>\<rparr>) }
     else State_Monad.return ext }"

subsection \<open>All accounts of the program\<close>

record ProgramData =
  pd_GlobalState :: "GlobalState option"
  pd_GlobalConfig :: "GlobalConfig option"
  pd_Locations :: "Location list"
  pd_Exchanges :: "Exchange list"
  pd_Contributors :: "Contributor list"
  pd_Tenants :: "Tenant list"
  pd_Devices :: "Device list"
  pd_Links :: "Link list"
  pd_Users :: "User list"
  pd_MulticastGroups :: "MulticastGroup list"
  pd_ProgramConfig :: "ProgramConfig option"
  pd_AccessPasses :: "AccessPass list"
  pd_ResourceExtensions :: "ResourceExtension list"
  pd_Permissions :: "Permission list"
  pd_Topologies :: "TopologyInfo list"
  pd_Feeds :: "Feed list"

definition emptyProgramData :: ProgramData where
  "emptyProgramData = \<lparr>pd_GlobalState = None, pd_GlobalConfig = None, pd_Locations = [], pd_Exchanges = [],
     pd_Contributors = [], pd_Tenants = [], pd_Devices = [], pd_Links = [], pd_Users = [], pd_MulticastGroups = [],
     pd_ProgramConfig = None, pd_AccessPasses = [], pd_ResourceExtensions = [], pd_Permissions = [],
     pd_Topologies = [], pd_Feeds = []\<rparr>"

text \<open>\<open>var x T; DeserializeT(reader, &x)\<close>.\<close>

definition parsed :: "'a br \<Rightarrow> byte list \<Rightarrow> 'a" where
  "parsed m bs = fst (run_state m (NewByteReader bs))"

definition addAccount :: "byte list \<Rightarrow> byte list \<Rightarrow> ProgramData \<Rightarrow> ProgramData" where
  "addAccount pk bs pd = (
     if bs = [] then pd
     else if hd bs = GlobalStateType
     then pd\<lparr>pd_GlobalState := Some ((parsed (DeserializeGlobalState zeroGlobalState) bs)\<lparr>gs_PubKey := pk\<rparr>)\<rparr>
     else if hd bs = GlobalConfigType
     then pd\<lparr>pd_GlobalConfig := Some ((parsed (DeserializeGlobalConfig zeroGlobalConfig) bs)\<lparr>cfg_PubKey := pk\<rparr>)\<rparr>
     else if hd bs = LocationType
     then pd\<lparr>pd_Locations := pd_Locations pd @ [(parsed (DeserializeLocation zeroLocation) bs)\<lparr>loc_PubKey := pk\<rparr>]\<rparr>
     else if hd bs = ExchangeType
     then pd\<lparr>pd_Exchanges := pd_Exchanges pd @ [(parsed (DeserializeExchange zeroExchange) bs)\<lparr>exchange_PubKey := pk\<rparr>]\<rparr>
     else if hd bs = ContributorType
     then pd\<lparr>pd_Contributors := pd_Contributors pd @
            [(parsed (DeserializeContributor zeroContributor) bs)\<lparr>contributor_PubKey := pk\<rparr>]\<rparr>
     else if hd bs = TenantType
     then pd\<lparr>pd_Tenants := pd_Tenants pd @ [(parsed (DeserializeTenant zeroTenant) bs)\<lparr>tenant_PubKey := pk\<rparr>]\<rparr>
     else if hd bs = DeviceType
     then pd\<lparr>pd_Devices := pd_Devices pd @ [(parsed (DeserializeDevice zeroDevice) bs)\<lparr>dev_PubKey := pk\<rparr>]\<rparr>
     else if hd bs = LinkType
     then pd\<lparr>pd_Links := pd_Links pd @ [(parsed (DeserializeLink zeroLink) bs)\<lparr>link_PubKey := pk\<rparr>]\<rparr>
     else if hd bs = UserType
     then pd\<lparr>pd_Users := pd_Users pd @ [(parsed (DeserializeUser zeroUser) bs)\<lparr>user_PubKey := pk\<rparr>]\<rparr>
     else if hd bs = MulticastGroupType
     then pd\<lparr>pd_MulticastGroups := pd_MulticastGroups pd @
            [(parsed (DeserializeMulticastGroup zeroMulticastGroup) bs)\<lparr>mg_PubKey := pk\<rparr>]\<rparr>
     else if hd bs = ProgramConfigType
     then pd\<lparr>pd_ProgramConfig := Some (parsed (DeserializeProgramConfig zeroProgramConfig) bs)\<rparr>
     else if hd bs = AccessPassType
     then pd\<lparr>pd_AccessPasses := pd_AccessPasses pd @ [(parsed (DeserializeAccessPass zeroAccessPass) bs)\<lparr>ap_PubKey := pk\<rparr>]\<rparr>
     else if hd bs = ResourceExtensionType
     then pd\<lparr>pd_ResourceExtensions := pd_ResourceExtensions pd @
            [(parsed (DeserializeResourceExtension zeroResourceExtension) bs)\<lparr>ext_PubKey := pk\<rparr>]\<rparr>
     else if hd bs = PermissionType
     then pd\<lparr>pd_Permissions := pd_Permissions pd @ [(parsed (DeserializePermission zeroPermission) bs)\<lparr>perm_PubKey := pk\<rparr>]\<rparr>
     else if hd bs = TopologyType
     then pd\<lparr>pd_Topologies := pd_Topologies pd @ [(parsed (DeserializeTopologyInfo zeroTopologyInfo) bs)\<lparr>topo_PubKey := pk\<rparr>]\<rparr>
     else if hd bs = FeedType
     then pd\<lparr>pd_Feeds := pd_Feeds pd @ [(parsed (DeserializeFeed zeroFeed) bs)\<lparr>feed_PubKey := pk\<rparr>]\<rparr>
     else pd)"

datatype client_error = RpcFailed | EmptyResult | DeriveFailed

text \<open>The first argument is the answer of \<open>GetProgramAccounts\<close>: the accounts, or an error.\<close>

definition GetProgramData :: "(byte list \<times> byte list) list option \<Rightarrow> client_error + ProgramData" where
  "GetProgramData out = (case out of None \<Rightarrow> Inl RpcFailed
     | Some accounts \<Rightarrow> if accounts = [] then Inl EmptyResult
         else Inr (fold (\<lambda>(pk, bs). addAccount pk bs) accounts emptyProgramData))"

text \<open>
  The address of the publisher block, or nothing where its derivation fails; then the answer of
  \<open>GetAccountInfo\<close> for it: an error, no account, or its data.
\<close>

definition GetMulticastPublisherBlockResourceExtension ::
    "byte list option \<Rightarrow> byte list option option \<Rightarrow> client_error + ResourceExtension option" where
  "GetMulticastPublisherBlockResourceExtension pda info = (case pda of None \<Rightarrow> Inl DeriveFailed
     | Some pk \<Rightarrow> (case info of None \<Rightarrow> Inl RpcFailed
         | Some None \<Rightarrow> Inr None
         | Some (Some bs) \<Rightarrow> if bs = [] then Inr None
             else Inr (Some ((parsed (DeserializeResourceExtension zeroResourceExtension) bs)\<lparr>ext_PubKey := pk\<rparr>))))"

end
