(* ===== verification/Serviceability_Wire.thy ===== *)
theory Serviceability_Wire
  imports Serviceability_Deserialize
begin

text \<open>
  What the on-chain program writes: the Borsh layout of the Rust account structs under
  smartcontract/programs/doublezero-serviceability/src/state/. \<open>wire_Location\<close> is the derived
  serializer of \<open>Location\<close>, field by field in the order of the Rust struct, and so on; the value is
  carried by the Go record of the account, where an enumeration is its discriminant. \<open>ok_Location\<close>
  says that the fields have the sizes their Rust types enforce. The lemmas \<open>yields_Location\<close> and so
  on show that the Go deserializer reads exactly the written account back and stops behind it.
\<close>

lemma yields_eq: "yields m bs ys x \<Longrightarrow> x = y \<Longrightarrow> yields m bs ys y"
  by simp

interpretation f_flag: field_reader br_flag "\<lambda>b. [of_bool b]" "\<lambda>_. True" False
proof
  show "yields br_flag [of_bool b] ys b" for b ys
    unfolding br_flag_def by (rule yields_last, rule f_u8.rd_enc, simp) (auto intro: yields_return yields_eq)
  show "yields br_flag [] [] False"
    unfolding br_flag_def by (rule yields_last, rule f_u8.rd_missing) (auto intro: yields_return yields_eq)
qed

lemmas fields_then = f_u8.assign_then f_u16.assign_then f_u32.assign_then f_u64.assign_then f_u128.assign_then
  f_f64.assign_then f_pubkey.assign_then f_ipv4.assign_then f_net.assign_then f_string.assign_then
  f_pubkeys.assign_then f_nets.assign_then f_flag.assign_then

lemmas fields_last = f_u8.assign_last f_u16.assign_last f_u32.assign_last f_u64.assign_last f_u128.assign_last
  f_f64.assign_last f_pubkey.assign_last f_ipv4.assign_last f_net.assign_last f_string.assign_last
  f_pubkeys.assign_last f_nets.assign_last f_flag.assign_last

lemmas fields_skip = f_u16.skip_then f_pubkeys.skip_then

subsection \<open>Straight-line accounts\<close>

definition wire_GlobalState :: "byte list list \<Rightarrow> byte list list \<Rightarrow> GlobalState \<Rightarrow> byte list" where
  "wire_GlobalState devices users x =
     [gs_AccountType x] @
     [gs_BumpSeed x] @
     enc_u128 (gs_AccountIndex x) @
     enc_slice (gs_FoundationAllowlist x) @
     enc_slice devices @
     enc_slice users @
     gs_ActivatorAuthorityPK x @
     gs_SentinelAuthorityPK x @
     le_bytes 8 (gs_ContributorAirdropLamports x) @
     le_bytes 8 (gs_UserAirdropLamports x) @
     gs_HealthOraclePK x @
     enc_slice (gs_QAAllowlist x) @
     enc_u128 (gs_FeatureFlags x) @
     gs_FeedAuthorityPK x"

definition ok_GlobalState :: "byte list list \<Rightarrow> byte list list \<Rightarrow> GlobalState \<Rightarrow> bool" where
  "ok_GlobalState devices users x \<longleftrightarrow>
     slice_ok 32 (gs_FoundationAllowlist x) \<and>
     slice_ok 32 devices \<and>
     slice_ok 32 users \<and>
     length (gs_ActivatorAuthorityPK x) = 32 \<and>
     length (gs_SentinelAuthorityPK x) = 32 \<and>
     length (gs_HealthOraclePK x) = 32 \<and>
     slice_ok 32 (gs_QAAllowlist x) \<and>
     length (gs_FeedAuthorityPK x) = 32"

lemma yields_GlobalState:
  assumes "ok_GlobalState devices users x"
  shows "yields (DeserializeGlobalState x0) (wire_GlobalState devices users x) ys (x\<lparr>gs_PubKey := gs_PubKey x0\<rparr>)"
  unfolding DeserializeGlobalState_def wire_GlobalState_def
  by (rule yields_eq, (rule fields_then fields_skip | rule fields_last)+)
    (use assms in \<open>simp_all add: ok_GlobalState_def\<close>)

definition wire_GlobalConfig :: "GlobalConfig \<Rightarrow> byte list" where
  "wire_GlobalConfig x =
     [cfg_AccountType x] @
     cfg_Owner x @
     [cfg_BumpSeed x] @
     le_bytes 4 (cfg_LocalASN x) @
     le_bytes 4 (cfg_RemoteASN x) @
     cfg_DeviceTunnelBlock x @
     cfg_UserTunnelBlock x @
     cfg_MulticastGroupBlock x @
     le_bytes 2 (cfg_NextBGPCommunity x) @
     cfg_MulticastPublisherBlock x"

definition ok_GlobalConfig :: "GlobalConfig \<Rightarrow> bool" where
  "ok_GlobalConfig x \<longleftrightarrow>
     length (cfg_Owner x) = 32 \<and>
     length (cfg_DeviceTunnelBlock x) = 5 \<and>
     length (cfg_UserTunnelBlock x) = 5 \<and>
     length (cfg_MulticastGroupBlock x) = 5 \<and>
     length (cfg_MulticastPublisherBlock x) = 5"

lemma yields_GlobalConfig:
  assumes "ok_GlobalConfig x"
  shows "yields (DeserializeGlobalConfig x0) (wire_GlobalConfig x) ys (x\<lparr>cfg_PubKey := cfg_PubKey x0\<rparr>)"
  unfolding DeserializeGlobalConfig_def wire_GlobalConfig_def
  by (rule yields_eq, (rule fields_then fields_skip | rule fields_last)+)
    (use assms in \<open>simp_all add: ok_GlobalConfig_def\<close>)

definition wire_Location :: "Location \<Rightarrow> byte list" where
  "wire_Location x =
     [loc_AccountType x] @
     loc_Owner x @
     enc_u128 (loc_Index x) @
     [loc_BumpSeed x] @
     le_bytes 8 (f64_bits (loc_Lat x)) @
     le_bytes 8 (f64_bits (loc_Lng x)) @
     le_bytes 4 (loc_LocId x) @
     [loc_Status x] @
     enc_string (loc_Code x) @
     enc_string (loc_Name x) @
     enc_string (loc_Country x) @
     le_bytes 4 (loc_ReferenceCount x)"

definition ok_Location :: "Location \<Rightarrow> bool" where
  "ok_Location x \<longleftrightarrow>
     length (loc_Owner x) = 32 \<and>
     length (loc_Code x) < 2 ^ 32 \<and>
     length (loc_Name x) < 2 ^ 32 \<and>
     length (loc_Country x) < 2 ^ 32"

lemma yields_Location:
  assumes "ok_Location x"
  shows "yields (DeserializeLocation x0) (wire_Location x) ys (x\<lparr>loc_PubKey := loc_PubKey x0\<rparr>)"
  unfolding DeserializeLocation_def wire_Location_def
  by (rule yields_eq, (rule fields_then fields_skip | rule fields_last)+)
    (use assms in \<open>simp_all add: ok_Location_def\<close>)

definition wire_Exchange :: "uint16 \<Rightarrow> Exchange \<Rightarrow> byte list" where
  "wire_Exchange unused x =
     [exchange_AccountType x] @
     exchange_Owner x @
     enc_u128 (exchange_Index x) @
     [exchange_BumpSeed x] @
     le_bytes 8 (f64_bits (exchange_Lat x)) @
     le_bytes 8 (f64_bits (exchange_Lng x)) @
     le_bytes 2 (exchange_BgpCommunity x) @
     le_bytes 2 unused @
     [exchange_Status x] @
     enc_string (exchange_Code x) @
     enc_string (exchange_Name x) @
     le_bytes 4 (exchange_ReferenceCount x) @
     exchange_Device1PK x @
     exchange_Device2PK x"

definition ok_Exchange :: "Exchange \<Rightarrow> bool" where
  "ok_Exchange x \<longleftrightarrow>
     length (exchange_Owner x) = 32 \<and>
     length (exchange_Code x) < 2 ^ 32 \<and>
     length (exchange_Name x) < 2 ^ 32 \<and>
     length (exchange_Device1PK x) = 32 \<and>
     length (exchange_Device2PK x) = 32"

lemma yields_Exchange:
  assumes "ok_Exchange x"
  shows "yields (DeserializeExchange x0) (wire_Exchange unused x) ys (x\<lparr>exchange_PubKey := exchange_PubKey x0\<rparr>)"
  unfolding DeserializeExchange_def wire_Exchange_def
  by (rule yields_eq, (rule fields_then fields_skip | rule fields_last)+)
    (use assms in \<open>simp_all add: ok_Exchange_def\<close>)

definition wire_Contributor :: "Contributor \<Rightarrow> byte list" where
  "wire_Contributor x =
     [contributor_AccountType x] @
     contributor_Owner x @
     enc_u128 (contributor_Index x) @
     [contributor_BumpSeed x] @
     [contributor_Status x] @
     enc_string (contributor_Code x) @
     le_bytes 4 (contributor_ReferenceCount x) @
     contributor_OpsManagerPK x"

definition ok_Contributor :: "Contributor \<Rightarrow> bool" where
  "ok_Contributor x \<longleftrightarrow>
     length (contributor_Owner x) = 32 \<and>
     length (contributor_Code x) < 2 ^ 32 \<and>
     length (contributor_OpsManagerPK x) = 32"

lemma yields_Contributor:
  assumes "ok_Contributor x"
  shows "yields (DeserializeContributor x0) (wire_Contributor x) ys (x\<lparr>contributor_PubKey := contributor_PubKey x0\<rparr>)"
  unfolding DeserializeContributor_def wire_Contributor_def
  by (rule yields_eq, (rule fields_then fields_skip | rule fields_last)+)
    (use assms in \<open>simp_all add: ok_Contributor_def\<close>)

definition wire_Link :: "Link \<Rightarrow> byte list" where
  "wire_Link x =
     [link_AccountType x] @
     link_Owner x @
     enc_u128 (link_Index x) @
     [link_BumpSeed x] @
     link_SideAPubKey x @
     link_SideZPubKey x @
     [link_LinkType x] @
     le_bytes 8 (link_Bandwidth x) @
     le_bytes 4 (link_Mtu x) @
     le_bytes 8 (link_DelayNs x) @
     le_bytes 8 (link_JitterNs x) @
     le_bytes 2 (link_TunnelId x) @
     link_TunnelNet x @
     [link_Status x] @
     enc_string (link_Code x) @
     link_ContributorPubKey x @
     enc_string (link_SideAIfaceName x) @
     enc_string (link_SideZIfaceName x) @
     le_bytes 8 (link_DelayOverrideNs x) @
     [link_LinkHealth x] @
     [link_LinkDesiredStatus x] @
     enc_slice (link_LinkTopologies x) @
     le_bytes 4 (link_LinkFlags x)"

definition ok_Link :: "Link \<Rightarrow> bool" where
  "ok_Link x \<longleftrightarrow>
     length (link_Owner x) = 32 \<and>
     length (link_SideAPubKey x) = 32 \<and>
     length (link_SideZPubKey x) = 32 \<and>
     length (link_TunnelNet x) = 5 \<and>
     length (link_Code x) < 2 ^ 32 \<and>
     length (link_ContributorPubKey x) = 32 \<and>
     length (link_SideAIfaceName x) < 2 ^ 32 \<and>
     length (link_SideZIfaceName x) < 2 ^ 32 \<and>
     slice_ok 32 (link_LinkTopologies x)"

lemma yields_Link:
  assumes "ok_Link x"
  shows "yields (DeserializeLink x0) (wire_Link x) ys (x\<lparr>link_PubKey := link_PubKey x0\<rparr>)"
  unfolding DeserializeLink_def wire_Link_def
  by (rule yields_eq, (rule fields_then fields_skip | rule fields_last)+)
    (use assms in \<open>simp_all add: ok_Link_def\<close>)

definition wire_User :: "User \<Rightarrow> byte list" where
  "wire_User x =
     [user_AccountType x] @
     user_Owner x @
     enc_u128 (user_Index x) @
     [user_BumpSeed x] @
     [user_UserType x] @
     user_TenantPubKey x @
     user_DevicePubKey x @
     [user_CyoaType x] @
     user_ClientIp x @
     user_DzIp x @
     le_bytes 2 (user_TunnelId x) @
     user_TunnelNet x @
     [user_Status x] @
     enc_slice (user_Publishers x) @
     enc_slice (user_Subscribers x) @
     user_ValidatorPubKey x @
     user_TunnelEndpoint x @
     [user_TunnelFlags x] @
     [user_BgpStatus x] @
     le_bytes 8 (user_LastBgpUpAt x) @
     le_bytes 8 (user_LastBgpReportedAt x) @
     le_bytes 8 (user_BgpRttNs x) @
     user_FeedPk x"

definition ok_User :: "User \<Rightarrow> bool" where
  "ok_User x \<longleftrightarrow>
     length (user_Owner x) = 32 \<and>
     length (user_TenantPubKey x) = 32 \<and>
     length (user_DevicePubKey x) = 32 \<and>
     length (user_ClientIp x) = 4 \<and>
     length (user_DzIp x) = 4 \<and>
     length (user_TunnelNet x) = 5 \<and>
     slice_ok 32 (user_Publishers x) \<and>
     slice_ok 32 (user_Subscribers x) \<and>
     length (user_ValidatorPubKey x) = 32 \<and>
     length (user_TunnelEndpoint x) = 4 \<and>
     length (user_FeedPk x) = 32"

lemma yields_User:
  assumes "ok_User x"
  shows "yields (DeserializeUser x0) (wire_User x) ys (x\<lparr>user_PubKey := user_PubKey x0\<rparr>)"
  unfolding DeserializeUser_def wire_User_def
  by (rule yields_eq, (rule fields_then fields_skip | rule fields_last)+)
    (use assms in \<open>simp_all add: ok_User_def\<close>)

definition wire_MulticastGroup :: "MulticastGroup \<Rightarrow> byte list" where
  "wire_MulticastGroup x =
     [mg_AccountType x] @
     mg_Owner x @
     enc_u128 (mg_Index x) @
     [mg_BumpSeed x] @
     mg_TenantPubKey x @
     mg_MulticastIp x @
     le_bytes 8 (mg_MaxBandwidth x) @
     [mg_Status x] @
     enc_string (mg_Code x) @
     le_bytes 4 (mg_PublisherCount x) @
     le_bytes 4 (mg_SubscriberCount x)"

definition ok_MulticastGroup :: "MulticastGroup \<Rightarrow> bool" where
  "ok_MulticastGroup x \<longleftrightarrow>
     length (mg_Owner x) = 32 \<and>
     length (mg_TenantPubKey x) = 32 \<and>
     length (mg_MulticastIp x) = 4 \<and>
     length (mg_Code x) < 2 ^ 32"

lemma yields_MulticastGroup:
  assumes "ok_MulticastGroup x"
  shows "yields (DeserializeMulticastGroup x0) (wire_MulticastGroup x) ys (x\<lparr>mg_PubKey := mg_PubKey x0\<rparr>)"
  unfolding DeserializeMulticastGroup_def wire_MulticastGroup_def
  by (rule yields_eq, (rule fields_then fields_skip | rule fields_last)+)
    (use assms in \<open>simp_all add: ok_MulticastGroup_def\<close>)

definition wire_Tenant :: "Tenant \<Rightarrow> byte list" where
  "wire_Tenant x =
     [tenant_AccountType x] @
     tenant_Owner x @
     [tenant_BumpSeed x] @
     enc_string (tenant_Code x) @
     le_bytes 2 (tenant_VrfId x) @
     le_bytes 4 (tenant_ReferenceCount x) @
     enc_slice (tenant_Administrators x) @
     [tenant_PaymentStatus x] @
     tenant_TokenAccount x @
     [of_bool (tenant_MetroRouting x)] @
     [of_bool (tenant_RouteLiveness x)] @
     [tenant_BillingDiscriminant x] @
     le_bytes 8 (tenant_BillingRate x) @
     le_bytes 8 (tenant_BillingLastDeductionDzEpoch x) @
     enc_slice (tenant_IncludeTopologies x)"

definition ok_Tenant :: "Tenant \<Rightarrow> bool" where
  "ok_Tenant x \<longleftrightarrow>
     length (tenant_Owner x) = 32 \<and>
     length (tenant_Code x) < 2 ^ 32 \<and>
     slice_ok 32 (tenant_Administrators x) \<and>
     length (tenant_TokenAccount x) = 32 \<and>
     slice_ok 32 (tenant_IncludeTopologies x)"

lemma yields_Tenant:
  assumes "ok_Tenant x"
  shows "yields (DeserializeTenant x0) (wire_Tenant x) ys (x\<lparr>tenant_PubKey := tenant_PubKey x0\<rparr>)"
  unfolding DeserializeTenant_def wire_Tenant_def
  by (rule yields_eq, (rule fields_then fields_skip | rule fields_last)+)
    (use assms in \<open>simp_all add: ok_Tenant_def\<close>)

definition wire_Permission :: "Permission \<Rightarrow> byte list" where
  "wire_Permission x =
     [perm_AccountType x] @
     perm_Owner x @
     [perm_BumpSeed x] @
     [perm_Status x] @
     perm_UserPayer x @
     le_bytes 8 (perm_PermissionsLo x) @
     le_bytes 8 (perm_PermissionsHi x)"

definition ok_Permission :: "Permission \<Rightarrow> bool" where
  "ok_Permission x \<longleftrightarrow>
     length (perm_Owner x) = 32 \<and>
     length (perm_UserPayer x) = 32"

lemma yields_Permission:
  assumes "ok_Permission x"
  shows "yields (DeserializePermission x0) (wire_Permission x) ys (x\<lparr>perm_PubKey := perm_PubKey x0\<rparr>)"
  unfolding DeserializePermission_def wire_Permission_def
  by (rule yields_eq, (rule fields_then fields_skip | rule fields_last)+)
    (use assms in \<open>simp_all add: ok_Permission_def\<close>)

definition wire_TopologyInfo :: "TopologyInfo \<Rightarrow> byte list" where
  "wire_TopologyInfo x =
     [topo_AccountType x] @
     topo_Owner x @
     [topo_BumpSeed x] @
     enc_string (topo_Name x) @
     [topo_AdminGroupBit x] @
     [topo_FlexAlgoNumber x] @
     [topo_Constraint x] @
     le_bytes 4 (topo_ReferenceCount x)"

definition ok_TopologyInfo :: "TopologyInfo \<Rightarrow> bool" where
  "ok_TopologyInfo x \<longleftrightarrow>
     length (topo_Owner x) = 32 \<and>
     length (topo_Name x) < 2 ^ 32"

lemma yields_TopologyInfo:
  assumes "ok_TopologyInfo x"
  shows "yields (DeserializeTopologyInfo x0) (wire_TopologyInfo x) ys (x\<lparr>topo_PubKey := topo_PubKey x0\<rparr>)"
  unfolding DeserializeTopologyInfo_def wire_TopologyInfo_def
  by (rule yields_eq, (rule fields_then fields_skip | rule fields_last)+)
    (use assms in \<open>simp_all add: ok_TopologyInfo_def\<close>)

definition wire_Feed :: "Feed \<Rightarrow> byte list" where
  "wire_Feed x =
     [feed_AccountType x] @
     feed_Owner x @
     [feed_BumpSeed x] @
     enc_string (feed_Code x) @
     enc_string (feed_Name x) @
     feed_Exchange x @
     enc_slice (feed_Groups x)"

definition ok_Feed :: "Feed \<Rightarrow> bool" where
  "ok_Feed x \<longleftrightarrow>
     length (feed_Owner x) = 32 \<and>
     length (feed_Code x) < 2 ^ 32 \<and>
     length (feed_Name x) < 2 ^ 32 \<and>
     length (feed_Exchange x) = 32 \<and>
     slice_ok 32 (feed_Groups x)"

lemma yields_Feed:
  assumes "ok_Feed x"
  shows "yields (DeserializeFeed x0) (wire_Feed x) ys (x\<lparr>feed_PubKey := feed_PubKey x0\<rparr>)"
  unfolding DeserializeFeed_def wire_Feed_def
  by (rule yields_eq, (rule fields_then fields_skip | rule fields_last)+)
    (use assms in \<open>simp_all add: ok_Feed_def\<close>)

definition wire_InterfaceV2 :: "Interface \<Rightarrow> byte list" where
  "wire_InterfaceV2 n =
     [iface_Status n] @
     enc_string (iface_Name n) @
     [iface_InterfaceType n] @
     [iface_InterfaceCYOA n] @
     [iface_InterfaceDIA n] @
     [iface_LoopbackType n] @
     le_bytes 8 (iface_Bandwidth n) @
     le_bytes 8 (iface_Cir n) @
     le_bytes 2 (iface_Mtu n) @
     [iface_RoutingMode n] @
     le_bytes 2 (iface_VlanId n) @
     iface_IpNet n @
     le_bytes 2 (iface_NodeSegmentIdx n) @
     [of_bool (iface_UserTunnelEndpoint n)]"

definition ok_InterfaceV2 :: "Interface \<Rightarrow> bool" where
  "ok_InterfaceV2 n \<longleftrightarrow>
     length (iface_Name n) < 2 ^ 32 \<and>
     length (iface_IpNet n) = 5"

lemma yields_InterfaceV2:
  assumes "ok_InterfaceV2 n"
  shows "yields (DeserializeInterfaceV2 n0) (wire_InterfaceV2 n) ys (n\<lparr>iface_Size := iface_Size n0, iface_Version := iface_Version n0, iface_FlexAlgoNodeSegments := iface_FlexAlgoNodeSegments n0\<rparr>)"
  unfolding DeserializeInterfaceV2_def wire_InterfaceV2_def
  by (rule yields_eq, (rule fields_then fields_skip | rule fields_last)+)
    (use assms in \<open>simp_all add: ok_InterfaceV2_def\<close>)

definition wire_InterfaceV1 :: "Interface \<Rightarrow> byte list" where
  "wire_InterfaceV1 n =
     [iface_Status n] @
     enc_string (iface_Name n) @
     [iface_InterfaceType n] @
     [iface_LoopbackType n] @
     le_bytes 2 (iface_VlanId n) @
     iface_IpNet n @
     le_bytes 2 (iface_NodeSegmentIdx n) @
     [of_bool (iface_UserTunnelEndpoint n)]"

definition ok_InterfaceV1 :: "Interface \<Rightarrow> bool" where
  "ok_InterfaceV1 n \<longleftrightarrow>
     length (iface_Name n) < 2 ^ 32 \<and>
     length (iface_IpNet n) = 5"

lemma yields_InterfaceV1:
  assumes "ok_InterfaceV1 n"
  shows "yields (DeserializeInterfaceV1 n0) (wire_InterfaceV1 n) ys (n\<lparr>iface_Size := iface_Size n0, iface_Version := iface_Version n0, iface_InterfaceCYOA := iface_InterfaceCYOA n0, iface_InterfaceDIA := iface_InterfaceDIA n0, iface_Bandwidth := iface_Bandwidth n0, iface_Cir := iface_Cir n0, iface_Mtu := iface_Mtu n0, iface_RoutingMode := iface_RoutingMode n0, iface_FlexAlgoNodeSegments := iface_FlexAlgoNodeSegments n0\<rparr>)"
  unfolding DeserializeInterfaceV1_def wire_InterfaceV1_def
  by (rule yields_eq, (rule fields_then fields_skip | rule fields_last)+)
    (use assms in \<open>simp_all add: ok_InterfaceV1_def\<close>)

subsection \<open>The program configuration\<close>

definition wire_ProgramVersion :: "ProgramVersion \<Rightarrow> byte list" where
  "wire_ProgramVersion v = le_bytes 4 (pv_Major v) @ le_bytes 4 (pv_Minor v) @ le_bytes 4 (pv_Patch v)"

definition wire_ProgramConfig :: "ProgramConfig \<Rightarrow> byte list" where
  "wire_ProgramConfig x = [pc_AccountType x] @ [pc_BumpSeed x] @ wire_ProgramVersion (pc_Version x) @
     wire_ProgramVersion (pc_MinCompatVersion x)"

interpretation f_version: field_reader "DeserializeProgramVersion v0" wire_ProgramVersion "\<lambda>_. True"
    "\<lparr>pv_Major = 0, pv_Minor = 0, pv_Patch = 0\<rparr>" for v0
proof
  show "yields (DeserializeProgramVersion v0) (wire_ProgramVersion v) ys v" for v ys
    unfolding DeserializeProgramVersion_def wire_ProgramVersion_def
    by (rule yields_eq, (rule fields_then | rule fields_last)+) (auto intro: ProgramVersion.equality)
  show "yields (DeserializeProgramVersion v0) [] [] \<lparr>pv_Major = 0, pv_Minor = 0, pv_Patch = 0\<rparr>"
    unfolding DeserializeProgramVersion_def
    by (rule yields_eq, (rule f_u32.missing_then | rule f_u32.assign_missing)+) (cases v0, simp)
qed

lemma yields_ProgramConfig: "yields (DeserializeProgramConfig x0) (wire_ProgramConfig x) ys x"
  unfolding DeserializeProgramConfig_def wire_ProgramConfig_def
  by (rule yields_eq, (rule fields_then f_version.assign_then | rule f_version.assign_last)+)
    (auto intro: ProgramConfig.equality)

subsection \<open>Interfaces\<close>

text \<open>
  The legacy slot holds the V2 projection of every interface. The current format puts the size and
  the schema version in front of the body; its segments follow the fields of V2.
\<close>

definition wire_legacy :: "Interface \<Rightarrow> byte list" where
  "wire_legacy n = [1] @ wire_InterfaceV2 n"

definition legacy_of :: "Interface \<Rightarrow> Interface" where
  "legacy_of n = n\<lparr>iface_Size := 0, iface_Version := 1, iface_FlexAlgoNodeSegments := []\<rparr>"

lemma yields_legacy:
  assumes "ok_InterfaceV2 n"
  shows "yields (DeserializeInterface zeroInterface) (wire_legacy n) ys (legacy_of n)"
  unfolding DeserializeInterface_def wire_legacy_def
  by (rule f_u8.assign_then) (use yields_InterfaceV2 [OF assms, of "zeroInterface\<lparr>iface_Version := 1\<rparr>" ys] in \<open>simp_all add: legacy_of_def zeroInterface_def\<close>)

lemma sizedBody_V2: "sizedBody = DeserializeInterfaceV2"
  by (simp add: fun_eq_iff sizedBody_def DeserializeInterfaceV2_def)

definition wire_FlexAlgoNodeSegment :: "FlexAlgoNodeSegment \<Rightarrow> byte list" where
  "wire_FlexAlgoNodeSegment s = seg_Topology s @ le_bytes 2 (seg_NodeSegmentIdx s)"

definition ok_segments :: "FlexAlgoNodeSegment list \<Rightarrow> bool" where
  "ok_segments segs \<longleftrightarrow> length segs < 2 ^ 32 \<and> list_all (\<lambda>s. length (seg_Topology s) = 32) segs"

definition serialize_body :: "Interface \<Rightarrow> byte list" where
  "serialize_body n = wire_InterfaceV2 n @
     le_bytes 4 (of_nat (length (iface_FlexAlgoNodeSegments n)) :: uint32) @
     concat (map wire_FlexAlgoNodeSegment (iface_FlexAlgoNodeSegments n))"

definition compute_on_disk_size :: "Interface \<Rightarrow> nat option" where
  "compute_on_disk_size n = (let total = 3 + length (serialize_body n) in
     if total > 65535 then None else Some total)"

definition wire_Interface :: "Interface \<Rightarrow> byte list" where
  "wire_Interface n = le_bytes 2 (of_nat (3 + length (serialize_body n)) :: uint16) @ [CurrentInterfaceVersion] @
     serialize_body n"

definition ok_Interface :: "Interface \<Rightarrow> bool" where
  "ok_Interface n \<longleftrightarrow> ok_InterfaceV2 n \<and> ok_segments (iface_FlexAlgoNodeSegments n)"

lemma yields_segment:
  assumes "length (seg_Topology s) = 32"
  shows "yields readSegment (wire_FlexAlgoNodeSegment s) ys s"
proof -
  have u: "yields br_ReadU16 (le_bytes 2 (seg_NodeSegmentIdx s)) ys (seg_NodeSegmentIdx s)" by (rule f_u16.rd_enc) simp
  show ?thesis
    unfolding readSegment_def wire_FlexAlgoNodeSegment_def
    by (rule yields_bind, rule f_pubkey.rd_enc, rule assms, rule yields_last, rule u, rule yields_eq, rule yields_return) simp
qed

lemma length_segment: "length (seg_Topology s) = 32 \<Longrightarrow> length (wire_FlexAlgoNodeSegment s) = 34"
  by (simp add: wire_FlexAlgoNodeSegment_def)

lemma yields_peek:
  assumes "yields (f (of_nat (length (bs @ ys)))) bs ys y"
  shows "yields (br_Remaining \<bind> f) bs ys y"
  using yields_bind [of br_Remaining "[]" bs ys "of_nat (length (bs @ ys))" f y] yields_Remaining [of "bs @ ys"] assms
  by simp

lemma yields_segmentLoop:
  assumes "list_all (\<lambda>s. length (seg_Topology s) = 32) segs"
  shows "yields (segmentLoop (length segs) acc) (concat (map wire_FlexAlgoNodeSegment segs)) ys (acc @ segs)"
  using assms
proof (induction segs arbitrary: acc)
  case Nil
  then show ?case by (simp add: yields_return)
next
  case (Cons s segs)
  let ?rest = "concat (map wire_FlexAlgoNodeSegment segs)"
  from Cons.prems have l: "length (wire_FlexAlgoNodeSegment s) = 34" by (simp add: length_segment)
  have "yields (segmentLoop (length segs) (acc @ [s])) ?rest ys ((acc @ [s]) @ segs)"
    by (rule Cons.IH) (use Cons.prems in simp)
  then have s: "yields (readSegment \<bind> (\<lambda>s. segmentLoop (length segs) (acc @ [s])))
      (wire_FlexAlgoNodeSegment s @ ?rest) ys (acc @ s # segs)"
    by (intro yields_bind [OF yields_segment]) (use Cons.prems in simp_all)
  show ?case
  proof (rule yields_small)
    assume "length (concat (map wire_FlexAlgoNodeSegment (s # segs)) @ ys) < 2 ^ 32"
    then have "34 + length (?rest @ ys) < 2 ^ 32" by (simp add: l)
    then have "\<not> (of_nat (34 + length (?rest @ ys)) :: uint32) < 34"
      by (simp add: word_less_nat_alt unsigned_of_nat take_bit_nat_eq_self del: of_nat_add)
    then show "yields (segmentLoop (length (s # segs)) acc) (concat (map wire_FlexAlgoNodeSegment (s # segs))) ys (acc @ s # segs)"
      using s by (simp add: l add.assoc yields_peek del: of_nat_add)
  qed
qed

lemma yields_body:
  assumes "ok_Interface n"
  shows "yields (do { iface \<leftarrow> sizedBody n0; segCount \<leftarrow> br_ReadU32;
      assign (segmentLoop (unat segCount) []) iface_FlexAlgoNodeSegments_update iface }) (serialize_body n) ys
    (n\<lparr>iface_Size := iface_Size n0, iface_Version := iface_Version n0\<rparr>)"
proof -
  let ?segs = "iface_FlexAlgoNodeSegments n"
  have o: "ok_InterfaceV2 n" "length ?segs < 2 ^ 32" "list_all (\<lambda>s. length (seg_Topology s) = 32) ?segs"
    using assms by (simp_all add: ok_Interface_def ok_segments_def)
  have u: "unat (of_nat (length ?segs) :: uint32) = length ?segs"
    using o(2) by (simp add: unsigned_of_nat take_bit_nat_eq_self)
  have s: "yields (segmentLoop (length ?segs) []) (concat (map wire_FlexAlgoNodeSegment ?segs)) ys ?segs"
    using yields_segmentLoop [OF o(3), of "[]" ys] by simp
  show ?thesis
    unfolding serialize_body_def sizedBody_V2
    by (rule yields_eq, rule yields_bind, rule yields_InterfaceV2 [OF o(1)], rule yields_bind, rule f_u32.rd_enc, simp,
        simp only: u, rule yields_assign, rule s) simp
qed

text \<open>
  A size-prefixed element of any schema version: the known body, then bytes this reader does not
  know. The size covers both, so the reader stops right behind the element.
\<close>

definition wire_sized :: "uint8 \<Rightarrow> Interface \<Rightarrow> byte list \<Rightarrow> byte list" where
  "wire_sized version n unknown =
     le_bytes 2 (of_nat (3 + length (serialize_body n) + length unknown) :: uint16) @ [version] @ serialize_body n @ unknown"

definition sizedFields :: "Interface \<Rightarrow> Interface br" where
  "sizedFields iface = do {
     iface \<leftarrow> assign br_ReadU16 iface_Size_update iface;
     iface \<leftarrow> assign br_ReadU8 iface_Version_update iface;
     iface \<leftarrow> sizedBody iface;
     segCount \<leftarrow> br_ReadU32;
     assign (segmentLoop (unat segCount) []) iface_FlexAlgoNodeSegments_update iface }"

lemma sized_alt:
  "DeserializeInterfaceSized n0 = do {
     start \<leftarrow> GetOffset;
     iface \<leftarrow> sizedFields n0;
     _ \<leftarrow> skipTo (start + unat (iface_Size iface));
     State_Monad.return iface }"
  by (simp add: DeserializeInterfaceSized_def sizedFields_def)

lemma yields_sizedFields:
  assumes "ok_Interface n"
  shows "yields (sizedFields n0) (le_bytes 2 sz @ [version] @ serialize_body n) ys
    (n\<lparr>iface_Size := sz, iface_Version := version\<rparr>)"
  unfolding sizedFields_def
  by (rule f_u16.assign_then, rule f_u8.assign_then, rule yields_eq, rule yields_body [OF assms]) simp_all

lemma run_skipTo:
  assumes "offset r \<le> target" and "target \<le> length (data r)"
  shows "run_state (skipTo target) r = ((), advance (target - offset r) r)"
  using assms by (auto simp: skipTo_def GetOffset_def br_Skip_def advance_def)

lemma yields_sized:
  assumes "ok_Interface n" and "3 + length (serialize_body n) + length unknown < 2 ^ 16"
  shows "yields (DeserializeInterfaceSized n0) (wire_sized version n unknown) ys
    (n\<lparr>iface_Size := of_nat (3 + length (serialize_body n) + length unknown), iface_Version := version\<rparr>)"
proof (rule yieldsI)
  fix r
  assume c: "cursor_small r" and u: "unread r = wire_sized version n unknown @ ys"
  define k where "k = 3 + length (serialize_body n)"
  define sz where "sz = (of_nat (k + length unknown) :: uint16)"
  let ?n = "n\<lparr>iface_Size := sz, iface_Version := version\<rparr>"
  have w: "wire_sized version n unknown = (le_bytes 2 sz @ [version] @ serialize_body n) @ unknown"
    by (simp add: wire_sized_def sz_def k_def del: of_nat_add)
  have lk: "length (le_bytes 2 sz @ [version] @ serialize_body n) = k" by (simp add: k_def)
  have "run_state (sizedFields n0) r = (?n, advance (length (le_bytes 2 sz @ [version] @ serialize_body n)) r)"
    by (rule yieldsD [OF yields_sizedFields [OF assms(1)] c, of _ _ "unknown @ ys"]) (simp add: u w)
  then have f: "run_state (sizedFields n0) r = (?n, advance k r)" by (simp only: lk)
  have v: "unat sz = k + length unknown"
    using assms(2) by (simp add: sz_def k_def unsigned_of_nat take_bit_nat_eq_self del: of_nat_add)
  have "k + length unknown \<le> length (unread r)" unfolding u w using lk by simp
  then have "run_state (skipTo (offset r + (k + length unknown))) (advance k r) = ((), advance (length unknown) (advance k r))"
    using c by (subst run_skipTo) (auto simp: cursor_small_def)
  then show "run_state (DeserializeInterfaceSized n0) r =
      (n\<lparr>iface_Size := of_nat (3 + length (serialize_body n) + length unknown), iface_Version := version\<rparr>,
       advance (length (wire_sized version n unknown)) r)"
    unfolding k_def [symmetric] sz_def [symmetric] w length_append [of _ unknown] lk
    by (simp add: sized_alt GetOffset_def f v)
qed

definition stamped :: "Interface \<Rightarrow> Interface" where
  "stamped n = n\<lparr>iface_Size := of_nat (3 + length (serialize_body n)), iface_Version := CurrentInterfaceVersion\<rparr>"

lemma yields_Interface:
  assumes "ok_Interface n" and "compute_on_disk_size n = Some k"
  shows "yields (DeserializeInterfaceSized n0) (wire_Interface n) ys (stamped n)"
  using yields_sized [OF assms(1), of "[]" n0 CurrentInterfaceVersion ys] assms(2)
  by (simp add: wire_sized_def wire_Interface_def stamped_def compute_on_disk_size_def Let_def del: of_nat_add split: if_splits)

subsection \<open>Devices\<close>

definition wire_deviceHead :: "Device \<Rightarrow> byte list" where
  "wire_deviceHead x =
     [dev_AccountType x] @
     dev_Owner x @
     enc_u128 (dev_Index x) @
     [dev_BumpSeed x] @
     dev_LocationPubKey x @
     dev_ExchangePubKey x @
     [dev_DeviceType x] @
     dev_PublicIp x @
     [dev_Status x] @
     enc_string (dev_Code x) @
     enc_slice (dev_DzPrefixes x) @
     dev_MetricsPublisherPubKey x @
     dev_ContributorPubKey x @
     enc_string (dev_MgmtVrf x)"

definition ok_deviceHead :: "Device \<Rightarrow> bool" where
  "ok_deviceHead x \<longleftrightarrow>
     length (dev_Owner x) = 32 \<and>
     length (dev_LocationPubKey x) = 32 \<and>
     length (dev_ExchangePubKey x) = 32 \<and>
     length (dev_PublicIp x) = 4 \<and>
     length (dev_Code x) < 2 ^ 32 \<and>
     slice_ok 5 (dev_DzPrefixes x) \<and>
     length (dev_MetricsPublisherPubKey x) = 32 \<and>
     length (dev_ContributorPubKey x) = 32 \<and>
     length (dev_MgmtVrf x) < 2 ^ 32"

lemma yields_deviceHead:
  assumes "ok_deviceHead x"
  shows "yields (deviceHead x0) (wire_deviceHead x) ys
     (x0\<lparr>dev_AccountType := dev_AccountType x, dev_Owner := dev_Owner x, dev_Index := dev_Index x,
      dev_BumpSeed := dev_BumpSeed x, dev_LocationPubKey := dev_LocationPubKey x, dev_ExchangePubKey :=
      dev_ExchangePubKey x, dev_DeviceType := dev_DeviceType x, dev_PublicIp := dev_PublicIp x, dev_Status :=
      dev_Status x, dev_Code := dev_Code x, dev_DzPrefixes := dev_DzPrefixes x, dev_MetricsPublisherPubKey :=
      dev_MetricsPublisherPubKey x, dev_ContributorPubKey := dev_ContributorPubKey x, dev_MgmtVrf :=
      dev_MgmtVrf x\<rparr>)"
  unfolding deviceHead_def wire_deviceHead_def
  by (rule yields_eq, (rule fields_then | rule fields_last)+) (use assms in \<open>simp_all add: ok_deviceHead_def\<close>)

definition wire_deviceCounters :: "Device \<Rightarrow> byte list" where
  "wire_deviceCounters x =
     le_bytes 4 (dev_ReferenceCount x) @
     le_bytes 2 (dev_UsersCount x) @
     le_bytes 2 (dev_MaxUsers x) @
     [dev_DeviceHealth x] @
     [dev_DeviceDesiredStatus x] @
     le_bytes 2 (dev_UnicastUsersCount x) @
     le_bytes 2 (dev_MulticastSubscribersCount x) @
     le_bytes 2 (dev_MaxUnicastUsers x) @
     le_bytes 2 (dev_MaxMulticastSubscribers x) @
     le_bytes 2 (dev_ReservedSeats x) @
     le_bytes 2 (dev_MulticastPublishersCount x) @
     le_bytes 2 (dev_MaxMulticastPublishers x)"

lemma yields_deviceCounters:
  shows "yields (deviceCounters x0) (wire_deviceCounters x) ys
     (x0\<lparr>dev_ReferenceCount := dev_ReferenceCount x, dev_UsersCount := dev_UsersCount x, dev_MaxUsers :=
      dev_MaxUsers x, dev_DeviceHealth := dev_DeviceHealth x, dev_DeviceDesiredStatus :=
      dev_DeviceDesiredStatus x, dev_UnicastUsersCount := dev_UnicastUsersCount x,
      dev_MulticastSubscribersCount := dev_MulticastSubscribersCount x, dev_MaxUnicastUsers :=
      dev_MaxUnicastUsers x, dev_MaxMulticastSubscribers := dev_MaxMulticastSubscribers x, dev_ReservedSeats :=
      dev_ReservedSeats x, dev_MulticastPublishersCount := dev_MulticastPublishersCount x,
      dev_MaxMulticastPublishers := dev_MaxMulticastPublishers x\<rparr>)"
  unfolding deviceCounters_def wire_deviceCounters_def
  by (rule yields_eq, (rule fields_then | rule fields_last)+) simp_all

definition wire_Device :: "Device \<Rightarrow> byte list" where
  "wire_Device x = wire_deviceHead x @
     le_bytes 4 (of_nat (length (dev_Interfaces x)) :: uint32) @ concat (map wire_legacy (dev_Interfaces x)) @
     wire_deviceCounters x @
     le_bytes 4 (of_nat (length (dev_Interfaces x)) :: uint32) @ concat (map wire_Interface (dev_Interfaces x))"

definition ok_Device :: "Device \<Rightarrow> bool" where
  "ok_Device x \<longleftrightarrow> ok_deviceHead x \<and>
     length (dev_Interfaces x) * 18 < 2 ^ 32 \<and>
     list_all (\<lambda>n. ok_Interface n \<and> compute_on_disk_size n \<noteq> None) (dev_Interfaces x)"

lemma legacy_size: "18 \<le> length (wire_legacy n)"
  by (simp add: wire_legacy_def wire_InterfaceV2_def)

lemma legacy_slot_size: "length ns * 18 \<le> length (concat (map wire_legacy ns))"
proof (induction ns)
  case (Cons n ns)
  then show ?case using legacy_size [of n] by simp
qed simp

lemma legacy_guard:
  assumes "length ns * 18 \<le> rest" and "rest < 2 ^ 32" and "length ns * 18 < 2 ^ 32"
  shows "\<not> (of_nat (length ns) :: uint32) * 18 > of_nat rest"
proof -
  have "unat (of_nat (length ns) * 18 :: uint32) = length ns * 18"
    using assms(3) word_mult_no_wrap [of "of_nat (length ns)" 18] by (simp add: unsigned_of_nat take_bit_nat_eq_self)
  moreover have "unat (of_nat rest :: uint32) = rest" using assms(2) by (simp add: unsigned_of_nat take_bit_nat_eq_self)
  ultimately show ?thesis using assms(1) by (simp add: word_less_nat_alt)
qed

lemma yields_legacy_slot:
  assumes f: "yields (f (of_nat (length ns))) (concat (map wire_legacy ns) @ cs) ys y" and n: "length ns * 18 < 2 ^ 32"
  shows "yields (do { len \<leftarrow> br_ReadU32; remaining \<leftarrow> br_Remaining;
      if len > 0 \<and> len * 18 > remaining then State_Monad.return d else f len })
    (le_bytes 4 (of_nat (length ns) :: uint32) @ concat (map wire_legacy ns) @ cs) ys y"
proof (rule yields_bind, rule f_u32.rd_enc, simp, rule yields_peek, rule yields_small)
  let ?rest = "(concat (map wire_legacy ns) @ cs) @ ys"
  assume "length ?rest < 2 ^ 32"
  then have "\<not> (of_nat (length ns) :: uint32) * 18 > of_nat (length ?rest)"
    using legacy_slot_size [of ns] n by (intro legacy_guard) simp_all
  then show "yields (if (of_nat (length ns) :: uint32) > 0 \<and> of_nat (length ns) * 18 > (of_nat (length ?rest) :: uint32)
      then State_Monad.return d else f (of_nat (length ns))) (concat (map wire_legacy ns) @ cs) ys y"
    using f by (simp only: simp_thms if_False)
qed

lemma yields_trailing:
  assumes n: "length (dev_DeprecatedInterfaces d) = length ns" "length ns < 2 ^ 32"
    and ok: "list_all (\<lambda>n. ok_Interface n \<and> compute_on_disk_size n \<noteq> None) ns"
  shows "yields (deviceInterfaces d) (le_bytes 4 (of_nat (length ns) :: uint32) @ concat (map wire_Interface ns)) ys
    (d\<lparr>dev_Interfaces := map stamped ns\<rparr>)"
proof (rule yields_small)
  let ?bs = "le_bytes 4 (of_nat (length ns) :: uint32) @ concat (map wire_Interface ns)"
  assume "length (?bs @ ys) < 2 ^ 32"
  then have z: "(of_nat (length (?bs @ ys)) :: uint32) \<noteq> 0"
    unfolding unat_eq_0 [symmetric] by (simp add: unsigned_of_nat take_bit_nat_eq_self del: of_nat_add)
  have u: "unat (of_nat (length ns) :: uint32) = length ns" using n(2) by (simp add: unsigned_of_nat take_bit_nat_eq_self)
  have l: "yields (br_loop (DeserializeInterfaceSized zeroInterface) (length ns)) (concat (map wire_Interface ns)) ys (map stamped ns)"
    by (rule yields_loop) (use ok in \<open>auto simp: list_all_iff intro: yields_Interface\<close>)
  show "yields (deviceInterfaces d) ?bs ys (d\<lparr>dev_Interfaces := map stamped ns\<rparr>)"
    unfolding deviceInterfaces_def
    by (rule yields_peek, simp only: z if_False, rule yields_bind, rule f_u32.rd_enc, simp, simp only: u n(1) simp_thms if_False)
      (rule yields_assign [OF l])
qed

lemma yields_Device:
  assumes "ok_Device x"
  shows "yields (DeserializeDevice x0) (wire_Device x) ys
    (x\<lparr>dev_DeprecatedInterfaces := map legacy_of (dev_Interfaces x), dev_Interfaces := map stamped (dev_Interfaces x),
       dev_DeserializeError := dev_DeserializeError x0, dev_PubKey := dev_PubKey x0\<rparr>)"
proof -
  let ?ns = "dev_Interfaces x"
  have h: "ok_deviceHead x" and n18: "length ?ns * 18 < 2 ^ 32"
    and ok: "list_all (\<lambda>n. ok_Interface n \<and> compute_on_disk_size n \<noteq> None) ?ns"
    using assms by (simp_all add: ok_Device_def)
  then have n: "length ?ns < 2 ^ 32" by simp
  then have u: "unat (of_nat (length ?ns) :: uint32) = length ?ns" by (simp add: unsigned_of_nat take_bit_nat_eq_self)
  have l: "yields (br_loop (DeserializeInterface zeroInterface) (length ?ns)) (concat (map wire_legacy ?ns)) zs (map legacy_of ?ns)" for zs
    by (rule yields_loop) (use ok in \<open>auto simp: list_all_iff ok_Interface_def intro: yields_legacy\<close>)
  show ?thesis
    unfolding DeserializeDevice_def wire_Device_def
    by (rule yields_bind, rule yields_deviceHead [OF h], simp only: State_Monad.bind_left_identity,
        rule yields_legacy_slot [OF _ n18], simp only: u, rule yields_bind, rule yields_assign, rule l,
        rule yields_bind, rule yields_deviceCounters, rule yields_eq, rule yields_trailing [OF _ n ok]) simp_all
qed

subsection \<open>Access passes\<close>

definition wire_FeedSeat :: "FeedSeat \<Rightarrow> byte list" where
  "wire_FeedSeat s = seat_FeedKey s @ [seat_MaxUsers s] @ [seat_MaxFutureUsers s] @ [seat_CurrentUsers s] @
     [seat_AnniversaryDay s] @ le_bytes 8 (word_of_int (seat_WindowEnd s) :: uint64) @
     le_bytes 8 (word_of_int (seat_TerminatesAt s) :: uint64)"

definition in_i64 :: "int \<Rightarrow> bool" where
  "in_i64 v \<longleftrightarrow> - (2 ^ 63) \<le> v \<and> v < 2 ^ 63"

definition ok_FeedSeat :: "FeedSeat \<Rightarrow> bool" where
  "ok_FeedSeat s \<longleftrightarrow> length (seat_FeedKey s) = 32 \<and> in_i64 (seat_WindowEnd s) \<and> in_i64 (seat_TerminatesAt s)"

lemma yields_I64:
  assumes "in_i64 v"
  shows "yields br_ReadI64 (le_bytes 8 (word_of_int v :: uint64)) ys v"
proof -
  have "sint (word_of_int v :: uint64) = v" using assms by (simp add: in_i64_def sint_sbintrunc' signed_take_bit_int_eq_self)
  then show ?thesis
    unfolding br_ReadI64_def
    by (intro yields_last [where x = "word_of_int v"]) (simp_all add: f_u64.rd_enc yields_eq [OF yields_return])
qed

lemma yields_FeedSeat:
  assumes "ok_FeedSeat s"
  shows "yields readFeedSeat (wire_FeedSeat s) ys s"
proof -
  have o: "length (seat_FeedKey s) = 32" "in_i64 (seat_WindowEnd s)" "in_i64 (seat_TerminatesAt s)"
    using assms by (simp_all add: ok_FeedSeat_def)
  show ?thesis
    unfolding readFeedSeat_def wire_FeedSeat_def
    by (rule yields_bind, rule f_pubkey.rd_enc, rule o(1), rule yields_bind, rule f_u8.rd_enc, simp,
        rule yields_bind, rule f_u8.rd_enc, simp, rule yields_bind, rule f_u8.rd_enc, simp,
        rule yields_bind, rule f_u8.rd_enc, simp, rule yields_bind, rule yields_I64 [OF o(2)],
        rule yields_last, rule yields_I64 [OF o(3)], rule yields_eq, rule yields_return) simp
qed

interpretation f_u16d: field_reader "br_ReadU16OrDefault d" "le_bytes 2" "\<lambda>_. True" d for d
  by (rule scalar_field [where k = 2 and f = le_word and what = "''u16''"])
    (auto simp: br_ReadU16OrDefault_def br_ReadU16_def scalar_def drop_err_def)

definition wire_accessPassType :: "AccessPass \<Rightarrow> byte list" where
  "wire_accessPassType x = (
     if ap_AccessPassTypeTag x = AccessPassTypeSolanaValidator \<or> ap_AccessPassTypeTag x = AccessPassTypeSolanaRPC
     then ap_AssociatedPubkey x
     else if ap_AccessPassTypeTag x = AccessPassTypeOthers
     then enc_string (ap_OthersTypeName x) @ enc_string (ap_OthersKey x)
     else if ap_AccessPassTypeTag x = AccessPassTypeEdgeSeat
     then le_bytes 4 (of_nat (length (ap_FeedSeats x)) :: uint32) @ concat (map wire_FeedSeat (ap_FeedSeats x))
     else [])"

text \<open>The variant's own data are well-formed and the fields of the other variants are Go's zero values.\<close>

definition ok_accessPassType :: "AccessPass \<Rightarrow> bool" where
  "ok_accessPassType x \<longleftrightarrow> ap_AccessPassTypeTag x \<in> {AccessPassTypePrepaid, AccessPassTypeSolanaValidator, AccessPassTypeSolanaRPC,
       AccessPassTypeOthers, AccessPassTypeEdgeSeat} \<and>
     (if ap_AccessPassTypeTag x = AccessPassTypeSolanaValidator \<or> ap_AccessPassTypeTag x = AccessPassTypeSolanaRPC
      then length (ap_AssociatedPubkey x) = 32 else ap_AssociatedPubkey x = replicate 32 0) \<and>
     (if ap_AccessPassTypeTag x = AccessPassTypeOthers
      then length (ap_OthersTypeName x) < 2 ^ 32 \<and> length (ap_OthersKey x) < 2 ^ 32
      else ap_OthersTypeName x = [] \<and> ap_OthersKey x = []) \<and>
     (if ap_AccessPassTypeTag x = AccessPassTypeEdgeSeat
      then length (ap_FeedSeats x) < 2 ^ 32 \<and> list_all ok_FeedSeat (ap_FeedSeats x)
      else ap_FeedSeats x = [])"

lemma seat_size: "ok_FeedSeat s \<Longrightarrow> length (wire_FeedSeat s) = 52"
  by (simp add: wire_FeedSeat_def ok_FeedSeat_def)

lemma seats_size: "list_all ok_FeedSeat ss \<Longrightarrow> length (concat (map wire_FeedSeat ss)) = length ss * 52"
  by (induction ss) (simp_all add: seat_size)

lemma seats_guard:
  assumes "k * 52 \<le> rest" and "rest < 2 ^ 32" and "0 < k"
  shows "(of_nat k :: uint32) > 0 \<and> of_nat k \<le> (of_nat rest :: uint32) div 52"
proof -
  have "unat (of_nat rest :: uint32) = rest" "unat (of_nat k :: uint32) = k"
    using assms by (simp_all add: unsigned_of_nat take_bit_nat_eq_self)
  then show ?thesis using assms by (simp add: word_less_nat_alt word_le_nat_alt unat_div)
qed

lemma yields_seats:
  assumes o: "list_all ok_FeedSeat ss" "length ss < 2 ^ 32" and z: "ap_FeedSeats a = []"
  shows "yields (do { count \<leftarrow> br_ReadU32; remaining \<leftarrow> br_Remaining;
      if count > 0 \<and> count \<le> remaining div 52 then assign (br_loop readFeedSeat (unat count)) ap_FeedSeats_update a
      else State_Monad.return a })
    (le_bytes 4 (of_nat (length ss) :: uint32) @ concat (map wire_FeedSeat ss)) ys (a\<lparr>ap_FeedSeats := ss\<rparr>)"
proof (cases "ss = []")
  case True
  have a: "a\<lparr>ap_FeedSeats := []\<rparr> = a" using z by simp
  show ?thesis
    unfolding True a list.size of_nat_0 list.map concat.simps append_Nil2
    by (rule yields_last, rule f_u32.rd_enc, simp, rule yields_peek) (simp add: yields_return)
next
  case False
  let ?bs = "concat (map wire_FeedSeat ss)"
  have l: "yields (br_loop readFeedSeat (length ss)) ?bs ys ss"
    using yields_loop [of ss readFeedSeat wire_FeedSeat id ys] o(1) by (auto simp: list_all_iff yields_FeedSeat)
  show ?thesis
  proof (rule yields_bind, rule f_u32.rd_enc, simp, rule yields_peek, rule yields_small)
    assume "length (?bs @ ys) < 2 ^ 32"
    then have "(of_nat (length ss) :: uint32) > 0 \<and> of_nat (length ss) \<le> (of_nat (length (?bs @ ys)) :: uint32) div 52"
      using False seats_size [OF o(1)] by (intro seats_guard) simp_all
    moreover have "unat (of_nat (length ss) :: uint32) = length ss" using o(2) by (simp add: unsigned_of_nat take_bit_nat_eq_self)
    ultimately show "yields (if (of_nat (length ss) :: uint32) > 0 \<and> of_nat (length ss) \<le> (of_nat (length (?bs @ ys)) :: uint32) div 52
        then assign (br_loop readFeedSeat (unat (of_nat (length ss) :: uint32))) ap_FeedSeats_update a
        else State_Monad.return a) ?bs ys (a\<lparr>ap_FeedSeats := ss\<rparr>)"
      by (simp only: simp_thms if_True) (rule yields_assign [OF l])
  qed
qed

lemma yields_accessPassType:
  assumes "ok_accessPassType x" and "ap_AccessPassTypeTag a = ap_AccessPassTypeTag x"
    and z: "ap_AssociatedPubkey a = replicate 32 0" "ap_OthersTypeName a = []" "ap_OthersKey a = []" "ap_FeedSeats a = []"
  shows "yields (accessPassType a) (wire_accessPassType x) ys
    (a\<lparr>ap_AssociatedPubkey := ap_AssociatedPubkey x, ap_OthersTypeName := ap_OthersTypeName x,
       ap_OthersKey := ap_OthersKey x, ap_FeedSeats := ap_FeedSeats x\<rparr>)"
proof -
  let ?t = "ap_AccessPassTypeTag x"
  consider "?t = 0" | "?t = 1" | "?t = 2" | "?t = 3" | "?t = 4"
    using assms(1) by (auto simp: ok_accessPassType_def tag_defs)
  then show ?thesis
  proof cases
    case 4
    then have "length (ap_OthersTypeName x) < 2 ^ 32" "length (ap_OthersKey x) < 2 ^ 32"
      using assms(1) by (simp_all add: ok_accessPassType_def tag_defs)
    then have "yields (do { ap \<leftarrow> assign br_ReadString ap_OthersTypeName_update a; assign br_ReadString ap_OthersKey_update ap })
      (enc_string (ap_OthersTypeName x) @ enc_string (ap_OthersKey x)) ys
      (a\<lparr>ap_OthersTypeName := ap_OthersTypeName x, ap_OthersKey := ap_OthersKey x\<rparr>)"
      by - (rule yields_eq, rule f_string.assign_then, rule f_string.assign_last, simp_all)
    then show ?thesis using 4 assms z
      by (simp add: accessPassType_def wire_accessPassType_def ok_accessPassType_def tag_defs)
        (erule yields_eq, simp add: z)
  next
    case 5
    then have o: "length (ap_FeedSeats x) < 2 ^ 32" "list_all ok_FeedSeat (ap_FeedSeats x)"
      using assms(1) by (simp_all add: ok_accessPassType_def tag_defs)
    from yields_seats [OF o(2,1) z(4), of ys] show ?thesis using 5 assms
      by (simp add: accessPassType_def wire_accessPassType_def ok_accessPassType_def tag_defs)
        (erule yields_eq, simp add: z)
  qed (use assms in \<open>auto simp: accessPassType_def wire_accessPassType_def ok_accessPassType_def tag_defs
      intro!: yields_eq [OF yields_return] yields_eq [OF f_pubkey.assign_last]\<close>)
qed

definition wire_accessPassHead :: "AccessPass \<Rightarrow> byte list" where
  "wire_accessPassHead x =
     [ap_AccountType x] @
     ap_Owner x @
     [ap_BumpSeed x] @
     [ap_AccessPassTypeTag x]"

definition ok_accessPassHead :: "AccessPass \<Rightarrow> bool" where
  "ok_accessPassHead x \<longleftrightarrow>
     length (ap_Owner x) = 32"

lemma yields_accessPassHead:
  assumes "ok_accessPassHead x"
  shows "yields (accessPassHead x0) (wire_accessPassHead x) ys
     (x0\<lparr>ap_AccountType := ap_AccountType x, ap_Owner := ap_Owner x, ap_BumpSeed := ap_BumpSeed x,
      ap_AccessPassTypeTag := ap_AccessPassTypeTag x\<rparr>)"
  unfolding accessPassHead_def wire_accessPassHead_def
  by (rule yields_eq, (rule fields_then f_u16d.assign_then | rule fields_last f_u16d.assign_last)+)
    (use assms in \<open>simp_all add: ok_accessPassHead_def\<close>)

definition wire_accessPassTail :: "AccessPass \<Rightarrow> byte list" where
  "wire_accessPassTail x =
     ap_ClientIp x @
     ap_UserPayer x @
     le_bytes 8 (ap_LastAccessEpoch x) @
     le_bytes 2 (ap_ConnectionCount x) @
     [ap_Status x] @
     enc_slice (ap_MGroupPubAllowlist x) @
     enc_slice (ap_MGroupSubAllowlist x) @
     [ap_Flags x] @
     enc_slice (ap_TenantAllowlist x) @
     le_bytes 2 (ap_UnicastUserCount x) @
     le_bytes 2 (ap_MaxUnicastUsers x) @
     le_bytes 2 (ap_MulticastUserCount x) @
     le_bytes 2 (ap_MaxMulticastUsers x)"

definition ok_accessPassTail :: "AccessPass \<Rightarrow> bool" where
  "ok_accessPassTail x \<longleftrightarrow>
     length (ap_ClientIp x) = 4 \<and>
     length (ap_UserPayer x) = 32 \<and>
     slice_ok 32 (ap_MGroupPubAllowlist x) \<and>
     slice_ok 32 (ap_MGroupSubAllowlist x) \<and>
     slice_ok 32 (ap_TenantAllowlist x)"

lemma yields_accessPassTail:
  assumes "ok_accessPassTail x"
  shows "yields (accessPassTail x0) (wire_accessPassTail x) ys
     (x0\<lparr>ap_ClientIp := ap_ClientIp x, ap_UserPayer := ap_UserPayer x, ap_LastAccessEpoch :=
      ap_LastAccessEpoch x, ap_ConnectionCount := ap_ConnectionCount x, ap_Status := ap_Status x,
      ap_MGroupPubAllowlist := ap_MGroupPubAllowlist x, ap_MGroupSubAllowlist := ap_MGroupSubAllowlist x,
      ap_Flags := ap_Flags x, ap_TenantAllowlist := ap_TenantAllowlist x, ap_UnicastUserCount :=
      ap_UnicastUserCount x, ap_MaxUnicastUsers := ap_MaxUnicastUsers x, ap_MulticastUserCount :=
      ap_MulticastUserCount x, ap_MaxMulticastUsers := ap_MaxMulticastUsers x\<rparr>)"
  unfolding accessPassTail_def wire_accessPassTail_def
  by (rule yields_eq, (rule fields_then f_u16d.assign_then | rule fields_last f_u16d.assign_last)+)
    (use assms in \<open>simp_all add: ok_accessPassTail_def\<close>)

definition wire_AccessPass :: "AccessPass \<Rightarrow> byte list" where
  "wire_AccessPass x = wire_accessPassHead x @ wire_accessPassType x @ wire_accessPassTail x"

definition ok_AccessPass :: "AccessPass \<Rightarrow> bool" where
  "ok_AccessPass x \<longleftrightarrow> ok_accessPassHead x \<and> ok_accessPassType x \<and> ok_accessPassTail x"

lemma yields_AccessPass:
  assumes "ok_AccessPass x"
  shows "yields (DeserializeAccessPass zeroAccessPass) (wire_AccessPass x) ys (x\<lparr>ap_PubKey := replicate 32 0\<rparr>)"
proof -
  have o: "ok_accessPassHead x" "ok_accessPassType x" "ok_accessPassTail x" using assms by (simp_all add: ok_AccessPass_def)
  show ?thesis
    unfolding DeserializeAccessPass_def wire_AccessPass_def
    by (rule yields_bind, rule yields_accessPassHead [OF o(1)], rule yields_bind, rule yields_accessPassType [OF o(2)])
      (simp_all add: zeroAccessPass_def, rule yields_eq, rule yields_accessPassTail [OF o(3)], simp)
qed

subsection \<open>Resource pools\<close>

definition wire_extensionHead :: "ResourceExtension \<Rightarrow> byte list" where
  "wire_extensionHead x =
     [ext_AccountType x] @
     ext_Owner x @
     [ext_BumpSeed x] @
     ext_AssociatedWith x"

definition ok_extensionHead :: "ResourceExtension \<Rightarrow> bool" where
  "ok_extensionHead x \<longleftrightarrow>
     length (ext_Owner x) = 32 \<and>
     length (ext_AssociatedWith x) = 32"

lemma yields_extensionHead:
  assumes "ok_extensionHead x"
  shows "yields (extensionHead x0) (wire_extensionHead x) ys
     (x0\<lparr>ext_AccountType := ext_AccountType x, ext_Owner := ext_Owner x, ext_BumpSeed := ext_BumpSeed x,
      ext_AssociatedWith := ext_AssociatedWith x\<rparr>)"
  unfolding extensionHead_def wire_extensionHead_def
  by (rule yields_eq, (rule fields_then f_u16d.assign_then | rule fields_last f_u16d.assign_last)+)
    (use assms in \<open>simp_all add: ok_extensionHead_def\<close>)

definition wire_Allocator :: "Allocator \<Rightarrow> byte list" where
  "wire_Allocator a = (case (alloc_IpAllocator a, alloc_IdAllocator a) of
     (Some ip, _) \<Rightarrow> [AllocatorTypeIp] @ ipa_BaseNet ip @ le_bytes 8 (ipa_FirstFreeIndex ip)
   | (None, Some i) \<Rightarrow> [AllocatorTypeId] @ le_bytes 2 (ida_RangeStart i) @ le_bytes 2 (ida_RangeEnd i) @
       le_bytes 8 (ida_FirstFreeIndex i)
   | (None, None) \<Rightarrow> [])"

text \<open>An allocator of one of the two kinds, with its tag.\<close>

definition ok_Allocator :: "Allocator \<Rightarrow> bool" where
  "ok_Allocator a \<longleftrightarrow> (case (alloc_IpAllocator a, alloc_IdAllocator a) of
     (Some ip, None) \<Rightarrow> alloc_Type a = AllocatorTypeIp \<and> length (ipa_BaseNet ip) = 5
   | (None, Some i) \<Rightarrow> alloc_Type a = AllocatorTypeId
   | _ \<Rightarrow> False)"

text \<open>The header is padded to 88 bytes and the bitmap follows.\<close>

definition wire_ResourceExtension :: "ResourceExtension \<Rightarrow> byte list" where
  "wire_ResourceExtension x = (let h = wire_extensionHead x @ wire_Allocator (ext_Allocator x)
     in h @ replicate (88 - length h) 0 @ ext_Storage x)"

definition ok_ResourceExtension :: "ResourceExtension \<Rightarrow> bool" where
  "ok_ResourceExtension x \<longleftrightarrow> ok_extensionHead x \<and> ok_Allocator (ext_Allocator x)"

lemma yields_IpAllocator:
  assumes "length (ipa_BaseNet a) = 5"
  shows "yields readIpAllocator (ipa_BaseNet a @ le_bytes 8 (ipa_FirstFreeIndex a)) ys a"
  unfolding readIpAllocator_def
  by (rule yields_bind, rule f_net.rd_enc, rule assms, rule yields_last, rule f_u64.rd_enc, simp, rule yields_eq, rule yields_return) simp

lemma yields_IdAllocator:
  "yields readIdAllocator (le_bytes 2 (ida_RangeStart a) @ le_bytes 2 (ida_RangeEnd a) @ le_bytes 8 (ida_FirstFreeIndex a)) ys a"
  unfolding readIdAllocator_def
  by (rule yields_bind, rule f_u16.rd_enc, simp, rule yields_bind, rule f_u16.rd_enc, simp, rule yields_last, rule f_u64.rd_enc, simp,
      rule yields_eq, rule yields_return) simp

lemma head_size: "ok_ResourceExtension x \<Longrightarrow> length (wire_extensionHead x @ wire_Allocator (ext_Allocator x)) \<le> 88"
  by (auto simp: ok_ResourceExtension_def ok_extensionHead_def ok_Allocator_def wire_extensionHead_def wire_Allocator_def
      split: option.splits)

lemma run_readBitmap:
  assumes c: "cursor_small r" and o: "offset r \<le> 88" and u: "unread r = replicate (88 - offset r) 0 @ st"
    and z: "ext_Storage e = []"
  shows "fst (run_state (readBitmap e) r) = e\<lparr>ext_Storage := st\<rparr>"
proof -
  let ?r = "advance (88 - offset r) r"
  have "length (unread r) = 88 - offset r + length st" unfolding u by simp
  then have l: "length (data r) = 88 + length st" using c o unfolding cursor_small_def length_unread by arith
  have s: "run_state (skipTo resourceExtensionBitmapOffset) r = ((), ?r)"
    using run_skipTo [of r 88] o l by (simp add: resourceExtensionBitmapOffset_def)
  have us: "unread ?r = st" using u by simp
  have cs: "cursor_small ?r" using c o l by (simp add: cursor_small_def)
  have "length st < 2 ^ 32" using c l by (simp add: cursor_small_def)
  then have v: "unat (of_nat (length st) :: uint32) = length st" by (simp add: unsigned_of_nat take_bit_nat_eq_self)
  have rem: "run_state br_Remaining ?r = (of_nat (length st), ?r)" by (rule run_Remaining [OF cs, unfolded us])
  have "fst (run_state (br_ReadBytes (length st)) ?r) = st"
    using subslice_unread [of ?r "length st"] us l o by (simp add: br_ReadBytes_def del: unread_advance)
  then show ?thesis
    by (cases "st = []") (simp_all add: readBitmap_def s rem v assign_def z split_beta del: unread_advance)
qed

lemma cursor_small_advance: "cursor_small r \<Longrightarrow> unread r = bs @ ys \<Longrightarrow> cursor_small (advance (length bs) r)"
  by (auto simp: cursor_small_def dest: arg_cong [where f = length])

lemma parsed_ResourceExtension:
  assumes "ok_ResourceExtension x" and "length (wire_ResourceExtension x) < 2 ^ 32"
  shows "parsed (DeserializeResourceExtension zeroResourceExtension) (wire_ResourceExtension x) = x\<lparr>ext_PubKey := replicate 32 0\<rparr>"
proof -
  let ?a = "ext_Allocator x" and ?w = "wire_extensionHead x"
  let ?h = "?w @ wire_Allocator ?a"
  let ?pad = "replicate (88 - length ?h) 0 @ ext_Storage x"
  let ?e = "zeroResourceExtension\<lparr>ext_AccountType := ext_AccountType x, ext_Owner := ext_Owner x,
    ext_BumpSeed := ext_BumpSeed x, ext_AssociatedWith := ext_AssociatedWith x\<rparr>"
  define r where "r = NewByteReader (wire_ResourceExtension x)"
  have o: "ok_extensionHead x" "ok_Allocator ?a" using assms(1) by (simp_all add: ok_ResourceExtension_def)
  have c: "cursor_small r" and u: "unread r = ?h @ ?pad" and r0: "offset r = 0"
    using assms(2) by (simp_all add: r_def NewByteReader_def cursor_small_def unread_def wire_ResourceExtension_def Let_def)
  have u1: "unread r = ?w @ wire_Allocator ?a @ ?pad" using u by simp
  define r1 where "r1 = advance (length ?w) r"
  define r2 where "r2 = advance (length [alloc_Type ?a]) r1"
  have h: "run_state (extensionHead zeroResourceExtension) r = (?e, r1)"
    unfolding r1_def by (rule yieldsD [OF yields_extensionHead [OF o(1)] c u1])
  have c1: "cursor_small r1" unfolding r1_def by (rule cursor_small_advance [OF c u1])
  have u1': "unread r1 = wire_Allocator ?a @ ?pad" unfolding r1_def unread_advance u1 by simp
  have fin: "fst (run_state (readBitmap (?e\<lparr>ext_Allocator := ?a\<rparr>)) (advance (length ?h) r)) = x\<lparr>ext_PubKey := replicate 32 0\<rparr>"
    using head_size [OF assms(1)] cursor_small_advance [OF c u] u
    by (subst run_readBitmap) (auto intro!: ResourceExtension.equality simp: r0 zeroResourceExtension_def)
  have step: "parsed (DeserializeResourceExtension zeroResourceExtension) (wire_ResourceExtension x) = x\<lparr>ext_PubKey := replicate 32 0\<rparr>"
    if w: "wire_Allocator ?a = [alloc_Type ?a] @ b"
      and k: "run_state m r2 = (y, advance (length b) r2)"
      and d: "run_state (DeserializeResourceExtension zeroResourceExtension) r = run_state (m \<bind> (\<lambda>a. readBitmap (g a))) r2"
      and g: "g y = ?e\<lparr>ext_Allocator := ?a\<rparr>"
    for b and m :: "'a br" and y g
  proof -
    have "advance (length b) r2 = advance (length ?h) r" by (simp add: r2_def r1_def w add.assoc)
    then show ?thesis using fin by (simp add: parsed_def r_def [symmetric] d k g)
  qed
  have t: "run_state br_ReadU8 r1 = (alloc_Type ?a, r2)" if "wire_Allocator ?a = [alloc_Type ?a] @ b" for b
    unfolding r2_def by (rule yieldsD [OF f_u8.rd_enc c1, of _ "b @ ?pad"]) (simp_all add: u1' that)
  have u2: "cursor_small r2 \<and> unread r2 = b @ ?pad" if "wire_Allocator ?a = [alloc_Type ?a] @ b" for b
    using cursor_small_advance [OF c1, of "[alloc_Type ?a]" "b @ ?pad"] u1' that by (simp add: r2_def)
  show ?thesis
  proof (cases "alloc_IpAllocator ?a")
    case (Some ip)
    with o(2) have i: "length (ipa_BaseNet ip) = 5" "alloc_Type ?a = AllocatorTypeIp" "alloc_IdAllocator ?a = None"
      by (auto simp: ok_Allocator_def split: option.splits)
    let ?b = "ipa_BaseNet ip @ le_bytes 8 (ipa_FirstFreeIndex ip)"
    have w: "wire_Allocator ?a = [alloc_Type ?a] @ ?b" using Some i by (simp add: wire_Allocator_def)
    show ?thesis
    proof (rule step [OF w, of readIpAllocator ip "\<lambda>a. ?e\<lparr>ext_Allocator :=
        (ext_Allocator ?e)\<lparr>alloc_Type := alloc_Type ?a, alloc_IpAllocator := Some a\<rparr>\<rparr>"])
      show "run_state readIpAllocator r2 = (ip, advance (length ?b) r2)"
        using u2 [OF w] by (intro yieldsD [OF yields_IpAllocator [OF i(1)]]) simp_all
      show "run_state (DeserializeResourceExtension zeroResourceExtension) r = run_state (readIpAllocator \<bind>
          (\<lambda>a. readBitmap (?e\<lparr>ext_Allocator := (ext_Allocator ?e)\<lparr>alloc_Type := alloc_Type ?a, alloc_IpAllocator := Some a\<rparr>\<rparr>))) r2"
        using i by (simp add: DeserializeResourceExtension_def h t [OF w])
    qed (use Some i in \<open>auto simp: zeroResourceExtension_def zeroAllocator_def intro!: Allocator.equality\<close>)
  next
    case None
    with o(2) obtain i where i: "alloc_IdAllocator ?a = Some i" "alloc_Type ?a = AllocatorTypeId"
      by (auto simp: ok_Allocator_def split: option.splits)
    let ?b = "le_bytes 2 (ida_RangeStart i) @ le_bytes 2 (ida_RangeEnd i) @ le_bytes 8 (ida_FirstFreeIndex i)"
    have w: "wire_Allocator ?a = [alloc_Type ?a] @ ?b" using None i by (simp add: wire_Allocator_def)
    show ?thesis
    proof (rule step [OF w, of readIdAllocator i "\<lambda>a. ?e\<lparr>ext_Allocator :=
        (ext_Allocator ?e)\<lparr>alloc_Type := alloc_Type ?a, alloc_IdAllocator := Some a\<rparr>\<rparr>"])
      show "run_state readIdAllocator r2 = (i, advance (length ?b) r2)"
        using u2 [OF w] by (intro yieldsD [OF yields_IdAllocator]) simp_all
      show "run_state (DeserializeResourceExtension zeroResourceExtension) r = run_state (readIdAllocator \<bind>
          (\<lambda>a. readBitmap (?e\<lparr>ext_Allocator := (ext_Allocator ?e)\<lparr>alloc_Type := alloc_Type ?a, alloc_IdAllocator := Some a\<rparr>\<rparr>))) r2"
        using i by (simp add: DeserializeResourceExtension_def h t [OF w] tag_defs)
    qed (use None i in \<open>auto simp: zeroResourceExtension_def zeroAllocator_def intro!: Allocator.equality\<close>)
  qed
qed

end
