(* ===== verification/Serviceability_Accounts.thy ===== *)
theory Serviceability_Accounts
  imports Serviceability_Wire
begin

text \<open>
  What the Go SDK makes of the accounts of the program. \<open>GetProgramData\<close> over any set of accounts
  that the Rust program wrote gives every one of them back; accounts written before a field was
  appended get the documented default; interface elements of a newer schema are skipped to their
  end. The theory also shows the two places where the cursor of an interface element goes wrong.
\<close>







lemma parsed_yields: "yields m bs [] x \<Longrightarrow> length bs < 2 ^ 32 \<Longrightarrow> parsed m bs = x"
  using yieldsD [of m bs "[]" x "NewByteReader bs"] by (simp add: parsed_def NewByteReader_def cursor_small_def unread_def)





















subsection \<open>Accounts from before a field was appended\<close>

definition wire_User_before_rtt :: "User \<Rightarrow> byte list" where
  "wire_User_before_rtt x =
     [user_AccountType x] @
     user_Owner x @
     enc_u128 (user_Index x) @
     [user_BumpSeed x] @
     [user_UserType x] @
     user_TenantPubKey x @
     user_DevicePubKey x @
     [user_CyoaType x] @
     user_ClientIp x @
     user_DzIp x @
     le_bytes 2 (user_TunnelId x) @
     user_TunnelNet x @
     [user_Status x] @
     enc_slice (user_Publishers x) @
     enc_slice (user_Subscribers x) @
     user_ValidatorPubKey x @
     user_TunnelEndpoint x @
     [user_TunnelFlags x] @
     [user_BgpStatus x] @
     le_bytes 8 (user_LastBgpUpAt x) @
     le_bytes 8 (user_LastBgpReportedAt x)"

definition wire_accessPassTail_before_caps :: "AccessPass \<Rightarrow> byte list" where
  "wire_accessPassTail_before_caps x =
     ap_ClientIp x @
     ap_UserPayer x @
     le_bytes 8 (ap_LastAccessEpoch x) @
     le_bytes 2 (ap_ConnectionCount x) @
     [ap_Status x] @
     enc_slice (ap_MGroupPubAllowlist x) @
     enc_slice (ap_MGroupSubAllowlist x) @
     [ap_Flags x] @
     enc_slice (ap_TenantAllowlist x)"

definition wire_AccessPass_before_caps :: "AccessPass \<Rightarrow> byte list" where
  "wire_AccessPass_before_caps x = wire_accessPassHead x @ wire_accessPassType x @ wire_accessPassTail_before_caps x"

definition wire_Device_before_interfaces :: "Device \<Rightarrow> byte list" where
  "wire_Device_before_interfaces x = wire_deviceHead x @
     le_bytes 4 (of_nat (length (dev_Interfaces x)) :: uint32) @ concat (map wire_legacy (dev_Interfaces x)) @
     wire_deviceCounters x"

lemma yields_User_before_rtt:
  assumes "ok_User x"
  shows "yields (DeserializeUser x0) (wire_User_before_rtt x) []
    (x\<lparr>user_BgpRttNs := 0, user_FeedPk := replicate 32 0, user_PubKey := user_PubKey x0\<rparr>)"
proof -
  have w: "wire_User_before_rtt x = wire_User_before_rtt x @ []" by simp
  show ?thesis
    apply (rule yields_eq)
     apply (subst w)
     apply (unfold DeserializeUser_def wire_User_before_rtt_def append_assoc)
     apply ((rule fields_then | rule f_u64.missing_then f_pubkey.assign_missing)+)
    apply (use assms in \<open>simp_all add: ok_User_def\<close>)
    done
qed

lemma yields_Tail_before_caps:
  assumes "ok_accessPassTail x"
  shows "yields (accessPassTail x0) (wire_accessPassTail_before_caps x) []
    (x0\<lparr>ap_ClientIp := ap_ClientIp x, ap_UserPayer := ap_UserPayer x, ap_LastAccessEpoch := ap_LastAccessEpoch x,
       ap_ConnectionCount := ap_ConnectionCount x, ap_Status := ap_Status x, ap_MGroupPubAllowlist := ap_MGroupPubAllowlist x,
       ap_MGroupSubAllowlist := ap_MGroupSubAllowlist x, ap_Flags := ap_Flags x, ap_TenantAllowlist := ap_TenantAllowlist x,
       ap_UnicastUserCount := 0, ap_MaxUnicastUsers := 1, ap_MulticastUserCount := 0, ap_MaxMulticastUsers := 1\<rparr>)"
proof -
  have w: "wire_accessPassTail_before_caps x = wire_accessPassTail_before_caps x @ []" by simp
  show ?thesis
    apply (rule yields_eq)
     apply (subst w)
     apply (unfold accessPassTail_def wire_accessPassTail_before_caps_def append_assoc)
     apply ((rule fields_then | rule f_u16.missing_then f_u16d.missing_then f_u16d.assign_missing)+)
    apply (use assms in \<open>simp_all add: ok_accessPassTail_def\<close>)
    done
qed

lemma yields_AccessPass_before_caps:
  assumes "ok_AccessPass x"
  shows "yields (DeserializeAccessPass zeroAccessPass) (wire_AccessPass_before_caps x) []
    (x\<lparr>ap_UnicastUserCount := 0, ap_MaxUnicastUsers := 1, ap_MulticastUserCount := 0, ap_MaxMulticastUsers := 1,
       ap_PubKey := replicate 32 0\<rparr>)"
proof -
  have o: "ok_accessPassHead x" "ok_accessPassType x" "ok_accessPassTail x" using assms by (simp_all add: ok_AccessPass_def)
  show ?thesis
    unfolding DeserializeAccessPass_def wire_AccessPass_before_caps_def
    by (rule yields_bind, rule yields_accessPassHead [OF o(1)], rule yields_bind, rule yields_accessPassType [OF o(2)])
      (simp_all add: zeroAccessPass_def, rule yields_eq, rule yields_Tail_before_caps [OF o(3)], simp)
qed

lemma yields_no_trailing: "yields (deviceInterfaces d) [] [] (d\<lparr>dev_Interfaces := map rebuilt (dev_DeprecatedInterfaces d)\<rparr>)"
  unfolding deviceInterfaces_def by (rule yields_peek) (simp add: yields_return)

lemma yields_Device_before_interfaces:
  assumes "ok_Device x"
  shows "yields (DeserializeDevice zeroDevice) (wire_Device_before_interfaces x) []
    (x\<lparr>dev_DeprecatedInterfaces := map legacy_of (dev_Interfaces x),
       dev_Interfaces := map (rebuilt \<circ> legacy_of) (dev_Interfaces x),
       dev_DeserializeError := None, dev_PubKey := replicate 32 0\<rparr>)"
proof -
  let ?ns = "dev_Interfaces x"
  have h: "ok_deviceHead x" and n18: "length ?ns * 18 < 2 ^ 32"
    and ok: "list_all (\<lambda>n. ok_Interface n \<and> compute_on_disk_size n \<noteq> None) ?ns"
    using assms by (simp_all add: ok_Device_def)
  then have u: "unat (of_nat (length ?ns) :: uint32) = length ?ns" by (simp add: unsigned_of_nat take_bit_nat_eq_self)
  have l: "yields (br_loop (DeserializeInterface zeroInterface) (length ?ns)) (concat (map wire_legacy ?ns)) zs (map legacy_of ?ns)" for zs
    by (rule yields_loop) (use ok in \<open>auto simp: list_all_iff ok_Interface_def intro: yields_legacy\<close>)
  show ?thesis
    unfolding DeserializeDevice_def wire_Device_before_interfaces_def
    by (rule yields_bind, rule yields_deviceHead [OF h], simp only: State_Monad.bind_left_identity,
        rule yields_legacy_slot [OF _ n18], simp only: u, rule yields_bind, rule yields_assign, rule l,
        rule yields_last, rule yields_deviceCounters, rule yields_eq, rule yields_no_trailing) (simp_all add: zeroDevice_def)
qed

text \<open>
  C11. Append-only evolution. Accounts written before the last fields of their struct existed are
  read with the documented defaults and every other field intact: a user without round-trip time
  and feed gets zero, an access pass without seat counters gets caps of one, and a device without
  the trailing list of interfaces has it rebuilt from the legacy slot.
\<close>

theorem older_accounts_get_defaults:
  assumes "ok_User u" and "ok_AccessPass a" and "ok_Device d"
    and "length (wire_User u) < 2 ^ 32" and "length (wire_AccessPass a) < 2 ^ 32" and "length (wire_Device d) < 2 ^ 32"
  shows "parsed (DeserializeUser zeroUser) (wire_User_before_rtt u) =
      u\<lparr>user_BgpRttNs := 0, user_FeedPk := replicate 32 0, user_PubKey := replicate 32 0\<rparr> \<and>
    parsed (DeserializeAccessPass zeroAccessPass) (wire_AccessPass_before_caps a) =
      a\<lparr>ap_UnicastUserCount := 0, ap_MaxUnicastUsers := 1, ap_MulticastUserCount := 0, ap_MaxMulticastUsers := 1,
        ap_PubKey := replicate 32 0\<rparr> \<and>
    parsed (DeserializeDevice zeroDevice) (wire_Device_before_interfaces d) =
      d\<lparr>dev_DeprecatedInterfaces := map legacy_of (dev_Interfaces d),
        dev_Interfaces := map (rebuilt \<circ> legacy_of) (dev_Interfaces d),
        dev_DeserializeError := None, dev_PubKey := replicate 32 0\<rparr>"
proof -
  have l: "length (wire_User_before_rtt u) < 2 ^ 32" "length (wire_AccessPass_before_caps a) < 2 ^ 32"
    "length (wire_Device_before_interfaces d) < 2 ^ 32"
    using assms(4-6)
    by (simp_all add: wire_User_def wire_User_before_rtt_def wire_AccessPass_def wire_AccessPass_before_caps_def
        wire_accessPassTail_def wire_accessPassTail_before_caps_def wire_Device_def wire_Device_before_interfaces_def)
  show ?thesis
    using parsed_yields [OF yields_User_before_rtt [OF assms(1), of zeroUser] l(1)]
      parsed_yields [OF yields_AccessPass_before_caps [OF assms(2)] l(2)]
      parsed_yields [OF yields_Device_before_interfaces [OF assms(3)] l(3)]
    by (simp add: zeroUser_def)
qed

theorem older_accounts_get_defaults_witness:
  "ap_MaxUnicastUsers (parsed (DeserializeAccessPass zeroAccessPass) (wire_AccessPass_before_caps zeroAccessPass)) = 1"
proof -
  have "ok_User zeroUser" "ok_AccessPass zeroAccessPass" "ok_Device zeroDevice"
    "length (wire_User zeroUser) < 2 ^ 32" "length (wire_AccessPass zeroAccessPass) < 2 ^ 32" "length (wire_Device zeroDevice) < 2 ^ 32"
    by (simp_all add: ok_User_def zeroUser_def ok_AccessPass_def zeroAccessPass_def ok_accessPassHead_def ok_accessPassType_def
        ok_accessPassTail_def ok_Device_def zeroDevice_def ok_deviceHead_def slice_ok_def tag_defs wire_User_def
        wire_AccessPass_def wire_accessPassHead_def wire_accessPassType_def wire_accessPassTail_def wire_Device_def
        wire_deviceHead_def wire_deviceCounters_def enc_slice_def enc_string_def enc_u128_def)
  from older_accounts_get_defaults [OF this] show ?thesis by simp
qed

subsection \<open>Interface elements of other schema versions\<close>

text \<open>
  C14. Forward compatibility of the interface list. Elements of any schema version, whose known body
  is followed by any bytes this reader does not know, are all read with their known fields, and
  every element starts where the size of the one before says, however many they are.
\<close>

theorem newer_interfaces_are_skipped_exactly:
  assumes "list_all (\<lambda>(version, n, unknown). ok_Interface n \<and> 3 + length (serialize_body n) + length unknown < 2 ^ 16) es"
    and "cursor_small r" and "unread r = concat (map (\<lambda>(version, n, unknown). wire_sized version n unknown) es) @ ys"
  shows "run_state (br_loop (DeserializeInterfaceSized zeroInterface) (length es)) r =
    (map (\<lambda>(version, n, unknown). n\<lparr>iface_Size := of_nat (3 + length (serialize_body n) + length unknown),
        iface_Version := version\<rparr>) es,
     advance (\<Sum>(version, n, unknown)\<leftarrow>es. 3 + length (serialize_body n) + length unknown) r)"
proof -
  let ?w = "\<lambda>(version, n, unknown). wire_sized version n unknown"
  let ?f = "\<lambda>(version, n, unknown). n\<lparr>iface_Size := of_nat (3 + length (serialize_body n) + length unknown), iface_Version := version\<rparr>"
  have "yields (DeserializeInterfaceSized zeroInterface) (?w e) zs (?f e)" if "e \<in> set es" for e zs
  proof (cases e)
    case (fields version n unknown)
    then have "ok_Interface n" "3 + length (serialize_body n) + length unknown < 2 ^ 16"
      using assms(1) that by (auto simp: list_all_iff)
    then show ?thesis unfolding fields prod.case by (rule yields_sized)
  qed
  then have y: "yields (br_loop (DeserializeInterfaceSized zeroInterface) (length es)) (concat (map ?w es)) ys (map ?f es)"
    by (rule yields_loop)
  have l: "length (concat (map ?w es)) = (\<Sum>(version, n, unknown)\<leftarrow>es. 3 + length (serialize_body n) + length unknown)"
    by (induction es) (auto simp: wire_sized_def)
  from yieldsD [OF y assms(2,3)] show ?thesis unfolding l .
qed

lemma empty_body: "length (serialize_body zeroInterface) = 42" "ok_Interface zeroInterface"
  by (simp_all add: serialize_body_def wire_InterfaceV2_def zeroInterface_def enc_string_def ok_Interface_def
      ok_InterfaceV2_def ok_segments_def)

theorem newer_interfaces_are_skipped_exactly_witness:
  "snd (run_state (br_loop (DeserializeInterfaceSized zeroInterface) 1) (NewByteReader (wire_sized 9 zeroInterface [1, 2, 3]))) =
     advance 48 (NewByteReader (wire_sized 9 zeroInterface [1, 2, 3]))"
proof -
  let ?es = "[(9 :: uint8, zeroInterface, [1, 2, 3] :: byte list)]"
  have 1: "list_all (\<lambda>(version, n, unknown). ok_Interface n \<and> 3 + length (serialize_body n) + length unknown < 2 ^ 16) ?es"
    by (simp add: empty_body)
  have 2: "cursor_small (NewByteReader (wire_sized 9 zeroInterface [1, 2, 3]))"
    by (simp add: cursor_small_def NewByteReader_def wire_sized_def empty_body)
  have 3: "unread (NewByteReader (wire_sized 9 zeroInterface [1, 2, 3])) =
      concat (map (\<lambda>(version, n, unknown). wire_sized version n unknown) ?es) @ []"
    by (simp add: NewByteReader_def unread_def)
  from newer_interfaces_are_skipped_exactly [OF 1 2 3] show ?thesis by (simp add: empty_body)
qed

definition wire_sized_without_segments :: "uint8 \<Rightarrow> Interface \<Rightarrow> byte list" where
  "wire_sized_without_segments version n =
     le_bytes 2 (of_nat (3 + length (wire_InterfaceV2 n)) :: uint16) @ [version] @ wire_InterfaceV2 n"

definition onward :: "Reader \<Rightarrow> Reader \<Rightarrow> bool" where
  "onward r r' \<longleftrightarrow> data r' = data r \<and> offset r \<le> offset r' \<and> offset r' \<le> length (data r)"

lemma onward_trans: "onward r r' \<Longrightarrow> onward r' r'' \<Longrightarrow> onward r r''"
  by (auto simp: onward_def)

lemma readSegment_onward: "offset r \<le> length (data r) \<Longrightarrow> onward r (snd (run_state readSegment r))"
  by (simp add: readSegment_def br_ReadPubkey_def br_ReadU16_def onward_def)

lemma segmentLoop_onward: "offset r \<le> length (data r) \<Longrightarrow> onward r (snd (run_state (segmentLoop k segs) r))"
proof (induction k arbitrary: segs r)
  case 0
  then show ?case by (simp add: onward_def)
next
  case (Suc k)
  obtain s r1 where s: "run_state readSegment r = (s, r1)" by (cases "run_state readSegment r")
  have "onward r r1" using readSegment_onward [OF Suc.prems] s by simp
  moreover from this have "onward r1 (snd (run_state (segmentLoop k (segs @ [s])) r1))"
    by (intro Suc.IH) (simp add: onward_def)
  ultimately have "onward r (snd (run_state (segmentLoop k (segs @ [s])) r1))" by (rule onward_trans)
  then show ?case using Suc.prems by (simp add: br_Remaining_def s) (simp add: onward_def)
qed

lemma skipTo_onward: "offset r \<le> length (data r) \<Longrightarrow> onward r (snd (run_state (skipTo target) r))"
  by (simp add: skipTo_def GetOffset_def br_Skip_def onward_def)

text \<open>
  C40. Backward compatibility of the interface list is broken. An element of an older encoding
  without segments, which the guard in the loop is there for, makes the reader take the segment count from
  the next element: the cursor ends at least four bytes behind the end that the element's size
  gives, and every element after it is read from the wrong place.
\<close>

theorem older_interface_overruns_its_size:
  assumes "ok_InterfaceV2 n" and "3 + length (wire_InterfaceV2 n) < 2 ^ 16"
    and "cursor_small r" and "unread r = wire_sized_without_segments version n @ ys" and "4 \<le> length ys"
  shows "offset r + (3 + length (wire_InterfaceV2 n)) + 4 \<le> offset (snd (run_state (DeserializeInterfaceSized n0) r))"
proof -
  define sz where "sz = (of_nat (3 + length (wire_InterfaceV2 n)) :: uint16)"
  define k where "k = 3 + length (wire_InterfaceV2 n)"
  let ?n = "n\<lparr>iface_Size := sz, iface_Version := version, iface_FlexAlgoNodeSegments := iface_FlexAlgoNodeSegments n0\<rparr>"
  define m where "m = do { iface \<leftarrow> assign br_ReadU16 iface_Size_update n0; iface \<leftarrow> assign br_ReadU8 iface_Version_update iface; sizedBody iface }"
  have "yields m (le_bytes 2 sz @ [version] @ wire_InterfaceV2 n) ys ?n"
    unfolding sizedBody_V2 m_def
    by (rule f_u16.assign_then, rule f_u8.assign_then, rule yields_eq, rule yields_InterfaceV2 [OF assms(1)]) simp_all
  from yieldsD [OF this assms(3)] have m: "run_state m r = (?n, advance k r)"
    using assms(4) by (simp add: wire_sized_without_segments_def sz_def k_def del: of_nat_add)
  define r4 where "r4 = snd (run_state br_ReadU32 (advance k r))"
  have ys: "unread (advance k r) = ys" using assms(4) by (simp add: wire_sized_without_segments_def k_def)
  then have l4: "4 \<le> length (unread (advance k r))" using assms(5) by simp
  then have o4: "offset r4 = offset r + k + 4" by (simp add: r4_def br_ReadU32_def)
  obtain c where c: "run_state br_ReadU32 (advance k r) = (c, r4)" by (simp add: r4_def prod_eq_iff)
  have in4: "offset r4 \<le> length (data r4)" using l4 c by (auto simp: br_ReadU32_def split: if_splits)
  obtain ss r5 where s5: "run_state (segmentLoop (unat c) []) r4 = (ss, r5)" by (cases "run_state (segmentLoop (unat c) []) r4")
  have o5: "onward r4 r5" using segmentLoop_onward [OF in4, of "unat c" "[]"] s5 by simp
  obtain u r6 where s6: "run_state (skipTo (offset r + unat sz)) r5 = (u, r6)" by (cases "run_state (skipTo (offset r + unat sz)) r5")
  have "onward r5 r6" using skipTo_onward [of r5 "offset r + unat sz"] o5 s6 by (simp add: onward_def)
  with o5 have "onward r4 r6" by (rule onward_trans)
  moreover have "snd (run_state (DeserializeInterfaceSized n0) r) = r6"
  proof -
    have alt: "DeserializeInterfaceSized n0 = GetOffset \<bind> (\<lambda>start. m \<bind> (\<lambda>iface. br_ReadU32 \<bind> (\<lambda>segCount.
        assign (segmentLoop (unat segCount) []) iface_FlexAlgoNodeSegments_update iface \<bind> (\<lambda>iface.
        skipTo (start + unat (iface_Size iface)) \<bind> (\<lambda>_. State_Monad.return iface)))))"
      by (simp add: DeserializeInterfaceSized_def m_def)
    show ?thesis unfolding alt by (simp add: GetOffset_def assign_def m c s5 s6)
  qed
  ultimately show ?thesis using o4 by (simp add: onward_def k_def)
qed

theorem older_interface_overruns_its_size_witness:
  "45 \<le> offset (snd (run_state (DeserializeInterfaceSized zeroInterface)
     (NewByteReader (wire_sized_without_segments 4 zeroInterface @ wire_sized_without_segments 4 zeroInterface))))"
proof -
  have l: "length (wire_InterfaceV2 zeroInterface) = 38" "ok_InterfaceV2 zeroInterface"
    by (simp_all add: wire_InterfaceV2_def zeroInterface_def enc_string_def ok_InterfaceV2_def)
  let ?ys = "wire_sized_without_segments 4 zeroInterface"
  have 1: "3 + length (wire_InterfaceV2 zeroInterface) < 2 ^ 16" "4 \<le> length ?ys"
    by (simp_all add: l wire_sized_without_segments_def)
  have 2: "cursor_small (NewByteReader (?ys @ ?ys))" "unread (NewByteReader (?ys @ ?ys)) = ?ys @ ?ys"
    by (simp_all add: cursor_small_def NewByteReader_def unread_def wire_sized_without_segments_def l)
  from older_interface_overruns_its_size [OF l(2) 1(1) 2 1(2), of zeroInterface] show ?thesis by (simp add: l NewByteReader_def)
qed

text \<open>
  The two words of \<open>Uint128\<close> are swapped: the field \<open>High\<close> gets the low half of the number.
\<close>

lemma u128_halves_swapped:
  "uint128_of (le_bytes 16 (v :: 128 word)) = \<lparr>High = ucast v, Low = ucast (drop_bit 64 v)\<rparr>"
proof -
  have t: "le_bytes (8 + 8) v = le_bytes 8 v @ le_bytes 8 (drop_bit 64 v)" for v :: "128 word"
    by (simp add: eval_nat_numeral drop_bit_drop_bit)
  have w: "(le_word (le_bytes 8 v) :: uint64) = ucast v" for v :: "128 word"
  proof -
    have "le_bytes 8 v = le_bytes 8 (ucast v :: uint64)"
      by (simp add: eval_nat_numeral) (intro conjI bit_word_eqI; simp add: bit_simps; fail)
    then show ?thesis by simp
  qed
  show ?thesis using t [of v] by (simp add: uint128_of_def w)
qed

end
