(* ===== verification/Sample_Buffer.thy ===== *)
theory Sample_Buffer
  imports Go_Prelude "HOL-Library.Sublist"
begin

text \<open>
  The in-memory sample buffers of the telemetry agents,
  controlplane/telemetry/pkg/buffer/memory.go. A \<open>MemoryBuffer\<close> is a list of records with a
  capacity; a partitioned buffer is a map from keys to pointers to buffers, and the buffers live in
  a store, because \<open>Add\<close> fetches the pointer under one lock and appends under another. Every
  method holds its mutex throughout, so each is one atomic step; \<open>Add\<close> that must wait for room
  is \<open>None\<close>. The pool of recycled slices holds no records: a slice is put back with length 0 and
  taken out with length 0, so it is left out.

  The contract of a partitioned buffer towards its clients is the locale \<open>partition_store\<close>.
\<close>

record 'r MemoryBuffer =
  records :: "'r list"
  maxCapacity :: int

definition NewMemoryBuffer :: "int \<Rightarrow> 'r MemoryBuffer" where
  "NewMemoryBuffer capacity = \<lparr>records = [], maxCapacity = capacity\<rparr>"

definition mb_Add :: "'r \<Rightarrow> 'r MemoryBuffer \<Rightarrow> 'r MemoryBuffer option" where
  "mb_Add r b = (if int (length (records b)) \<ge> maxCapacity b then None
     else Some (b\<lparr>records := records b @ [r]\<rparr>))"

definition TryAdd :: "'r \<Rightarrow> 'r MemoryBuffer \<Rightarrow> bool \<times> 'r MemoryBuffer" where
  "TryAdd r b = (if int (length (records b)) \<ge> maxCapacity b then (False, b)
     else (True, b\<lparr>records := records b @ [r]\<rparr>))"

definition mb_CopyAndReset :: "'r MemoryBuffer \<Rightarrow> 'r list \<times> 'r MemoryBuffer" where
  "mb_CopyAndReset b = (records b, b\<lparr>records := []\<rparr>)"

definition mb_Len :: "'r MemoryBuffer \<Rightarrow> int" where
  "mb_Len b = int (length (records b))"

definition mb_FlushWithoutReset :: "'r MemoryBuffer \<Rightarrow> 'r list" where
  "mb_FlushWithoutReset b = records b"

definition mb_Read :: "'r MemoryBuffer \<Rightarrow> 'r list" where
  "mb_Read b = records b"

definition mb_PriorityPrepend :: "'r list \<Rightarrow> 'r MemoryBuffer \<Rightarrow> 'r MemoryBuffer" where
  "mb_PriorityPrepend rs b = b\<lparr>records := rs @ records b\<rparr>"

subsection \<open>Partitions\<close>

record ('k, 'r) MemoryPartitionedBuffer =
  partitions :: "'k \<Rightarrow> nat option"
  buffers :: "nat \<Rightarrow> 'r MemoryBuffer"
  nextBuffer :: nat
  partitionBufferCapacity :: int

definition NewMemoryPartitionedBuffer :: "int \<Rightarrow> ('k, 'r) MemoryPartitionedBuffer" where
  "NewMemoryPartitionedBuffer capacity =
     \<lparr>partitions = \<lambda>_. None, buffers = \<lambda>_. NewMemoryBuffer capacity, nextBuffer = 0, partitionBufferCapacity = capacity\<rparr>"

definition Capacity :: "'k \<Rightarrow> ('k, 'r) MemoryPartitionedBuffer \<Rightarrow> int" where
  "Capacity key pb = partitionBufferCapacity pb"

definition Len :: "'k \<Rightarrow> ('k, 'r) MemoryPartitionedBuffer \<Rightarrow> int" where
  "Len key pb = (case partitions pb key of None \<Rightarrow> 0 | Some p \<Rightarrow> mb_Len (buffers pb p))"

text \<open>The first half of \<open>Add\<close> and \<open>PriorityPrepend\<close>: the pointer of the partition, made if missing.\<close>

definition fetch :: "'k \<Rightarrow> ('k, 'r) MemoryPartitionedBuffer \<Rightarrow> nat \<times> ('k, 'r) MemoryPartitionedBuffer" where
  "fetch key pb = (case partitions pb key of Some p \<Rightarrow> (p, pb)
     | None \<Rightarrow> let p = nextBuffer pb in
         (p, pb\<lparr>partitions := (partitions pb)(key \<mapsto> p),
                buffers := (buffers pb)(p := NewMemoryBuffer (partitionBufferCapacity pb)), nextBuffer := p + 1\<rparr>))"

text \<open>The second half of \<open>Add\<close>: append to the buffer behind the pointer, or wait.\<close>

definition addTo :: "nat \<Rightarrow> 'r \<Rightarrow> ('k, 'r) MemoryPartitionedBuffer \<Rightarrow> (uint64 \<times> ('k, 'r) MemoryPartitionedBuffer) option" where
  "addTo p r pb = (case mb_Add r (buffers pb p) of None \<Rightarrow> None
     | Some b \<Rightarrow> Some (word_of_int (mb_Len b), pb\<lparr>buffers := (buffers pb)(p := b)\<rparr>))"

definition Add :: "'k \<Rightarrow> 'r \<Rightarrow> ('k, 'r) MemoryPartitionedBuffer \<Rightarrow> (uint64 \<times> ('k, 'r) MemoryPartitionedBuffer) option" where
  "Add key r pb = (case fetch key pb of (p, pb') \<Rightarrow> addTo p r pb')"

definition FlushWithoutReset :: "('k, 'r) MemoryPartitionedBuffer \<Rightarrow> 'k \<Rightarrow> 'r list option" where
  "FlushWithoutReset pb = (\<lambda>key. map_option (\<lambda>p. mb_FlushWithoutReset (buffers pb p)) (partitions pb key))"

definition Recycle :: "'k \<Rightarrow> 'r list \<Rightarrow> ('k, 'r) MemoryPartitionedBuffer \<Rightarrow> ('k, 'r) MemoryPartitionedBuffer" where
  "Recycle key rs pb = pb"

definition Remove :: "'k \<Rightarrow> ('k, 'r) MemoryPartitionedBuffer \<Rightarrow> ('k, 'r) MemoryPartitionedBuffer" where
  "Remove key pb = pb\<lparr>partitions := (partitions pb)(key := None)\<rparr>"

definition Has :: "'k \<Rightarrow> ('k, 'r) MemoryPartitionedBuffer \<Rightarrow> bool" where
  "Has key pb = (partitions pb key \<noteq> None)"

definition CopyAndReset :: "'k \<Rightarrow> ('k, 'r) MemoryPartitionedBuffer \<Rightarrow> 'r list \<times> ('k, 'r) MemoryPartitionedBuffer" where
  "CopyAndReset key pb = (case partitions pb key of None \<Rightarrow> ([], pb)
     | Some p \<Rightarrow> (case mb_CopyAndReset (buffers pb p) of (rs, b) \<Rightarrow> (rs, pb\<lparr>buffers := (buffers pb)(p := b)\<rparr>)))"

definition Read :: "'k \<Rightarrow> ('k, 'r) MemoryPartitionedBuffer \<Rightarrow> 'r list" where
  "Read key pb = (case partitions pb key of None \<Rightarrow> [] | Some p \<Rightarrow> mb_Read (buffers pb p))"

definition PriorityPrepend :: "'k \<Rightarrow> 'r list \<Rightarrow> ('k, 'r) MemoryPartitionedBuffer \<Rightarrow> ('k, 'r) MemoryPartitionedBuffer" where
  "PriorityPrepend key rs pb = (case fetch key pb of (p, pb') \<Rightarrow>
     pb'\<lparr>buffers := (buffers pb')(p := mb_PriorityPrepend rs (buffers pb' p))\<rparr>)"

subsection \<open>The contract\<close>

text \<open>
  Pointers are fresh and not shared between keys, and every buffer has the capacity of the whole.
\<close>

definition buf_inv :: "('k, 'r) MemoryPartitionedBuffer \<Rightarrow> bool" where
  "buf_inv pb \<longleftrightarrow>
     (\<forall>k k' p. partitions pb k = Some p \<longrightarrow> partitions pb k' = Some p \<longrightarrow> k = k') \<and>
     (\<forall>k p. partitions pb k = Some p \<longrightarrow> p < nextBuffer pb) \<and>
     (\<forall>p. maxCapacity (buffers pb p) = partitionBufferCapacity pb)"

text \<open>
  What a client may rely on: \<open>rd\<close> is the content of a partition, absent ones being empty; the
  operations on one partition leave the others alone.
\<close>

locale partition_store =
  fixes inv :: "'b \<Rightarrow> bool"
    and rd :: "'k \<Rightarrow> 'b \<Rightarrow> 'r list"
    and add :: "'k \<Rightarrow> 'r \<Rightarrow> 'b \<Rightarrow> (uint64 \<times> 'b) option"
    and take_all :: "'k \<Rightarrow> 'b \<Rightarrow> 'r list \<times> 'b"
    and prepend :: "'k \<Rightarrow> 'r list \<Rightarrow> 'b \<Rightarrow> 'b"
    and remove :: "'k \<Rightarrow> 'b \<Rightarrow> 'b"
    and capacity :: "'b \<Rightarrow> int"
  assumes add_iff: "inv s \<Longrightarrow> add k r s = None \<longleftrightarrow> capacity s \<le> int (length (rd k s))"
    and add_rd: "inv s \<Longrightarrow> add k r s = Some (n, s') \<Longrightarrow>
        inv s' \<and> capacity s' = capacity s \<and> rd k' s' = (if k' = k then rd k s @ [r] else rd k' s)"
    and take_all_rd: "inv s \<Longrightarrow> take_all k s = (rs, s') \<Longrightarrow>
        rs = rd k s \<and> inv s' \<and> capacity s' = capacity s \<and> rd k' s' = (if k' = k then [] else rd k' s)"
    and prepend_rd: "inv s \<Longrightarrow> inv (prepend k rs s) \<and> capacity (prepend k rs s) = capacity s \<and>
        rd k' (prepend k rs s) = (if k' = k then rs @ rd k s else rd k' s)"
    and remove_rd: "inv s \<Longrightarrow> inv (remove k s) \<and> capacity (remove k s) = capacity s \<and>
        rd k' (remove k s) = (if k' = k then [] else rd k' s)"
begin

text \<open>What concurrent adding may do: no partition loses or reorders anything.\<close>

definition later :: "'b \<Rightarrow> 'b \<Rightarrow> bool" where
  "later s s' \<longleftrightarrow> inv s' \<and> capacity s' = capacity s \<and> (\<forall>k. prefix (rd k s) (rd k s'))"

text \<open>The same for all partitions but one.\<close>

definition later_but :: "'k \<Rightarrow> 'b \<Rightarrow> 'b \<Rightarrow> bool" where
  "later_but k s s' \<longleftrightarrow> inv s' \<and> capacity s' = capacity s \<and> (\<forall>k'. k' \<noteq> k \<longrightarrow> prefix (rd k' s) (rd k' s'))"

lemma later_refl: "inv s \<Longrightarrow> later s s"
  by (simp add: later_def)

lemma later_trans: "later s t \<Longrightarrow> later t u \<Longrightarrow> later s u"
  by (auto simp: later_def intro: prefix_order.trans)

lemma later_but_trans: "later_but k s t \<Longrightarrow> later_but k t u \<Longrightarrow> later_but k s u"
  by (auto simp: later_but_def intro: prefix_order.trans)

lemma later_imp_but: "later s t \<Longrightarrow> later_but k s t"
  by (simp add: later_def later_but_def)

lemma later_inv: "later s t \<Longrightarrow> inv t" "later_but k s t \<Longrightarrow> inv t"
  by (simp_all add: later_def later_but_def)

lemma add_later: "inv s \<Longrightarrow> add k r s = Some (n, s') \<Longrightarrow> later s s'"
  using add_rd [of s k r n s'] by (auto simp: later_def)

lemma take_all_later: "inv s \<Longrightarrow> take_all k s = (rs, s') \<Longrightarrow> later_but k s s'"
  using take_all_rd [of s k rs s'] by (auto simp: later_but_def)

lemma prepend_later: "inv s \<Longrightarrow> later_but k s (prepend k rs s)"
  using prepend_rd [of s k rs] by (auto simp: later_but_def)

lemma remove_later: "inv s \<Longrightarrow> later_but k s (remove k s)"
  using remove_rd [of s k] by (auto simp: later_but_def)

text \<open>Backpressure: adding alone never exceeds the capacity.\<close>

lemma add_within: "inv s \<Longrightarrow> add k r s = Some (n, s') \<Longrightarrow> int (length (rd k s')) \<le> capacity s"
  using add_iff [of s k r] add_rd [of s k r n s' k] by auto

end

lemma fetch_inv:
  assumes "buf_inv pb" and "fetch key pb = (p, pb')"
  shows "buf_inv pb'" "partitions pb' key = Some p" "partitionBufferCapacity pb' = partitionBufferCapacity pb"
    "records (buffers pb' p) = Read key pb" "\<And>k. k \<noteq> key \<Longrightarrow> partitions pb' k = partitions pb k"
    "\<And>k q. k \<noteq> key \<Longrightarrow> partitions pb' k = Some q \<Longrightarrow> q \<noteq> p"
    "\<And>k q. k \<noteq> key \<Longrightarrow> partitions pb k = Some q \<Longrightarrow> buffers pb' q = buffers pb q"
proof -
  consider (known) "partitions pb key = Some p" "pb' = pb"
    | (fresh) "partitions pb key = None" "p = nextBuffer pb" "pb' = pb\<lparr>partitions := (partitions pb)(key \<mapsto> p),
         buffers := (buffers pb)(p := NewMemoryBuffer (partitionBufferCapacity pb)), nextBuffer := p + 1\<rparr>"
    using assms(2) by (auto simp: fetch_def Let_def split: option.splits)
  then have "buf_inv pb' \<and> partitions pb' key = Some p \<and> partitionBufferCapacity pb' = partitionBufferCapacity pb \<and>
    records (buffers pb' p) = Read key pb \<and> (\<forall>k. k \<noteq> key \<longrightarrow> partitions pb' k = partitions pb k) \<and>
    (\<forall>k q. k \<noteq> key \<longrightarrow> partitions pb' k = Some q \<longrightarrow> q \<noteq> p) \<and>
    (\<forall>k q. k \<noteq> key \<longrightarrow> partitions pb k = Some q \<longrightarrow> buffers pb' q = buffers pb q)"
  proof cases
    case known
    then show ?thesis using assms(1) by (auto simp: buf_inv_def Read_def mb_Read_def)
  next
    case fresh
    then have "partitions pb k \<noteq> Some p" for k using assms(1) by (auto simp: buf_inv_def)
    then show ?thesis using assms(1) fresh
      by (auto simp: buf_inv_def NewMemoryBuffer_def Read_def intro: less_SucI)
  qed
  then show "buf_inv pb'" "partitions pb' key = Some p" "partitionBufferCapacity pb' = partitionBufferCapacity pb"
    "records (buffers pb' p) = Read key pb" "\<And>k. k \<noteq> key \<Longrightarrow> partitions pb' k = partitions pb k"
    "\<And>k q. k \<noteq> key \<Longrightarrow> partitions pb' k = Some q \<Longrightarrow> q \<noteq> p"
    "\<And>k q. k \<noteq> key \<Longrightarrow> partitions pb k = Some q \<Longrightarrow> buffers pb' q = buffers pb q"
    by auto
qed


text \<open>The buffers behind the pointers change at one pointer only.\<close>

lemma buf_inv_update:
  assumes "buf_inv pb" and "maxCapacity b = partitionBufferCapacity pb"
  shows "buf_inv (pb\<lparr>buffers := (buffers pb)(p := b)\<rparr>)"
  using assms by (simp add: buf_inv_def)

lemma Read_update:
  assumes "buf_inv pb" and "partitions pb key = Some p"
  shows "Read k (pb\<lparr>buffers := (buffers pb)(p := b)\<rparr>) = (if k = key then records b else Read k pb)"
proof -
  have "partitions pb k = Some p \<longleftrightarrow> k = key"
    using assms by (auto simp: buf_inv_def)
  then show ?thesis using assms(2) by (auto simp: Read_def mb_Read_def split: option.split)
qed

lemma fetch_Read:
  assumes "buf_inv pb" and "fetch key pb = (p, pb')"
  shows "Read k pb' = Read k pb"
proof (cases "k = key")
  case True
  then show ?thesis using fetch_inv(2,4) [OF assms] by (simp add: Read_def [of key pb'] mb_Read_def)
next
  case False
  then show ?thesis using fetch_inv(5,7) [OF assms, of k]
    by (auto simp: Read_def split: option.split)
qed

interpretation pbuf: partition_store buf_inv Read Add CopyAndReset PriorityPrepend Remove partitionBufferCapacity
proof
  fix s s' :: "('a, 'b) MemoryPartitionedBuffer" and k k' :: 'a and r :: 'b and rs :: "'b list" and n
  assume inv: "buf_inv s"
  obtain p t where f: "fetch k s = (p, t)" by fastforce
  note fi = fetch_inv [OF inv f] and fR = fetch_Read [OF inv f]
  have cap: "maxCapacity (buffers t p) = partitionBufferCapacity t" for p using fi(1) by (simp add: buf_inv_def)
  show "Add k r s = None \<longleftrightarrow> partitionBufferCapacity s \<le> int (length (Read k s))"
    using fi(3,4) cap by (simp add: Add_def f addTo_def mb_Add_def)
  show "buf_inv s' \<and> partitionBufferCapacity s' = partitionBufferCapacity s \<and>
      Read k' s' = (if k' = k then Read k s @ [r] else Read k' s)" if "Add k r s = Some (n, s')"
  proof -
    have "s' = t\<lparr>buffers := (buffers t)(p := (buffers t p)\<lparr>records := Read k s @ [r]\<rparr>)\<rparr>"
      using that fi(4) by (auto simp: Add_def f addTo_def mb_Add_def split: if_splits)
    then show ?thesis using fi(1,3) cap fR by (simp add: buf_inv_update Read_update [OF fi(1,2)])
  qed
  show "buf_inv (PriorityPrepend k rs s) \<and>
      partitionBufferCapacity (PriorityPrepend k rs s) = partitionBufferCapacity s \<and>
      Read k' (PriorityPrepend k rs s) = (if k' = k then rs @ Read k s else Read k' s)"
    using fi(1,3,4) cap fR
    by (simp add: PriorityPrepend_def f mb_PriorityPrepend_def buf_inv_update Read_update [OF fi(1,2)])
  show "rs = Read k s \<and> buf_inv s' \<and> partitionBufferCapacity s' = partitionBufferCapacity s \<and>
      Read k' s' = (if k' = k then [] else Read k' s)" if "CopyAndReset k s = (rs, s')"
  proof (cases "partitions s k")
    case None
    then show ?thesis using that inv by (auto simp: CopyAndReset_def Read_def)
  next
    case (Some q)
    have "s' = s\<lparr>buffers := (buffers s)(q := (buffers s q)\<lparr>records := []\<rparr>)\<rparr>" "rs = Read k s"
      using that Some by (auto simp: CopyAndReset_def mb_CopyAndReset_def Read_def mb_Read_def)
    then show ?thesis using inv by (simp add: buf_inv_update Read_update [OF inv Some]) (simp add: buf_inv_def)
  qed
  show "buf_inv (Remove k s) \<and> partitionBufferCapacity (Remove k s) = partitionBufferCapacity s \<and>
      Read k' (Remove k s) = (if k' = k then [] else Read k' s)"
    using inv by (auto simp: Remove_def buf_inv_def Read_def split: if_splits option.splits)
qed

text \<open>A new buffer satisfies the invariant and is empty.\<close>

lemma NewMemoryPartitionedBuffer_inv [simp]:
  "buf_inv (NewMemoryPartitionedBuffer n)" "Read k (NewMemoryPartitionedBuffer n) = []"
  "partitionBufferCapacity (NewMemoryPartitionedBuffer n) = n"
  by (simp_all add: NewMemoryPartitionedBuffer_def buf_inv_def NewMemoryBuffer_def Read_def)

lemma Len_Read: "Len k pb = int (length (Read k pb))"
  by (simp add: Len_def Read_def mb_Len_def mb_Read_def split: option.split)

text \<open>
  An \<open>Add\<close> that has fetched its pointer when the partition is removed appends to a buffer that no
  key leads to: the record is lost.
\<close>

lemma add_after_remove_is_lost:
  assumes "buf_inv pb" and "fetch key pb = (p, pb')" and "addTo p r (Remove key pb') = Some (n, pb'')"
  shows "Read k pb'' = Read k (Remove key pb')"
proof -
  have n: "partitions (Remove key pb') k \<noteq> Some p"
    using fetch_inv(6) [OF assms(1,2), of k p] by (auto simp: Remove_def)
  have "partitions pb'' = partitions (Remove key pb')" "q \<noteq> p \<Longrightarrow> buffers pb'' q = buffers (Remove key pb') q" for q
    using assms(3) by (auto simp: addTo_def split: option.splits)
  then show ?thesis using n by (auto simp: Read_def split: option.splits)
qed

end
