(* ===== verification/Telemetry_Submitter.thy ===== *)
theory Telemetry_Submitter
  imports Sample_Buffer "HOL-Library.Signed_Division"
begin

text \<open>
  The submitter of device latency samples,
  controlplane/telemetry/internal/telemetry/submitter.go. On every tick it takes the samples of
  each partition out of the buffer, writes them to the telemetry program in batches, retries with
  back-off, and puts samples it could not write back in front of the buffer.

  What the submitter calls outside of itself (the program client, the epoch, sleeping) is an
  environment that answers from the history of all calls so far. While a call is in progress
  the probes go on adding samples; the environment says which. A tick handles the partitions in any
  order, one after the other.
\<close>

subsection \<open>Samples and their encoding\<close>

record Sample =
  Timestamp :: gotime
  RTT :: duration
  Loss :: bool

type_synonym publickey = "byte list"

record PartitionKey =
  OriginDevicePK :: publickey
  TargetDevicePK :: publickey
  LinkPK :: publickey
  Epoch :: uint64

definition MaxDeviceLatencySamplesPerBatch :: nat where
  "MaxDeviceLatencySamplesPerBatch = 239"

text \<open>\<open>Duration.Microseconds\<close> divides towards zero.\<close>

definition Microseconds :: "duration \<Rightarrow> int" where
  "Microseconds d = d sdiv 1000"

text \<open>\<open>Time.UnixMicro\<close>: seconds since 1970 times a million plus the microseconds of the second.\<close>

definition UnixMicro :: "gotime \<Rightarrow> int" where
  "UnixMicro t = i64 ((t div second - 62135596800) * 1000000 + t mod second div 1000)"

definition encodeRTT :: "Sample \<Rightarrow> uint32" where
  "encodeRTT s = (if Loss s then 0 else if RTT s = 0 then 1 else word_of_int (Microseconds (RTT s)))"

definition minStep :: "gotime \<Rightarrow> Sample \<Rightarrow> gotime" where
  "minStep m s = (if IsZero m \<or> Timestamp s < m then Timestamp s else m)"

definition minTimestamp :: "Sample list \<Rightarrow> gotime" where
  "minTimestamp batch = foldl minStep zero_time batch"

subsection \<open>Calls and their answers\<close>

record WriteConfig =
  w_AgentPK :: publickey
  w_Key :: PartitionKey
  w_StartTimestampMicroseconds :: uint64
  w_Samples :: "uint32 list"
  w_AgentVersion :: string
  w_AgentCommit :: string

record InitConfig =
  i_AgentPK :: publickey
  i_Key :: PartitionKey
  i_SamplingIntervalMicroseconds :: uint64
  i_AgentVersion :: string
  i_AgentCommit :: string

datatype call =
    WriteDeviceLatencySamples WriteConfig
  | InitializeDeviceLatencySamples InitConfig
  | Sleep duration
  | GetCurrentEpoch

datatype program_error = ErrAccountNotFound | ErrSamplesAccountFull | OtherError

record Env =
  answer :: "call list \<Rightarrow> program_error option"
  slept :: "call list \<Rightarrow> bool"
  epoch :: "call list \<Rightarrow> uint64 option"
  meanwhile :: "call list \<Rightarrow> (PartitionKey \<times> Sample) list"

record SubmitterConfig =
  MetricsPublisherPK :: publickey
  ProbeInterval :: duration
  BackoffFunc :: "int \<Rightarrow> duration"
  MaxAttempts :: int
  MaxConcurrency :: int
  AgentVersion :: string
  AgentCommit :: string

type_synonym Buffer = "(PartitionKey, Sample) MemoryPartitionedBuffer"

record Submission =
  history :: "call list"
  buf :: Buffer

datatype submit_error = InitFailed program_error | WriteAfterInitFailed program_error | WriteFailed program_error

definition defaultMaxAttempts :: int where
  "defaultMaxAttempts = 5"

datatype new_error = EpochRequired | BadConcurrency

definition NewSubmitter :: "bool \<Rightarrow> SubmitterConfig \<Rightarrow> new_error + SubmitterConfig" where
  "NewSubmitter hasEpoch c =
     (if \<not> hasEpoch then Inl EpochRequired
      else if MaxConcurrency c \<le> 0 then Inl BadConcurrency
      else Inr (if MaxAttempts c = 0 then c\<lparr>MaxAttempts := defaultMaxAttempts\<rparr> else c))"

text \<open>The probes: each adds its sample, or goes on waiting while the partition is full.\<close>

fun produce :: "('k \<times> 'r) list \<Rightarrow> ('k, 'r) MemoryPartitionedBuffer \<Rightarrow> ('k, 'r) MemoryPartitionedBuffer" where
  "produce [] pb = pb"
| "produce ((k, r) # xs) pb = (case Add k r pb of None \<Rightarrow> produce xs pb | Some (n, pb') \<Rightarrow> produce xs pb')"

text \<open>A call is recorded; the probes add their samples until it is answered.\<close>

definition issue :: "Env \<Rightarrow> call \<Rightarrow> Submission \<Rightarrow> Submission" where
  "issue env c w = (let h = history w @ [c] in \<lparr>history = h, buf = produce (meanwhile env h) (buf w)\<rparr>)"

definition client :: "Env \<Rightarrow> call \<Rightarrow> Submission \<Rightarrow> program_error option \<times> Submission" where
  "client env c w = (let w' = issue env c w in (answer env (history w'), w'))"

subsection \<open>Submitting\<close>

definition writeConfig :: "SubmitterConfig \<Rightarrow> PartitionKey \<Rightarrow> Sample list \<Rightarrow> WriteConfig" where
  "writeConfig c key batch =
     \<lparr>w_AgentPK = MetricsPublisherPK c, w_Key = key,
      w_StartTimestampMicroseconds = word_of_int (UnixMicro (minTimestamp batch)),
      w_Samples = map encodeRTT batch, w_AgentVersion = AgentVersion c, w_AgentCommit = AgentCommit c\<rparr>"

definition initConfig :: "SubmitterConfig \<Rightarrow> PartitionKey \<Rightarrow> InitConfig" where
  "initConfig c key =
     \<lparr>i_AgentPK = MetricsPublisherPK c, i_Key = key,
      i_SamplingIntervalMicroseconds = word_of_int (Microseconds (ProbeInterval c)),
      i_AgentVersion = AgentVersion c, i_AgentCommit = AgentCommit c\<rparr>"

text \<open>What one batch does to the loop over the batches: go on, return nil, or return an error.\<close>

datatype batch_result = NextBatch | ReturnNil | ReturnErr submit_error

definition submitBatch :: "SubmitterConfig \<Rightarrow> Env \<Rightarrow> PartitionKey \<Rightarrow> Sample list \<Rightarrow> Submission \<Rightarrow> batch_result \<times> Submission" where
  "submitBatch c env key batch w =
     (let wc = writeConfig c key batch in
      case client env (WriteDeviceLatencySamples wc) w of
        (None, w1) \<Rightarrow> (NextBatch, w1)
      | (Some ErrAccountNotFound, w1) \<Rightarrow>
          (case client env (InitializeDeviceLatencySamples (initConfig c key)) w1 of
             (Some e, w2) \<Rightarrow> (ReturnErr (InitFailed e), w2)
           | (None, w2) \<Rightarrow>
               (case client env (WriteDeviceLatencySamples wc) w2 of
                  (None, w3) \<Rightarrow> (NextBatch, w3)
                | (Some ErrSamplesAccountFull, w3) \<Rightarrow> (ReturnNil, w3\<lparr>buf := Remove key (buf w3)\<rparr>)
                | (Some e, w3) \<Rightarrow> (ReturnErr (WriteAfterInitFailed e), w3)))
      | (Some ErrSamplesAccountFull, w1) \<Rightarrow> (ReturnNil, w1\<lparr>buf := Remove key (buf w1)\<rparr>)
      | (Some e, w1) \<Rightarrow> (ReturnErr (WriteFailed e), w1))"

function submitLoop :: "SubmitterConfig \<Rightarrow> Env \<Rightarrow> PartitionKey \<Rightarrow> Sample list \<Rightarrow> Submission \<Rightarrow> submit_error option \<times> Submission" where
  "submitLoop c env key samples w =
     (if samples = [] then (None, w)
      else case submitBatch c env key (take MaxDeviceLatencySamplesPerBatch samples) w of
          (NextBatch, w') \<Rightarrow> submitLoop c env key (drop MaxDeviceLatencySamplesPerBatch samples) w'
        | (ReturnNil, w') \<Rightarrow> (None, w')
        | (ReturnErr e, w') \<Rightarrow> (Some e, w'))"
  by pat_completeness auto
termination
  by (relation "measure (\<lambda>(_, _, _, samples, _). length samples)")
    (auto simp: MaxDeviceLatencySamplesPerBatch_def)

declare submitLoop.simps [simp del]

definition SubmitSamples :: "SubmitterConfig \<Rightarrow> Env \<Rightarrow> PartitionKey \<Rightarrow> Sample list \<Rightarrow> Submission \<Rightarrow> submit_error option \<times> Submission" where
  "SubmitSamples c env key samples w =
     (if length samples = 0 then (None, w) else submitLoop c env key samples w)"

text \<open>The retry loop of \<open>Tick\<close> from one attempt on; its value is \<open>success\<close>.\<close>

function attempts :: "SubmitterConfig \<Rightarrow> Env \<Rightarrow> PartitionKey \<Rightarrow> Sample list \<Rightarrow> int \<Rightarrow> Submission \<Rightarrow> bool \<times> Submission" where
  "attempts c env key tmp attempt w =
     (if attempt > MaxAttempts c then (False, w)
      else case SubmitSamples c env key tmp w of
          (None, w1) \<Rightarrow> (True, w1)
        | (Some e, w1) \<Rightarrow>
            let w2 = issue env (Sleep (BackoffFunc c attempt)) w1 in
            if slept env (history w2) then attempts c env key tmp (attempt + 1) w2 else (False, w2))"
  by pat_completeness auto
termination
  by (relation "measure (\<lambda>(c, _, _, _, attempt, _). nat (MaxAttempts c + 1 - attempt))") auto

declare attempts.simps [simp del]

text \<open>\<open>getCurrentEpoch\<close> and what the probes add in the meantime.\<close>

definition currentEpoch :: "Env \<Rightarrow> Submission \<Rightarrow> uint64 option \<times> Submission" where
  "currentEpoch env w = (let w' = issue env GetCurrentEpoch w in (epoch env (history w'), w'))"

definition tickPartition :: "SubmitterConfig \<Rightarrow> Env \<Rightarrow> PartitionKey \<Rightarrow> Submission \<Rightarrow> Submission" where
  "tickPartition c env key w =
     (case CopyAndReset key (buf w) of (tmp, pb) \<Rightarrow>
      let w1 = w\<lparr>buf := pb\<rparr> in
      if length tmp = 0 then
        let w2 = w1\<lparr>buf := Recycle key tmp (buf w1)\<rparr> in
        (case currentEpoch env w2 of
           (None, w3) \<Rightarrow> w3
         | (Some ep, w3) \<Rightarrow> if Epoch key < ep then w3\<lparr>buf := Remove key (buf w3)\<rparr> else w3)
      else
        case attempts c env key tmp 1 w1 of (success, w2) \<Rightarrow>
        let overCapacity = Len key (buf w2) + int (length tmp) \<ge> Capacity key (buf w2);
            w3 = (if \<not> success \<and> \<not> overCapacity then w2\<lparr>buf := PriorityPrepend key tmp (buf w2)\<rparr> else w2)
        in w3\<lparr>buf := Recycle key tmp (buf w3)\<rparr>)"

text \<open>
  \<open>Tick\<close> goes through the partitions of the flushed copy in the order in which the map is iterated,
  which is an argument.
\<close>

definition Tick :: "SubmitterConfig \<Rightarrow> Env \<Rightarrow> PartitionKey list \<Rightarrow> Submission \<Rightarrow> Submission" where
  "Tick c env order w =
     (let flushed = FlushWithoutReset (buf w) in
      foldl (\<lambda>w key. tickPartition c env key w) w (filter (\<lambda>key. flushed key \<noteq> None) order))"

text \<open>The loop of \<open>Run\<close>: the ticks until the context is done, and the last flush.\<close>

datatype wakeup = Ticker "PartitionKey list" | ContextDone "PartitionKey list"

fun submitter_Run :: "SubmitterConfig \<Rightarrow> Env \<Rightarrow> wakeup list \<Rightarrow> Submission \<Rightarrow> Submission" where
  "submitter_Run c env [] w = w"
| "submitter_Run c env (Ticker order # es) w = submitter_Run c env es (Tick c env order w)"
| "submitter_Run c env (ContextDone order # es) w = Tick c env order w"

subsection \<open>What a run of calls achieved\<close>

text \<open>The calls of a run with their answers, the samples of its accepted writes, and whether a write
  was refused because the account is full.\<close>

fun answered :: "Env \<Rightarrow> call list \<Rightarrow> call list \<Rightarrow> (call \<times> program_error option) list" where
  "answered env h [] = []"
| "answered env h (c # cs) = (c, answer env (h @ [c])) # answered env (h @ [c]) cs"

fun written :: "call \<times> program_error option \<Rightarrow> uint32 list" where
  "written (WriteDeviceLatencySamples wc, None) = w_Samples wc"
| "written _ = []"

definition accepted :: "Env \<Rightarrow> call list \<Rightarrow> call list \<Rightarrow> uint32 list" where
  "accepted env h cs = concat (map written (answered env h cs))"

fun refused_full :: "call \<times> program_error option \<Rightarrow> bool" where
  "refused_full (WriteDeviceLatencySamples wc, Some ErrSamplesAccountFull) = True"
| "refused_full _ = False"

definition account_full :: "Env \<Rightarrow> call list \<Rightarrow> call list \<Rightarrow> bool" where
  "account_full env h cs \<longleftrightarrow> list_ex refused_full (answered env h cs)"

lemma answered_append: "answered env h (cs @ ds) = answered env h cs @ answered env (h @ cs) ds"
  by (induction cs arbitrary: h) auto

lemma accepted_append: "accepted env h (cs @ ds) = accepted env h cs @ accepted env (h @ cs) ds"
  by (simp add: accepted_def answered_append)

lemma account_full_append:
  "account_full env h (cs @ ds) \<longleftrightarrow> account_full env h cs \<or> account_full env (h @ cs) ds"
  by (simp add: account_full_def answered_append)

lemma account_full_Cons: "account_full env h (c # cs) \<longleftrightarrow> account_full env h [c] \<or> account_full env (h @ [c]) cs"
  using account_full_append [of env h "[c]" cs] by simp

lemma accepted_Nil [simp]: "accepted env h [] = []"
  by (simp add: accepted_def)

subsection \<open>The probes take nothing away\<close>

lemma produce_later: "buf_inv pb \<Longrightarrow> pbuf.later pb (produce xs pb)"
proof (induction xs arbitrary: pb rule: list.induct)
  case (Cons x xs)
  obtain k r where x: "x = (k, r)" by fastforce
  show ?case
  proof (cases "Add k r pb")
    case (Some a)
    then obtain n pb' where a: "Add k r pb = Some (n, pb')" by (cases a) auto
    note 1 = pbuf.add_later [OF Cons.prems a]
    from pbuf.later_trans [OF 1 Cons.IH [OF pbuf.later_inv(1) [OF 1]]] show ?thesis by (simp add: x a)
  qed (use Cons in \<open>simp add: x\<close>)
qed (simp add: pbuf.later_refl)

text \<open>
  One run of the submitter on a partition: it keeps every other partition and adds the calls
  \<open>cs\<close> to the history.
\<close>

definition runs :: "PartitionKey \<Rightarrow> Submission \<Rightarrow> call list \<Rightarrow> Submission \<Rightarrow> bool" where
  "runs key w cs w' \<longleftrightarrow> pbuf.later_but key (buf w) (buf w') \<and> history w' = history w @ cs"

lemma runs_trans: "runs key u cs v \<Longrightarrow> runs key v ds w \<Longrightarrow> runs key u (cs @ ds) w"
  by (auto simp: runs_def intro: pbuf.later_but_trans)

lemma runs_inv: "runs key w cs w' \<Longrightarrow> buf_inv (buf w')"
  by (auto simp: runs_def dest: pbuf.later_inv)

lemma runs_refl: "buf_inv (buf w) \<Longrightarrow> runs key w [] w"
  by (simp add: runs_def pbuf.later_imp_but pbuf.later_refl)

lemma runs_issue: "buf_inv (buf w) \<Longrightarrow> runs key w [c] (issue env c w)"
  by (simp add: runs_def issue_def Let_def pbuf.later_imp_but produce_later)

lemma runs_client:
  assumes "client env c w = (e, w')" and "buf_inv (buf w)"
  shows "runs key w [c] w'" and "answer env (history w @ [c]) = e"
proof -
  have w': "w' = issue env c w" and e: "e = answer env (history w')"
    using assms(1) by (auto simp: client_def Let_def)
  show 1: "runs key w [c] w'" using runs_issue [OF assms(2)] by (simp add: w')
  then show "answer env (history w @ [c]) = e" by (simp add: e runs_def)
qed

lemma runs_remove: "runs key w cs w' \<Longrightarrow> runs key w cs (w'\<lparr>buf := Remove key (buf w')\<rparr>)"
  using pbuf.remove_later [OF runs_inv] by (auto simp: runs_def intro: pbuf.later_but_trans)

text \<open>A batch goes on only when its samples were accepted, and gives up silently only on a full account.\<close>

lemma submitBatch_runs:
  assumes "submitBatch c env key batch w = (res, w')" and "buf_inv (buf w)"
  obtains cs where "runs key w cs w'"
    and "res = NextBatch \<Longrightarrow> accepted env (history w) cs = map encodeRTT batch"
    and "res = ReturnNil \<Longrightarrow> account_full env (history w) cs"
proof -
  let ?wc = "WriteDeviceLatencySamples (writeConfig c key batch)"
  let ?ic = "InitializeDeviceLatencySamples (initConfig c key)"
  obtain e1 w1 where 1: "client env ?wc w = (e1, w1)" by fastforce
  note r1 = runs_client [OF 1 assms(2)]
  obtain e2 w2 where 2: "client env ?ic w1 = (e2, w2)" by fastforce
  note r2 = runs_client [OF 2 runs_inv [OF r1(1)]]
  obtain e3 w3 where 3: "client env ?wc w2 = (e3, w3)" by fastforce
  note r3 = runs_client [OF 3 runs_inv [OF r2(1)]]
  have h: "history w1 = history w @ [?wc]" "history w2 = history w @ [?wc, ?ic]"
    using r1(1) r2(1) by (simp_all add: runs_def)
  have w: "w_Samples (writeConfig c key batch) = map encodeRTT batch" by (simp add: writeConfig_def)
  note def = submitBatch_def Let_def 1 2 3 accepted_def account_full_def
  consider (one) "e1 \<noteq> Some ErrAccountNotFound" | (two) "e1 = Some ErrAccountNotFound" "e2 \<noteq> None"
    | (three) "e1 = Some ErrAccountNotFound" "e2 = None" by auto
  then show ?thesis
  proof cases
    case one
    have "runs key w [?wc] w'" using assms(1) one r1(1) runs_remove [OF r1(1)]
      by (auto simp: def split: option.splits program_error.splits)
    then show ?thesis using assms(1) one r1(2)
      by (intro that [of "[?wc]"]) (auto simp: def w split: option.splits program_error.splits)
  next
    case two
    then show ?thesis using assms(1) runs_trans [OF r1(1) r2(1)]
      by (intro that [of "[?wc] @ [?ic]"]) (auto simp: def)
  next
    case three
    note r = runs_trans [OF runs_trans [OF r1(1) r2(1)] r3(1)]
    have "runs key w (([?wc] @ [?ic]) @ [?wc]) w'" using assms(1) three r runs_remove [OF r]
      by (auto simp: def split: option.splits program_error.splits)
    then show ?thesis using assms(1) three r1(2) r2(2) r3(2)
      by (intro that [of "([?wc] @ [?ic]) @ [?wc]"]) (auto simp: def w h split: option.splits program_error.splits)
  qed
qed

lemma submitLoop_runs:
  assumes "submitLoop c env key samples w = (e, w')" and "buf_inv (buf w)"
  shows "\<exists>cs. runs key w cs w' \<and>
    (e \<noteq> None \<or> accepted env (history w) cs = map encodeRTT samples \<or> account_full env (history w) cs)"
  using assms
proof (induction c env key samples w rule: submitLoop.induct)
  case (1 c env key samples w)
  let ?n = MaxDeviceLatencySamplesPerBatch
  show ?case
  proof (cases "samples = []")
    case True
    then show ?thesis using "1.prems" runs_refl [of w key]
      by (intro exI [of _ "[]"]) (simp add: submitLoop.simps)
  next
    case False
    obtain res w1 where b: "submitBatch c env key (take ?n samples) w = (res, w1)" by fastforce
    from submitBatch_runs [OF b "1.prems"(2)] obtain cs where cs: "runs key w cs w1"
      "res = NextBatch \<Longrightarrow> accepted env (history w) cs = map encodeRTT (take ?n samples)"
      "res = ReturnNil \<Longrightarrow> account_full env (history w) cs" by metis
    show ?thesis
    proof (cases res)
      case NextBatch
      have "submitLoop c env key (drop ?n samples) w1 = (e, w')"
        using "1.prems"(1) False b NextBatch by (simp add: submitLoop.simps [of c env key samples])
      from "1.IH" [OF False b [symmetric] NextBatch this runs_inv [OF cs(1)]]
      obtain ds where ds: "runs key w1 ds w'" "e \<noteq> None \<or>
          accepted env (history w1) ds = map encodeRTT (drop ?n samples) \<or> account_full env (history w1) ds"
        by blast
      have h: "history w1 = history w @ cs" using cs(1) by (simp add: runs_def)
      have "map encodeRTT samples = map encodeRTT (take ?n samples) @ map encodeRTT (drop ?n samples)"
        by (simp flip: map_append)
      then show ?thesis using runs_trans [OF cs(1) ds(1)] ds(2) cs(2) [OF NextBatch]
        by (intro exI [of _ "cs @ ds"]) (auto simp: h accepted_append account_full_append)
    qed (use "1.prems"(1) False b cs in \<open>auto simp: submitLoop.simps [of c env key samples]\<close>)
  qed
qed

lemma SubmitSamples_loop: "SubmitSamples c env key samples w = submitLoop c env key samples w"
  by (simp add: SubmitSamples_def submitLoop.simps)

lemma SubmitSamples_runs:
  assumes "SubmitSamples c env key samples w = (e, w')" and "buf_inv (buf w)"
  shows "\<exists>cs. runs key w cs w' \<and>
    (e \<noteq> None \<or> accepted env (history w) cs = map encodeRTT samples \<or> account_full env (history w) cs)"
  using assms submitLoop_runs by (simp add: SubmitSamples_loop)

text \<open>The retries succeed only when one attempt wrote every sample, or when the account is full.\<close>

lemma attempts_runs:
  assumes "attempts c env key tmp a w = (ok, w')" and "buf_inv (buf w)"
  shows "\<exists>bs cs. runs key w (bs @ cs) w' \<and>
    (\<not> ok \<or> accepted env (history w @ bs) cs = map encodeRTT tmp \<or> account_full env (history w) (bs @ cs))"
  using assms
proof (induction c env key tmp a w rule: attempts.induct)
  case (1 c env key tmp a w)
  show ?case
  proof (cases "a > MaxAttempts c")
    case True
    then show ?thesis using "1.prems" runs_refl [of w key]
      by (intro exI [of _ "[]"]) (simp add: attempts.simps)
  next
    case False
    obtain e w1 where s: "SubmitSamples c env key tmp w = (e, w1)" by fastforce
    from SubmitSamples_runs [OF s "1.prems"(2)] obtain cs where cs: "runs key w cs w1"
      "e \<noteq> None \<or> accepted env (history w) cs = map encodeRTT tmp \<or> account_full env (history w) cs" by blast
    show ?thesis
    proof (cases e)
      case None
      then show ?thesis using "1.prems"(1) False s cs
        by (intro exI [of _ "[]"] exI [of _ cs]) (auto simp: attempts.simps [of c env key tmp a w])
    next
      case (Some err)
      let ?sl = "Sleep (BackoffFunc c a)"
      let ?w2 = "issue env ?sl w1"
      have r: "runs key w (cs @ [?sl]) ?w2"
        by (rule runs_trans [OF cs(1) runs_issue [OF runs_inv [OF cs(1)]]])
      show ?thesis
      proof (cases "slept env (history ?w2)")
        case True
        have "attempts c env key tmp (a + 1) ?w2 = (ok, w')"
          using "1.prems"(1) False s Some True by (simp add: attempts.simps [of c env key tmp a w] Let_def)
        from "1.IH" [OF False s [symmetric] Some refl True this runs_inv [OF r]]
        obtain bs ds where ds: "runs key ?w2 (bs @ ds) w'" "\<not> ok \<or>
          accepted env (history ?w2 @ bs) ds = map encodeRTT tmp \<or> account_full env (history ?w2) (bs @ ds)"
          by blast
        have h: "history ?w2 = history w @ cs @ [?sl]" using r by (simp add: runs_def)
        show ?thesis using runs_trans [OF r ds(1)] ds(2)
          by - (rule exI [of _ "(cs @ [?sl]) @ bs"], rule exI [of _ ds],
            auto simp: h account_full_append account_full_Cons [of env _ ?sl "bs @ ds"])
      next
        case False2: False
        have "\<not> ok \<and> w' = ?w2"
          using "1.prems"(1) False s Some False2 by (simp add: attempts.simps [of c env key tmp a w] Let_def)
        then show ?thesis using r by (intro exI [of _ "[]"] exI [of _ "cs @ [?sl]"]) simp
      qed
    qed
  qed
qed

subsection \<open>A tick of one partition\<close>

lemma tickPartition_empty:
  assumes "buf_inv (buf w)" and "Read key (buf w) = []"
  shows "runs key w [GetCurrentEpoch] (tickPartition c env key w)"
proof -
  obtain tmp pb where cr: "CopyAndReset key (buf w) = (tmp, pb)" by fastforce
  have tmp: "tmp = []" using pbuf.take_all_rd [OF assms(1) cr] assms(2) by simp
  have 0: "runs key w [] (w\<lparr>buf := pb\<rparr>)"
    using pbuf.take_all_later [OF assms(1) cr] by (simp add: runs_def)
  obtain ep w3 where ce: "currentEpoch env (w\<lparr>buf := pb\<rparr>) = (ep, w3)" by fastforce
  have 3: "runs key w [GetCurrentEpoch] w3"
    using runs_trans [OF 0 runs_issue [OF runs_inv [OF 0], of _ GetCurrentEpoch env]] ce
    by (auto simp: currentEpoch_def Let_def)
  then show ?thesis using runs_remove [OF 3]
    by (auto simp: tickPartition_def cr tmp Let_def Recycle_def ce split: option.split)
qed

lemma tickPartition_nonempty:
  assumes "buf_inv (buf w)" and "Read key (buf w) \<noteq> []"
  obtains pb ok w2 where "CopyAndReset key (buf w) = (Read key (buf w), pb)"
    and "runs key w [] (w\<lparr>buf := pb\<rparr>)"
    and "attempts c env key (Read key (buf w)) 1 (w\<lparr>buf := pb\<rparr>) = (ok, w2)"
    and "tickPartition c env key w =
       (if \<not> ok \<and> int (length (Read key (buf w2)) + length (Read key (buf w))) < partitionBufferCapacity (buf w2)
        then w2\<lparr>buf := PriorityPrepend key (Read key (buf w)) (buf w2)\<rparr> else w2)"
proof -
  obtain tmp pb where cr: "CopyAndReset key (buf w) = (tmp, pb)" by fastforce
  have tmp: "tmp = Read key (buf w)" using pbuf.take_all_rd [OF assms(1) cr] by simp
  obtain ok w2 where a: "attempts c env key tmp 1 (w\<lparr>buf := pb\<rparr>) = (ok, w2)" by fastforce
  show ?thesis
  proof (rule that [of pb ok w2])
    show "runs key w [] (w\<lparr>buf := pb\<rparr>)"
      using pbuf.take_all_later [OF assms(1) cr] by (simp add: runs_def)
  qed (use assms(2) a in \<open>auto simp: tickPartition_def cr tmp Let_def Recycle_def Capacity_def Len_Read\<close>)
qed

text \<open>
  C3. No sample is lost in silence. Whatever the program client answers, however long the sleeps
  take and whatever the probes add in the meantime, a tick of a partition leaves the samples that
  were in it in front of the buffer in their order, or one attempt had every one of them accepted in order,
  or the account is full, or putting them back would reach the capacity. Other partitions lose nothing.
\<close>

theorem tick_submits_or_keeps:
  assumes "buf_inv (buf w)" and "tickPartition c env key w = w'"
  shows "\<exists>bs cs. history w' = history w @ bs @ cs \<and> buf_inv (buf w') \<and>
      {k. prefix (Read k (buf w)) (Read k (buf w'))} \<supseteq> - {key} \<and>
      (prefix (Read key (buf w)) (Read key (buf w'))
       \<or> accepted env (history w @ bs) cs = map encodeRTT (Read key (buf w))
       \<or> account_full env (history w) (bs @ cs)
       \<or> partitionBufferCapacity (buf w) \<le> int (length (Read key (buf w')) + length (Read key (buf w))))"
proof (cases "Read key (buf w) = []")
  case True
  from tickPartition_empty [OF assms(1) True, of c env] True show ?thesis
    by (intro exI [of _ "[]"] exI [of _ "[GetCurrentEpoch]"])
      (auto simp: assms(2) runs_def pbuf.later_but_def)
next
  case False
  from tickPartition_nonempty [OF assms(1) False, of c env] obtain pb ok w2 where
    r0: "runs key w [] (w\<lparr>buf := pb\<rparr>)" and a: "attempts c env key (Read key (buf w)) 1 (w\<lparr>buf := pb\<rparr>) = (ok, w2)"
    and w': "w' = (if \<not> ok \<and> int (length (Read key (buf w2)) + length (Read key (buf w))) < partitionBufferCapacity (buf w2)
        then w2\<lparr>buf := PriorityPrepend key (Read key (buf w)) (buf w2)\<rparr> else w2)"
    using assms(2) by metis
  from attempts_runs [OF a runs_inv [OF r0]] obtain bs cs where
    r: "runs key (w\<lparr>buf := pb\<rparr>) (bs @ cs) w2" and "\<not> ok \<or>
      accepted env (history w @ bs) cs = map encodeRTT (Read key (buf w)) \<or> account_full env (history w) (bs @ cs)"
    by auto
  moreover note r2 = runs_trans [OF r0 r]
  moreover have "runs key w (bs @ cs) w'"
    using r2 pbuf.prepend_later [OF runs_inv [OF r2], of key "Read key (buf w)"]
    by (auto simp: w' runs_def intro: pbuf.later_but_trans)
  moreover have "prefix (Read key (buf w)) (Read key (PriorityPrepend key (Read key (buf w)) (buf w2)))"
    using pbuf.prepend_rd [OF runs_inv [OF r2], of key "Read key (buf w)" key] by simp
  moreover have "partitionBufferCapacity (buf w2) = partitionBufferCapacity (buf w)"
    using r2 by (simp add: runs_def pbuf.later_but_def)
  ultimately show ?thesis
    by (intro exI [of _ bs] exI [of _ cs]) (auto simp: w' runs_def pbuf.later_but_def)
qed

subsection \<open>A client that accepts\<close>

text \<open>What the probes may add to a partition.\<close>

definition fresh_samples :: "Env \<Rightarrow> PartitionKey \<Rightarrow> Sample set" where
  "fresh_samples env key = {r. \<exists>h. (key, r) \<in> set (meanwhile env h)}"

lemma produce_adds: "buf_inv pb \<Longrightarrow> set (Read k (produce xs pb)) \<subseteq> set (Read k pb) \<union> {r. (k, r) \<in> set xs}"
proof (induction xs arbitrary: pb rule: list.induct)
  case (Cons x xs)
  obtain k' r where x: "x = (k', r)" by fastforce
  show ?case
  proof (cases "Add k' r pb")
    case (Some a)
    then obtain n pb' where a: "Add k' r pb = Some (n, pb')" by (cases a) auto
    note 1 = pbuf.add_rd [OF Cons.prems a, of k]
    from Cons.IH [of pb'] 1 show ?thesis by (auto simp: x a split: if_splits)
  qed (use Cons.IH [OF Cons.prems] in \<open>auto simp: x\<close>)
qed simp

lemma issue_adds:
  "buf_inv (buf w) \<Longrightarrow> set (Read k (buf (issue env c w))) \<subseteq> set (Read k (buf w)) \<union> fresh_samples env k"
  using produce_adds [of "buf w" k "meanwhile env (history w @ [c])"]
  by (auto simp: issue_def Let_def fresh_samples_def)

text \<open>The timestamp of a batch is that of its earliest sample.\<close>

lemma foldl_minStep:
  "0 < m \<Longrightarrow> \<forall>s \<in> set b. 0 < Timestamp s \<Longrightarrow> foldl minStep m b = Min (insert m (Timestamp ` set b))"
proof (induction b arbitrary: m)
  case (Cons s b)
  then have "minStep m s = min m (Timestamp s)" by (auto simp: minStep_def IsZero_def zero_time_def)
  with Cons show ?case by (cases "b = []") (simp_all add: min.assoc)
qed simp

lemma minTimestamp_Min:
  "b \<noteq> [] \<Longrightarrow> \<forall>s \<in> set b. 0 < Timestamp s \<Longrightarrow> minTimestamp b = Min (Timestamp ` set b)"
  by (cases b) (simp_all add: minTimestamp_def foldl_minStep minStep_def IsZero_def zero_time_def)

text \<open>The calls that write a list of batches.\<close>

definition writes :: "SubmitterConfig \<Rightarrow> PartitionKey \<Rightarrow> Sample list list \<Rightarrow> call list" where
  "writes c key bs = map (\<lambda>b. WriteDeviceLatencySamples (writeConfig c key b)) bs"

definition batched :: "Sample list list \<Rightarrow> Sample list \<Rightarrow> bool" where
  "batched bs samples \<longleftrightarrow> concat bs = samples \<and> length bs = (length samples + 238) div 239 \<and>
     (\<forall>b \<in> set bs. b \<noteq> [] \<and> length b \<le> 239)"

lemma batched_Cons:
  assumes "samples \<noteq> []" and "batched bs (drop 239 samples)"
  shows "batched (take 239 samples # bs) samples"
proof -
  have "Suc ((length samples - 239 + 238) div 239) = (length samples + 238) div 239"
  proof (cases "239 \<le> length samples")
    case True
    then obtain m where m: "length samples = 239 + m" using le_Suc_ex by blast
    have "(239 + m + 238) div 239 = Suc ((m + 238) div 239)" using div_add_self2 [of 239 "m + 238"] by simp
    then show ?thesis by (simp only: m diff_add_inverse)
  next
    case False
    then have "(length samples + 238) div 239 = 1" using assms(1) by (intro div_nat_eqI) (auto simp: Suc_le_eq)
    then show ?thesis using False by simp
  qed
  then show ?thesis using assms by (auto simp: batched_def)
qed

lemma submitLoop_accepting:
  assumes "\<And>h. length (history w) < length h \<Longrightarrow> answer env h = None" and "buf_inv (buf w)"
  shows "\<exists>bs w'. submitLoop c env key samples w = (None, w') \<and> batched bs samples \<and>
    history w' = history w @ writes c key bs \<and> buf_inv (buf w') \<and>
    set (Read key (buf w')) \<subseteq> set (Read key (buf w)) \<union> fresh_samples env key"
  using assms
proof (induction "length samples" arbitrary: samples w rule: less_induct)
  case less
  show ?case
  proof (cases "samples = []")
    case True
    then show ?thesis using less.prems(2) by (simp add: submitLoop.simps writes_def batched_def)
  next
    case False
    let ?wc = "WriteDeviceLatencySamples (writeConfig c key (take 239 samples))"
    let ?w1 = "issue env ?wc w"
    have h: "history ?w1 = history w @ [?wc]" by (simp add: issue_def Let_def)
    have i: "buf_inv (buf ?w1)" by (rule runs_inv [OF runs_issue [OF less.prems(2)]])
    have "submitBatch c env key (take 239 samples) w = (NextBatch, ?w1)"
      using less.prems(1) [of "history ?w1"] by (simp add: submitBatch_def client_def Let_def h)
    then have "submitLoop c env key samples w = submitLoop c env key (drop 239 samples) ?w1"
      using False by (simp add: submitLoop.simps [of _ _ _ samples] MaxDeviceLatencySamplesPerBatch_def)
    moreover have "length (drop 239 samples) < length samples" using False by simp
    from less.hyps [OF this _ i] less.prems(1) obtain bs w' where
      "submitLoop c env key (drop 239 samples) ?w1 = (None, w')" "batched bs (drop 239 samples)"
      "history w' = history ?w1 @ writes c key bs" "buf_inv (buf w')"
      "set (Read key (buf w')) \<subseteq> set (Read key (buf ?w1)) \<union> fresh_samples env key"
      by (auto simp: h)
    ultimately show ?thesis using batched_Cons [OF False] issue_adds [OF less.prems(2), of key env ?wc]
      by (intro exI [of _ "take 239 samples # bs"] exI [of _ w']) (auto simp: h writes_def)
  qed
qed

text \<open>
  C15. A client that accepts every write gets every sample of the partition exactly once and in order, in
  the least number of batches of at most 239, each with the time of its earliest sample; afterwards the partition holds
  only what the probes added meanwhile.
\<close>

theorem accepting_client_gets_every_sample_once:
  assumes "buf_inv (buf w)" and "\<And>h. answer env h = None" and "1 \<le> MaxAttempts c"
    and "Read key (buf w) \<noteq> []" and "\<forall>s \<in> set (Read key (buf w)). 0 < Timestamp s"
    and "tickPartition c env key w = w'"
  shows "\<exists>bs. concat bs = Read key (buf w) \<and> length bs = (length (Read key (buf w)) + 238) div 239 \<and>
    set bs \<subseteq> {b. length b \<le> 239} \<and>
    history w' = history w @ map (\<lambda>b. WriteDeviceLatencySamples
      \<lparr>w_AgentPK = MetricsPublisherPK c, w_Key = key,
       w_StartTimestampMicroseconds = word_of_int (UnixMicro (Min (Timestamp ` set b))),
       w_Samples = map encodeRTT b, w_AgentVersion = AgentVersion c, w_AgentCommit = AgentCommit c\<rparr>) bs \<and>
    set (Read key (buf w')) \<subseteq> fresh_samples env key"
proof -
  from tickPartition_nonempty [OF assms(1,4), of c env] obtain pb ok w2 where
    cr: "CopyAndReset key (buf w) = (Read key (buf w), pb)" and r0: "runs key w [] (w\<lparr>buf := pb\<rparr>)"
    and a: "attempts c env key (Read key (buf w)) 1 (w\<lparr>buf := pb\<rparr>) = (ok, w2)"
    and w': "w' = (if \<not> ok \<and> int (length (Read key (buf w2)) + length (Read key (buf w))) < partitionBufferCapacity (buf w2)
        then w2\<lparr>buf := PriorityPrepend key (Read key (buf w)) (buf w2)\<rparr> else w2)"
    using assms(6) by metis
  from submitLoop_accepting [of "w\<lparr>buf := pb\<rparr>" env c key "Read key (buf w)"] assms(2) runs_inv [OF r0]
  obtain bs w3 where l: "submitLoop c env key (Read key (buf w)) (w\<lparr>buf := pb\<rparr>) = (None, w3)"
    and bs: "batched bs (Read key (buf w))" and h: "history w3 = history w @ writes c key bs"
    and rd: "set (Read key (buf w3)) \<subseteq> set (Read key pb) \<union> fresh_samples env key"
    by auto
  have "ok" and "w2 = w3" using a assms(3) l by (simp_all add: attempts.simps SubmitSamples_loop)
  then have "w' = w3" by (simp add: w')
  moreover have "Read key pb = []" using pbuf.take_all_rd [OF assms(1) cr, of key] by simp
  moreover have "minTimestamp b = Min (Timestamp ` set b)" if "b \<in> set bs" for b
  proof (rule minTimestamp_Min)
    show "b \<noteq> []" using bs that by (simp add: batched_def)
    have "set b \<subseteq> set (concat bs)" using that by auto
    then have "set b \<subseteq> set (Read key (buf w))" using bs by (simp only: batched_def)
    then show "\<forall>s \<in> set b. 0 < Timestamp s" using assms(5) by auto
  qed
  ultimately show ?thesis using bs h rd
    by (intro exI [of _ bs]) (auto simp: batched_def writes_def writeConfig_def)
qed

subsection \<open>Retries\<close>

lemma accepted_writes:
  assumes "\<And>h'. length h < length h' \<Longrightarrow> answer env h' = None"
  shows "accepted env h (writes c key bs) = map encodeRTT (concat bs)"
  using assms
proof (induction bs arbitrary: h)
  case (Cons b bs)
  let ?wc = "WriteDeviceLatencySamples (writeConfig c key b)"
  have "accepted env (h @ [?wc]) (writes c key bs) = map encodeRTT (concat bs)"
    using Cons.prems by (intro Cons.IH) simp
  then show ?case using Cons.prems [of "h @ [?wc]"] accepted_append [of env h "[?wc]" "writes c key bs"]
    by (simp add: writes_def accepted_def writeConfig_def)
qed (simp add: writes_def)

text \<open>The first attempt fails at its second batch.\<close>

lemma submitLoop_second_fails:
  assumes "239 < length samples" and "\<And>h. answer env h = (if length h = length (history w) + 2 then Some OtherError else None)"
    and "buf_inv (buf w)"
  obtains b w1 where "submitLoop c env key samples w = (Some (WriteFailed OtherError), w1)"
    and "history w1 = history w @ writes c key [take 239 samples, b]" and "buf_inv (buf w1)"
proof -
  let ?call = "\<lambda>b. WriteDeviceLatencySamples (writeConfig c key b)"
  let ?b1 = "take 239 samples" and ?b2 = "take 239 (drop 239 samples)"
  let ?w1 = "issue env (?call ?b1) w"
  let ?w2 = "issue env (?call ?b2) ?w1"
  have h: "history ?w1 = history w @ [?call ?b1]" "history ?w2 = history w @ [?call ?b1, ?call ?b2]"
    by (simp_all add: issue_def Let_def)
  have i: "buf_inv (buf ?w1)" by (rule runs_inv [OF runs_issue [OF assms(3)]])
  have "submitBatch c env key ?b1 w = (NextBatch, ?w1)"
    by (simp add: submitBatch_def client_def Let_def h assms(2))
  moreover have "submitBatch c env key ?b2 ?w1 = (ReturnErr (WriteFailed OtherError), ?w2)"
    by (simp add: submitBatch_def client_def Let_def h assms(2))
  moreover have "samples \<noteq> []" "drop 239 samples \<noteq> []" using assms(1) by auto
  ultimately have "submitLoop c env key samples w = (Some (WriteFailed OtherError), ?w2)"
    by (simp add: submitLoop.simps [of _ _ _ _ w] submitLoop.simps [of _ _ _ _ ?w1] MaxDeviceLatencySamplesPerBatch_def)
  then show ?thesis using that [of ?w2 ?b2] h(2) runs_inv [OF runs_issue [OF i]] by (simp add: writes_def)
qed

text \<open>
  C32. A retry starts over. When a partition holds more than one batch, the second write fails once and everything else
  succeeds, the samples of the first batch are accepted by the program twice: the attempt that
  follows the failure sends the whole partition again.
\<close>

theorem retry_writes_accepted_batches_again:
  assumes "buf_inv (buf w)" and "239 < length (Read key (buf w))" and "2 \<le> MaxAttempts c"
    and "\<And>h. answer env h = (if length h = length (history w) + 2 then Some OtherError else None)"
    and "\<And>h. slept env h" and "tickPartition c env key w = w'"
  shows "accepted env (history w) (drop (length (history w)) (history w'))
    = map encodeRTT (take 239 (Read key (buf w))) @ map encodeRTT (Read key (buf w))"
proof -
  let ?tmp = "Read key (buf w)"
  have ne: "?tmp \<noteq> []" using assms(2) by auto
  from tickPartition_nonempty [OF assms(1) ne, of c env] obtain pb ok w2 where
    r0: "runs key w [] (w\<lparr>buf := pb\<rparr>)" and a: "attempts c env key ?tmp 1 (w\<lparr>buf := pb\<rparr>) = (ok, w2)"
    and w': "w' = (if \<not> ok \<and> int (length (Read key (buf w2)) + length ?tmp) < partitionBufferCapacity (buf w2)
        then w2\<lparr>buf := PriorityPrepend key ?tmp (buf w2)\<rparr> else w2)"
    using assms(6) by metis
  have e: "answer env h = (if length h = length (history (w\<lparr>buf := pb\<rparr>)) + 2 then Some OtherError else None)" for h
    using assms(4) by simp
  obtain b w1 where l1: "submitLoop c env key ?tmp (w\<lparr>buf := pb\<rparr>) = (Some (WriteFailed OtherError), w1)"
    and "history w1 = history (w\<lparr>buf := pb\<rparr>) @ writes c key [take 239 ?tmp, b]" and i1: "buf_inv (buf w1)"
    by (rule submitLoop_second_fails [OF assms(2) e runs_inv [OF r0]])
  then have h1: "history w1 = history w @ writes c key [take 239 ?tmp, b]" by simp
  let ?s = "issue env (Sleep (BackoffFunc c 1)) w1"
  have hs: "history ?s = history w1 @ [Sleep (BackoffFunc c 1)]" by (simp add: issue_def Let_def)
  have late: "answer env h = None" if "length (history ?s) < length h" for h
    using that by (simp add: assms(4) hs h1 writes_def)
  from submitLoop_accepting [OF late runs_inv [OF runs_issue [OF i1]]] obtain bs w3 where
    l2: "submitLoop c env key ?tmp ?s = (None, w3)" and bs: "batched bs ?tmp"
    and h3: "history w3 = history ?s @ writes c key bs" by metis
  have "ok" and "w2 = w3" using a assms(3,5) l1 l2
    by (simp_all add: attempts.simps [of _ _ _ _ 1] attempts.simps [of _ _ _ _ 2] SubmitSamples_loop Let_def)
  then have "history w' = history w @ (writes c key [take 239 ?tmp, b] @ [Sleep (BackoffFunc c 1)]) @ writes c key bs"
    using w' by (simp add: h3 hs h1)
  moreover have "accepted env (history w) (writes c key [take 239 ?tmp, b] @ [Sleep (BackoffFunc c 1)])
      = map encodeRTT (take 239 ?tmp)"
    by (simp add: accepted_def writes_def assms(4) writeConfig_def)
  moreover have "accepted env (history ?s) (writes c key bs) = map encodeRTT ?tmp"
    using accepted_writes [OF late] bs by (simp add: batched_def)
  ultimately show ?thesis by (simp add: accepted_append hs h1 flip: append_assoc)
qed

subsection \<open>Whole ticks\<close>

text \<open>Every tick and every run of the loop keeps the invariant of the buffer.\<close>

lemma tickPartition_inv: "buf_inv (buf w) \<Longrightarrow> buf_inv (buf (tickPartition c env key w))"
proof (cases "Read key (buf w) = []")
  case True
  assume "buf_inv (buf w)"
  from runs_inv [OF tickPartition_empty [OF this True]] show ?thesis .
next
  case False
  assume inv: "buf_inv (buf w)"
  from tickPartition_nonempty [OF inv False, of c env] obtain pb ok w2 where
    "runs key w [] (w\<lparr>buf := pb\<rparr>)" "attempts c env key (Read key (buf w)) 1 (w\<lparr>buf := pb\<rparr>) = (ok, w2)"
    and t: "tickPartition c env key w = w2 \<or> tickPartition c env key w
      = w2\<lparr>buf := PriorityPrepend key (Read key (buf w)) (buf w2)\<rparr>" by metis
  from attempts_runs [OF this(2) runs_inv [OF this(1)]] have "buf_inv (buf w2)" by (auto dest: runs_inv)
  then show ?thesis using t pbuf.prepend_rd [of "buf w2" key "Read key (buf w)"] by auto
qed

lemma Tick_inv: "buf_inv (buf w) \<Longrightarrow> buf_inv (buf (Tick c env order w))"
proof -
  have "buf_inv (buf w) \<Longrightarrow> buf_inv (buf (foldl (\<lambda>w key. tickPartition c env key w) w ks))" for ks
    by (induction ks arbitrary: w) (simp_all add: tickPartition_inv)
  then show "buf_inv (buf w) \<Longrightarrow> buf_inv (buf (Tick c env order w))" by (simp add: Tick_def Let_def)
qed

lemma submitter_Run_inv: "buf_inv (buf w) \<Longrightarrow> buf_inv (buf (submitter_Run c env es w))"
  by (induction c env es w rule: submitter_Run.induct) (simp_all add: Tick_inv)

text \<open>
  Zero stands for a loss, but it is also what a round trip of less than a microsecond is encoded
  as, and one of a multiple of 2 to the 32 microseconds.
\<close>

lemma encodeRTT_zero_iff:
  "encodeRTT s = 0 \<longleftrightarrow> Loss s \<or> RTT s \<noteq> 0 \<and> (2 ^ 32) dvd Microseconds (RTT s)"
  by (auto simp: encodeRTT_def word_of_int_eq_0_iff)

lemma short_round_trip_is_loss:
  "0 < RTT s \<Longrightarrow> RTT s < 1000 \<Longrightarrow> encodeRTT s = 0"
  by (simp add: encodeRTT_def Microseconds_def signed_divide_int_def)

text \<open>
  A partition of a past epoch that is empty when it is taken is removed after the epoch has been
  asked for; samples added in between go with it.
\<close>

lemma epoch_lookup_drops_samples:
  assumes "buf_inv (buf w)" and "Read key (buf w) = []" and "\<And>h. epoch env h = Some e" and "Epoch key < e"
  shows "Read key (buf (tickPartition c env key w)) = []"
proof -
  obtain tmp pb where cr: "CopyAndReset key (buf w) = (tmp, pb)" by fastforce
  have tmp: "tmp = []" and inv: "buf_inv pb" using pbuf.take_all_rd [OF assms(1) cr] assms(2) by simp_all
  let ?w3 = "issue env GetCurrentEpoch (w\<lparr>buf := pb\<rparr>)"
  have "buf_inv (buf ?w3)" using runs_inv [OF runs_issue] inv by simp
  then show ?thesis
    using assms(3,4) pbuf.remove_rd [of "buf ?w3" key key]
    by (simp add: tickPartition_def cr tmp Let_def Recycle_def currentEpoch_def)
qed

subsection \<open>Concrete instances\<close>

definition example_key :: PartitionKey where
  "example_key = \<lparr>OriginDevicePK = [1], TargetDevicePK = [2], LinkPK = [3], Epoch = 7\<rparr>"

definition example_sample :: Sample where
  "example_sample = \<lparr>Timestamp = 63000000000 * second, RTT = 2500000, Loss = False\<rparr>"

definition example_config :: SubmitterConfig where
  "example_config = \<lparr>MetricsPublisherPK = [9], ProbeInterval = 10 * second, BackoffFunc = \<lambda>n. n * second,
     MaxAttempts = 5, MaxConcurrency = 10, AgentVersion = ''1.0'', AgentCommit = ''abc''\<rparr>"

text \<open>The environment answers as told; a probe adds one more sample during every call.\<close>

definition example_env :: "(call list \<Rightarrow> program_error option) \<Rightarrow> Env" where
  "example_env ans = \<lparr>answer = ans, slept = \<lambda>h. True, epoch = \<lambda>h. Some 7, meanwhile = \<lambda>h. [(example_key, example_sample)]\<rparr>"

definition example_submission :: "nat \<Rightarrow> Submission" where
  "example_submission n = \<lparr>history = [], buf = \<lparr>partitions = [example_key \<mapsto> 0],
     buffers = \<lambda>p. \<lparr>records = replicate n example_sample, maxCapacity = 1000\<rparr>, nextBuffer = 1,
     partitionBufferCapacity = 1000\<rparr>\<rparr>"

lemma example_submission_inv: "buf_inv (buf (example_submission n))"
  by (auto simp: buf_inv_def example_submission_def split: if_splits)

lemma example_submission_Read: "Read example_key (buf (example_submission n)) = replicate n example_sample"
  by (simp add: Read_def mb_Read_def example_submission_def)

lemma example_submission_simps [simp]:
  "history (example_submission n) = []" "partitionBufferCapacity (buf (example_submission n)) = 1000"
  by (simp_all add: example_submission_def)

lemma example_encode: "encodeRTT example_sample = 2500"
  by (simp add: encodeRTT_def example_sample_def Microseconds_def signed_divide_int_def)

text \<open>The program cannot be reached and the context ends during the first sleep.\<close>

definition example_offline :: Env where
  "example_offline = (example_env (\<lambda>h. Some OtherError))\<lparr>slept := \<lambda>h. False\<rparr>"

lemma example_offline_Len:
  "Len example_key (buf (tickPartition example_config example_offline example_key (example_submission 1))) = 3"
  by (simp add: tickPartition_def CopyAndReset_def mb_CopyAndReset_def attempts.simps SubmitSamples_loop
      submitLoop.simps submitBatch_def client_def issue_def Let_def example_offline_def example_env_def
      Add_def fetch_def addTo_def mb_Add_def mb_Len_def Len_def Capacity_def PriorityPrepend_def
      mb_PriorityPrepend_def Recycle_def example_config_def example_submission_def MaxDeviceLatencySamplesPerBatch_def)

theorem tick_submits_or_keeps_witness:
  "prefix [example_sample]
     (Read example_key (buf (tickPartition example_config example_offline example_key (example_submission 1))))"
proof -
  have "accepted example_offline h cs = []" "\<not> account_full example_offline h cs" for h cs
    by (induction cs arbitrary: h)
      (simp_all add: accepted_def account_full_def example_offline_def example_env_def split: call.split)
  then show ?thesis
    using tick_submits_or_keeps [OF example_submission_inv [of 1] refl, where c = example_config
      and env = example_offline and key = example_key]
      example_offline_Len by (auto simp: example_submission_Read Len_Read)
qed

theorem accepting_client_gets_every_sample_once_witness:
  "\<exists>bs. concat bs = replicate 240 example_sample \<and> length bs = 2 \<and> set bs \<subseteq> {b. length b \<le> 239} \<and>
    map (\<lambda>c. case c of WriteDeviceLatencySamples wc \<Rightarrow> w_Samples wc | _ \<Rightarrow> [])
      (history (tickPartition example_config (example_env (\<lambda>h. None)) example_key (example_submission 240)))
    = map (map encodeRTT) bs"
proof -
  have "\<forall>s \<in> set (Read example_key (buf (example_submission 240))). 0 < Timestamp s"
    by (simp add: example_submission_Read example_sample_def second_def)
  moreover have "Read example_key (buf (example_submission 240)) \<noteq> []" "1 \<le> MaxAttempts example_config"
    "answer (example_env (\<lambda>h. None)) h = None" for h
    by (simp_all add: example_submission_Read example_config_def example_env_def)
  ultimately show ?thesis
    using accepting_client_gets_every_sample_once [OF example_submission_inv,
      of "example_env (\<lambda>h. None)" example_config example_key 240, OF _ _ _ _ refl]
    by (auto simp: example_submission_Read o_def)
qed

theorem retry_writes_accepted_batches_again_witness:
  "accepted (example_env (\<lambda>h. if length h = 2 then Some OtherError else None)) []
     (history (tickPartition example_config (example_env (\<lambda>h. if length h = 2 then Some OtherError else None))
        example_key (example_submission 240)))
   = replicate 479 2500"
proof -
  let ?env = "example_env (\<lambda>h. if length h = 2 then Some OtherError else None)"
  have "239 < length (Read example_key (buf (example_submission 240)))" "2 \<le> MaxAttempts example_config"
    "answer ?env h = (if length h = length (history (example_submission 240)) + 2 then Some OtherError else None)"
    "slept ?env h" for h
    by (simp_all add: example_submission_Read example_config_def example_env_def)
  from retry_writes_accepted_batches_again [OF example_submission_inv this refl]
  have "accepted ?env [] (history (tickPartition example_config ?env example_key (example_submission 240)))
    = map encodeRTT (take 239 (replicate 240 example_sample)) @ map encodeRTT (replicate 240 example_sample)"
    by (simp only: example_submission_simps example_submission_Read list.size drop_0)
  also have "\<dots> = replicate 239 2500 @ replicate 240 2500"
    by (simp only: take_replicate map_replicate example_encode) simp
  finally show ?thesis by (simp only: flip: replicate_add) simp
qed

end
