(* ===== verification/BGP_Status.thy ===== *)
theory BGP_Status
  imports Serviceability_Deserialize
begin

text \<open>
  The reporter of users' BGP status on a device,
  controlplane/telemetry/internal/bgpstatus and netutil. A tick reads the users of the device from the
  ledger, finds each user's tunnel and BGP session among what the network namespaces show, and
  queues a submission where the status on the ledger has to change or to be refreshed; a worker
  takes the queued submissions one by one and writes them with retries.

  The tick fetches program data before it takes the mutex, and the worker submits without it, so
  a world holds the fetched data and the submission in progress beside the shared state, and
  \<open>bgp_step\<close> interleaves the two goroutines at these points. The ledger is the status of every user;
  a transaction may land on it although the executor reports an error. Users are identified by
  their public key, of which the code uses the base58 text. What the kernel shows (namespaces, sockets,
  interfaces) is an argument of the tick.
\<close>

subsection \<open>Tunnels: netutil\<close>

datatype Addr = IPNetAddr IPNet | OtherAddr

record LocalInterface =
  if_Name :: string
  if_Addrs :: "Addr list"

record LocalTunnel =
  lt_Interface :: string
  SourceIP :: IP
  TargetIP :: IP

datatype tunnel_error = ErrLocalTunnelNotFound | PeerIPFailed

text \<open>The text of four bytes parses back to them, so the peer is computed from the bytes.\<close>

definition getPeerIPIn31 :: "IP \<Rightarrow> IP option" where
  "getPeerIPIn31 ip = (if length ip \<noteq> 4 then None
     else let ipInt = be_word ip :: uint32; peerInt = ipInt XOR 1 in Some (be_bytes 4 peerInt))"

fun addrLoop :: "string \<Rightarrow> Addr list \<Rightarrow> IPNet \<Rightarrow> (tunnel_error + LocalTunnel) option" where
  "addrLoop name [] tunnelNet = None"
| "addrLoop name (OtherAddr # addrs) tunnelNet = addrLoop name addrs tunnelNet"
| "addrLoop name (IPNetAddr ipNet # addrs) tunnelNet =
     (let ip = To4 (NetIP ipNet) in
      if ip = [] then addrLoop name addrs tunnelNet
      else if mask_Size (Mask ipNet) \<noteq> (31, 32) then addrLoop name addrs tunnelNet
      else if IPNet_Contains tunnelNet ip
      then (case getPeerIPIn31 ip of None \<Rightarrow> Some (Inl PeerIPFailed)
            | Some peerIP \<Rightarrow> if To4 peerIP = [] then Some (Inl PeerIPFailed)
                else Some (Inr \<lparr>lt_Interface = name, SourceIP = ip, TargetIP = To4 peerIP\<rparr>))
      else addrLoop name addrs tunnelNet)"

fun FindLocalTunnel :: "LocalInterface list \<Rightarrow> IPNet \<Rightarrow> tunnel_error + LocalTunnel" where
  "FindLocalTunnel [] tunnelNet = Inl ErrLocalTunnelNotFound"
| "FindLocalTunnel (iface # ifaces) tunnelNet =
     (case addrLoop (if_Name iface) (if_Addrs iface) tunnelNet of
        None \<Rightarrow> FindLocalTunnel ifaces tunnelNet
      | Some r \<Rightarrow> r)"

definition tunnelNetToIPNet :: "byte list \<Rightarrow> IPNet" where
  "tunnelNetToIPNet b = \<lparr>NetIP = take 4 b, Mask = CIDRMask32 (unat (b ! 4))\<rparr>"

subsection \<open>Status of a user: the pure helpers\<close>

definition BGPStatusUnknown :: uint8 where "BGPStatusUnknown = 0"
definition BGPStatusUp :: uint8 where "BGPStatusUp = 1"
definition BGPStatusDown :: uint8 where "BGPStatusDown = 2"
definition UserStatusActivated :: uint8 where "UserStatusActivated = 1"

record BGPPeerState =
  Established :: bool
  RttNs :: uint64

record bgpSocket =
  RemoteIP :: string
  SockState :: string
  SockRttNs :: uint64

definition buildPeerStateMap :: "bgpSocket list \<Rightarrow> string \<Rightarrow> BGPPeerState option" where
  "buildPeerStateMap sockets = foldl (\<lambda>m sock. m(RemoteIP sock \<mapsto>
      \<lparr>Established = (SockState sock = ''ESTABLISHED''), RttNs = SockRttNs sock\<rparr>)) (\<lambda>_. None) sockets"

record userState =
  lastOnchainStatus :: uint8
  lastWriteTime :: gotime
  lastUpObservedAt :: gotime

definition computeEffectiveStatus :: "bool \<Rightarrow> userState \<Rightarrow> gotime \<Rightarrow> duration \<Rightarrow> uint8" where
  "computeEffectiveStatus observedUp us now gracePeriod =
     (if observedUp then BGPStatusUp
      else if IsZero (lastUpObservedAt us) then BGPStatusDown
      else if gracePeriod > 0 \<and> time_sub now (lastUpObservedAt us) < gracePeriod then BGPStatusUp
      else BGPStatusDown)"

definition shouldSubmit :: "userState \<Rightarrow> uint8 \<Rightarrow> gotime \<Rightarrow> duration \<Rightarrow> bool" where
  "shouldSubmit us newStatus now refreshInterval =
     (if IsZero (lastWriteTime us) then True
      else if lastOnchainStatus us \<noteq> newStatus then True
      else time_sub now (lastWriteTime us) \<ge> refreshInterval)"

subsection \<open>The submitter\<close>

text \<open>The configuration; of the logger and the interfaces it is only said whether they are set.\<close>

record bgp_Config =
  HasLog :: bool
  HasExecutor :: bool
  HasServiceabilityClient :: bool
  HasCollector :: bool
  LocalDevicePK :: "byte list"
  NetnsDir :: string
  Interval :: duration
  PeriodicRefreshInterval :: duration
  DownGracePeriod :: duration

datatype config_error = LogRequired | ExecutorRequired | ClientRequired | CollectorRequired | DeviceRequired

definition taskChannelCapacity :: nat where "taskChannelCapacity = 256"
definition defaultInterval :: duration where "defaultInterval = 60 * second"
definition defaultRefreshInterval :: duration where "defaultRefreshInterval = 6 * 3600 * second"
definition submitMaxRetries :: nat where "submitMaxRetries = 3"
definition defaultNetnsDir :: string where "defaultNetnsDir = ''/var/run/netns''"

definition validate :: "bgp_Config \<Rightarrow> config_error + bgp_Config" where
  "validate c =
     (if \<not> HasLog c then Inl LogRequired
      else if \<not> HasExecutor c then Inl ExecutorRequired
      else if \<not> HasServiceabilityClient c then Inl ClientRequired
      else if \<not> HasCollector c then Inl CollectorRequired
      else if LocalDevicePK c = replicate 32 0 then Inl DeviceRequired
      else let c = (if NetnsDir c = [] then c\<lparr>NetnsDir := defaultNetnsDir\<rparr> else c);
               c = (if Interval c \<le> 0 then c\<lparr>Interval := defaultInterval\<rparr> else c);
               c = (if PeriodicRefreshInterval c \<le> 0 then c\<lparr>PeriodicRefreshInterval := defaultRefreshInterval\<rparr> else c)
           in Inr c)"

record submitTask =
  task_user :: User
  task_status :: uint8
  task_rttNs :: uint64

record bgp_Submitter =
  userStates :: "byte list \<Rightarrow> userState option"
  pending :: "byte list \<Rightarrow> bool"
  taskCh :: "submitTask list"

definition bgp_NewSubmitter :: "bgp_Config \<Rightarrow> config_error + bgp_Config \<times> bgp_Submitter" where
  "bgp_NewSubmitter c = (case validate c of Inl e \<Rightarrow> Inl e
     | Inr c \<Rightarrow> Inr (c, \<lparr>userStates = \<lambda>_. None, pending = \<lambda>_. False, taskCh = []\<rparr>))"

definition userStateFor :: "byte list \<Rightarrow> uint8 \<Rightarrow> 'a bgp_Submitter_scheme \<Rightarrow> userState \<times> 'a bgp_Submitter_scheme" where
  "userStateFor key initialStatus s = (case userStates s key of Some us \<Rightarrow> (us, s)
     | None \<Rightarrow> let us = \<lparr>lastOnchainStatus = initialStatus, lastWriteTime = zero_time, lastUpObservedAt = zero_time\<rparr>
         in (us, s\<lparr>userStates := (userStates s)(key \<mapsto> us)\<rparr>))"

subsection \<open>The tick\<close>

definition deviceUsers :: "bgp_Config \<Rightarrow> ProgramData \<Rightarrow> User list" where
  "deviceUsers c pd = filter (\<lambda>u. user_Status u = UserStatusActivated \<and> user_DevicePubKey u = LocalDevicePK c) (pd_Users pd)"

type_synonym collector = "string \<Rightarrow> ((string \<Rightarrow> BGPPeerState option) \<times> LocalInterface list) option"

fun collectLoop :: "collector \<Rightarrow> string list \<Rightarrow> (string \<Rightarrow> BGPPeerState option) \<Rightarrow> LocalInterface list \<Rightarrow> nat
    \<Rightarrow> (string \<Rightarrow> BGPPeerState option) \<times> LocalInterface list \<times> nat" where
  "collectLoop collect [] peers interfaces successCount = (peers, interfaces, successCount)"
| "collectLoop collect (ns # nss) peers interfaces successCount =
     (case collect ns of None \<Rightarrow> collectLoop collect nss peers interfaces successCount
      | Some (nsPeers, ifaces) \<Rightarrow> collectLoop collect nss (peers ++ nsPeers) (interfaces @ ifaces) (successCount + 1))"

text \<open>The part of the loop body after the observation: decide, and queue unless in flight or full.\<close>

definition submitStatus :: "bgp_Config \<Rightarrow> gotime \<Rightarrow> User \<Rightarrow> userState \<Rightarrow> bool \<Rightarrow> BGPPeerState
    \<Rightarrow> 'a bgp_Submitter_scheme \<Rightarrow> 'a bgp_Submitter_scheme" where
  "submitStatus c now user us observedUp peer s =
     (let effectiveStatus = computeEffectiveStatus observedUp us now (DownGracePeriod c) in
      if \<not> shouldSubmit us effectiveStatus now (PeriodicRefreshInterval c) then s
      else if pending s (user_PubKey user) then s
      else let rttNs = (if effectiveStatus = BGPStatusUp then RttNs peer else 0);
               task = \<lparr>task_user = user, task_status = effectiveStatus, task_rttNs = rttNs\<rparr> in
           if length (taskCh s) < taskChannelCapacity
           then s\<lparr>taskCh := taskCh s @ [task], pending := (pending s)(user_PubKey user := True)\<rparr>
           else s)"

definition tickUser :: "bgp_Config \<Rightarrow> (string \<Rightarrow> BGPPeerState option) \<Rightarrow> LocalInterface list \<Rightarrow> gotime \<Rightarrow> User
    \<Rightarrow> 'a bgp_Submitter_scheme \<Rightarrow> 'a bgp_Submitter_scheme" where
  "tickUser c peers interfaces now user s =
     (let userPK = user_PubKey user in
      case userStateFor userPK (user_BgpStatus user) s of (us, s1) \<Rightarrow>
      (case FindLocalTunnel interfaces (tunnelNetToIPNet (user_TunnelNet user)) of
         Inl err \<Rightarrow>
           if err \<noteq> ErrLocalTunnelNotFound then s1
           else if lastOnchainStatus us \<noteq> BGPStatusUp then s1
           else submitStatus c now user us False \<lparr>Established = False, RttNs = 0\<rparr> s1
       | Inr tunnel \<Rightarrow>
           let peer = (case peers (ip4_String (TargetIP tunnel)) of None \<Rightarrow> \<lparr>Established = False, RttNs = 0\<rparr> | Some p \<Rightarrow> p);
               us' = (if Established peer then us\<lparr>lastUpObservedAt := now\<rparr> else us)
           in submitStatus c now user us' (Established peer) peer (s1\<lparr>userStates := (userStates s1)(userPK \<mapsto> us')\<rparr>)))"

definition tickUsers :: "bgp_Config \<Rightarrow> (string \<Rightarrow> BGPPeerState option) \<Rightarrow> LocalInterface list \<Rightarrow> gotime \<Rightarrow> User list
    \<Rightarrow> 'a bgp_Submitter_scheme \<Rightarrow> 'a bgp_Submitter_scheme" where
  "tickUsers c peers interfaces now users s = foldl (\<lambda>s user. tickUser c peers interfaces now user s) s users"

definition prune :: "byte list set \<Rightarrow> 'a bgp_Submitter_scheme \<Rightarrow> 'a bgp_Submitter_scheme" where
  "prune activeUserKeys s =
     s\<lparr>userStates := (\<lambda>pk. if pk \<in> activeUserKeys then userStates s pk else None),
       pending := (\<lambda>pk. pending s pk \<and> (userStates s pk = None \<or> pk \<in> activeUserKeys))\<rparr>"

definition tick :: "bgp_Config \<Rightarrow> ProgramData option \<Rightarrow> string list option \<Rightarrow> collector \<Rightarrow> gotime
    \<Rightarrow> 'a bgp_Submitter_scheme \<Rightarrow> 'a bgp_Submitter_scheme" where
  "tick c programData namespaces collect now s =
     (case programData of None \<Rightarrow> s
      | Some pd \<Rightarrow> (case namespaces of None \<Rightarrow> s
          | Some nss \<Rightarrow>
              if nss = [] then s
              else case collectLoop collect nss (\<lambda>_. None) [] 0 of (peers, interfaces, successCount) \<Rightarrow>
                if successCount = 0 then s
                else prune (user_PubKey ` set (deviceUsers c pd))
                       (tickUsers c peers interfaces now (deviceUsers c pd) s)))"

subsection \<open>The worker\<close>

datatype exec_error = CtxErr | ExecErr

text \<open>The attempts: the answer of the executor to each, and whether the context ended in the wait after it.\<close>

fun retryLoop :: "(nat \<Rightarrow> bool) \<Rightarrow> (nat \<Rightarrow> bool) \<Rightarrow> nat \<Rightarrow> nat \<Rightarrow> exec_error option" where
  "retryLoop ok done attempt 0 = Some ExecErr"
| "retryLoop ok done attempt (Suc n) =
     (if ok attempt then None else if done attempt then Some CtxErr else retryLoop ok done (attempt + 1) n)"

definition submitWithRetry :: "(nat \<Rightarrow> bool) \<Rightarrow> (nat \<Rightarrow> bool) \<Rightarrow> exec_error option" where
  "submitWithRetry ok done = retryLoop ok done 0 submitMaxRetries"

definition workerDone :: "exec_error option \<Rightarrow> gotime \<Rightarrow> submitTask \<Rightarrow> 'a bgp_Submitter_scheme \<Rightarrow> 'a bgp_Submitter_scheme" where
  "workerDone err now task s =
     (let userPK = user_PubKey (task_user task);
          s1 = s\<lparr>pending := (pending s)(userPK := False)\<rparr> in
      if err = None
      then case userStateFor userPK BGPStatusUnknown s1 of (us, s2) \<Rightarrow>
             s2\<lparr>userStates := (userStates s2)(userPK \<mapsto> us\<lparr>lastOnchainStatus := task_status task, lastWriteTime := now\<rparr>)\<rparr>
      else s1)"

subsection \<open>The two goroutines and the ledger\<close>

record bgp_World = bgp_Submitter +
  fetched :: "ProgramData option"
  current :: "submitTask option"
  ledger :: "byte list \<Rightarrow> uint8"

definition bgp_start :: "(byte list \<Rightarrow> uint8) \<Rightarrow> bgp_World" where
  "bgp_start l = \<lparr>userStates = \<lambda>_. None, pending = \<lambda>_. False, taskCh = [], fetched = None, current = None, ledger = l\<rparr>"

definition reflects :: "ProgramData \<Rightarrow> (byte list \<Rightarrow> uint8) \<Rightarrow> bool" where
  "reflects pd l \<longleftrightarrow> (\<forall>u \<in> set (pd_Users pd). user_BgpStatus u = l (user_PubKey u))"

inductive bgp_step :: "bgp_Config \<Rightarrow> bgp_World \<Rightarrow> bgp_World \<Rightarrow> bool" for c where
  fetch: "reflects pd (ledger w) \<Longrightarrow> fetched w = None \<Longrightarrow> bgp_step c w (w\<lparr>fetched := Some pd\<rparr>)"
| ticked: "bgp_step c w ((tick c (fetched w) nss collect now w)\<lparr>fetched := None\<rparr>)"
| take: "current w = None \<Longrightarrow> taskCh w = t # ts \<Longrightarrow> bgp_step c w (w\<lparr>current := Some t, taskCh := ts\<rparr>)"
| land: "current w = Some t \<Longrightarrow>
    bgp_step c w (w\<lparr>ledger := (ledger w)(user_PubKey (task_user t) := task_status t)\<rparr>)"
| finish: "current w = Some t \<Longrightarrow> submitWithRetry ok ctx_done = err \<Longrightarrow>
    (err = None \<Longrightarrow> ledger w (user_PubKey (task_user t)) = task_status t) \<Longrightarrow>
    bgp_step c w ((workerDone err now t w)\<lparr>current := None\<rparr>)"

subsection \<open>Finding the tunnel\<close>

lemma getPeerIPIn31_length: "getPeerIPIn31 ip = Some p \<Longrightarrow> length p = 4"
  by (auto simp: getPeerIPIn31_def Let_def split: if_splits)

text \<open>The two addresses of a /31 are each other's peers.\<close>

lemma getPeerIPIn31_involutive:
  assumes "getPeerIPIn31 ip = Some p"
  shows "getPeerIPIn31 p = Some ip" and "p \<noteq> ip"
proof -
  have l: "length ip = 4" and p: "p = be_bytes 4 ((be_word ip :: uint32) XOR 1)"
    using assms by (auto simp: getPeerIPIn31_def Let_def split: if_splits)
  have b: "(be_word p :: uint32) = be_word ip XOR 1" unfolding p by (rule be_word_be_bytes) simp
  have ip: "be_bytes 4 (be_word ip :: uint32) = ip" using be_bytes_be_word [of ip, where 'a = 32] l by simp
  show "getPeerIPIn31 p = Some ip"
    using getPeerIPIn31_length [OF assms] ip by (simp add: getPeerIPIn31_def b xor.assoc)
  show "p \<noteq> ip"
  proof
    assume "p = ip"
    then have "(be_word ip :: uint32) XOR 1 = be_word ip" using b by simp
    then have "(be_word ip XOR be_word ip) XOR (1 :: uint32) = be_word ip XOR be_word ip" by (simp only: xor.assoc)
    then show False by simp
  qed
qed



subsection \<open>What a tick does for one user\<close>

text \<open>The session of a user: none without a tunnel, otherwise what is known of the peer.\<close>

definition session_of :: "(string \<Rightarrow> BGPPeerState option) \<Rightarrow> LocalInterface list \<Rightarrow> User \<Rightarrow> BGPPeerState option" where
  "session_of peers interfaces user =
     (case FindLocalTunnel interfaces (tunnelNetToIPNet (user_TunnelNet user)) of Inl e \<Rightarrow> None
      | Inr t \<Rightarrow> Some (case peers (ip4_String (TargetIP t)) of None \<Rightarrow> \<lparr>Established = False, RttNs = 0\<rparr> | Some p \<Rightarrow> p))"






subsection \<open>The queue and its flags\<close>

definition task_key :: "submitTask \<Rightarrow> byte list" where
  "task_key t = user_PubKey (task_user t)"

definition task_ok :: "submitTask \<Rightarrow> bool" where
  "task_ok t \<longleftrightarrow> task_status t = BGPStatusUp \<or> task_status t = BGPStatusDown \<and> task_rttNs t = 0"

text \<open>
  Nothing but statuses a session can have is queued, and a round trip only with Up; a flag that
  blocks a user belongs to a submission still to be finished and to a user being tracked.
\<close>

definition queue_ok :: "submitTask set \<Rightarrow> 'a bgp_Submitter_scheme \<Rightarrow> bool" where
  "queue_ok inflight s \<longleftrightarrow> length (taskCh s) \<le> taskChannelCapacity \<and>
     (\<forall>t \<in> set (taskCh s) \<union> inflight. task_ok t) \<and>
     (\<forall>pk. pending s pk \<longrightarrow> pk \<in> task_key ` (set (taskCh s) \<union> inflight) \<and> userStates s pk \<noteq> None)"

lemma effective_cases: "computeEffectiveStatus up us now g = BGPStatusUp \<or> computeEffectiveStatus up us now g = BGPStatusDown"
  by (simp add: computeEffectiveStatus_def)

lemma submitStatus_ok:
  assumes "queue_ok fl s" and "userStates s (user_PubKey user) \<noteq> None"
  shows "queue_ok fl (submitStatus c now user us up peer s)"
  using assms effective_cases [of up us now "DownGracePeriod c"]
  by (auto simp: submitStatus_def Let_def queue_ok_def task_ok_def task_key_def)

lemma queue_ok_states:
  "queue_ok fl s \<Longrightarrow> (\<And>pk. userStates s pk \<noteq> None \<Longrightarrow> m pk \<noteq> None) \<Longrightarrow> queue_ok fl (s\<lparr>userStates := m\<rparr>)"
  unfolding queue_ok_def by simp

lemma tickUser_ok:
  assumes "queue_ok fl s"
  shows "queue_ok fl (tickUser c peers interfaces now user s)"
proof -
  let ?pk = "user_PubKey user"
  obtain us s1 where sf: "userStateFor ?pk (user_BgpStatus user) s = (us, s1)" by fastforce
  have 1: "queue_ok fl s1" and d: "userStates s1 ?pk \<noteq> None"
    using sf assms queue_ok_states [OF assms]
    by (auto simp: userStateFor_def Let_def split: option.splits if_splits)
  have "queue_ok fl (s1\<lparr>userStates := (userStates s1)(?pk \<mapsto> us')\<rparr>)" for us'
    by (rule queue_ok_states [OF 1]) auto
  then show ?thesis using 1 d
    by (auto simp: tickUser_def sf Let_def intro!: submitStatus_ok split: sum.split)
qed

lemma tickUsers_ok: "queue_ok fl s \<Longrightarrow> queue_ok fl (tickUsers c peers interfaces now us s)"
  by (induction us arbitrary: s) (simp_all add: tickUsers_def tickUser_ok)

lemma prune_ok: "queue_ok fl s \<Longrightarrow> queue_ok fl (prune ks s)"
  by (auto simp: queue_ok_def prune_def)

lemma tick_ok: "queue_ok fl s \<Longrightarrow> queue_ok fl (tick c pd nss collect now s)"
  by (auto simp: tick_def intro!: prune_ok tickUsers_ok split: option.split prod.split)

text \<open>Ticks touch neither the worker's submission nor the ledger.\<close>

lemma submitStatus_more: "bgp_Submitter.more (submitStatus c now user us up peer s) = bgp_Submitter.more s"
  by (simp add: submitStatus_def Let_def)

lemma tickUser_more: "bgp_Submitter.more (tickUser c peers interfaces now user s) = bgp_Submitter.more s"
  by (auto simp: tickUser_def userStateFor_def Let_def submitStatus_more split: option.split sum.split)

lemma tick_more: "bgp_Submitter.more (tick c pd nss collect now s) = bgp_Submitter.more s"
proof -
  have "bgp_Submitter.more (tickUsers c peers interfaces now us s) = bgp_Submitter.more s" for peers interfaces us
    by (induction us arbitrary: s) (simp_all add: tickUsers_def tickUser_more)
  then show ?thesis by (auto simp: tick_def prune_def split: option.split prod.split)
qed

lemma world_more:
  assumes "bgp_Submitter.more v = bgp_Submitter.more (w :: bgp_World)"
  shows "current v = current w" "ledger v = ledger w"
  using assms by (cases v; cases w; simp)+

lemma workerDone_ok:
  "queue_ok (insert t fl) s \<Longrightarrow> queue_ok fl (workerDone err now t s)"
  by (auto simp: queue_ok_def workerDone_def Let_def userStateFor_def task_key_def split: option.split)

definition bgp_inv :: "bgp_World \<Rightarrow> bool" where
  "bgp_inv w = queue_ok (set_option (current w)) w"

interpretation bgp: step_invariant "bgp_step c" bgp_inv
proof
  fix v w assume "bgp_step c v w" and inv: "bgp_inv v"
  then show "bgp_inv w"
  proof cases
    case (ticked nss collect now)
    let ?w = "tick c (fetched v) nss collect now v"
    have "queue_ok (set_option (current v)) ?w" using tick_ok inv by (simp add: bgp_inv_def)
    moreover have "current ?w = current v" by (rule world_more [OF tick_more])
    ultimately show ?thesis using ticked by (simp add: bgp_inv_def queue_ok_def)
  next
    case (finish t ok ctx_done err now)
    then have "queue_ok {} (workerDone err now t v)" using inv workerDone_ok [of t "{}"] by (simp add: bgp_inv_def)
    then show ?thesis using finish by (simp add: bgp_inv_def queue_ok_def)
  qed (use inv in \<open>auto simp: bgp_inv_def queue_ok_def\<close>)
qed

text \<open>The retries end with success exactly when one of the first three attempts before the end of the context succeeds.\<close>

lemma submitWithRetry_None_iff:
  "submitWithRetry ok done = None \<longleftrightarrow> (\<exists>k < 3. ok k \<and> (\<forall>j < k. \<not> done j))"
  by (auto simp: submitWithRetry_def submitMaxRetries_def numeral_3_eq_3 less_Suc_eq)

text \<open>
  C8. In every interleaving of ticks and worker the queue holds at most 256 submissions, only Up, or Down without
  a round trip, are ever submitted, and a user is blocked by the in-flight flag only as long as a
  submission for it is queued or being written: no flag is left behind, whatever fails.
\<close>

theorem no_user_stays_blocked:
  assumes "(bgp_step c)\<^sup>*\<^sup>* (bgp_start l) w"
  shows "length (taskCh w) \<le> 256 \<and>
    set (taskCh w) \<union> set_option (current w) \<subseteq>
      {t. task_status t = BGPStatusUp \<or> task_status t = BGPStatusDown \<and> task_rttNs t = 0} \<and>
    {pk. pending w pk} \<subseteq> (\<lambda>t. user_PubKey (task_user t)) ` (set (taskCh w) \<union> set_option (current w))"
proof -
  have "bgp_inv (bgp_start l)" by (simp add: bgp_inv_def queue_ok_def bgp_start_def)
  from bgp.run_inv [OF assms this] show ?thesis
    unfolding bgp_inv_def queue_ok_def task_ok_def taskChannelCapacity_def task_key_def by blast
qed

subsection \<open>The ledger follows the sessions\<close>


















lemma tick_collected:
  assumes "nss \<noteq> []" and "collectLoop collect nss (\<lambda>_. None) [] 0 = (peers, interfaces, Suc n)"
  shows "tick c (Some pd) (Some nss) collect now s =
    prune (user_PubKey ` set (deviceUsers c pd)) (tickUsers c peers interfaces now (deviceUsers c pd) s)"
  using assms by (simp add: tick_def)



subsection \<open>A lost confirmation\<close>

lemma tick_single:
  assumes "deviceUsers c pd = [u]" and "nss \<noteq> []"
    and "collectLoop collect nss (\<lambda>_. None) [] 0 = (peers, interfaces, Suc n)"
  shows "tick c (Some pd) (Some nss) collect now s = prune {user_PubKey u} (tickUser c peers interfaces now u s)"
  using assms by (simp add: tick_collected tickUsers_def)

lemma tickUser_quiet:
  assumes "userStates s (user_PubKey u) = Some us" and "session_of peers interfaces u = Some p" and "Established p"
    and "lastOnchainStatus us = BGPStatusUp" and "lastWriteTime us \<noteq> zero_time"
    and "time_sub now (lastWriteTime us) < PeriodicRefreshInterval c"
  shows "tickUser c peers interfaces now u s =
    s\<lparr>userStates := (userStates s)(user_PubKey u \<mapsto> us\<lparr>lastUpObservedAt := now\<rparr>)\<rparr>"
proof -
  obtain t where t: "FindLocalTunnel interfaces (tunnelNetToIPNet (user_TunnelNet u)) = Inr t"
    "(case peers (ip4_String (TargetIP t)) of None \<Rightarrow> \<lparr>Established = False, RttNs = 0\<rparr> | Some p \<Rightarrow> p) = p"
    using assms(2) by (auto simp: session_of_def split: sum.splits)
  show ?thesis using assms
    by (simp add: tickUser_def userStateFor_def t submitStatus_def computeEffectiveStatus_def shouldSubmit_def
        IsZero_def Let_def)
qed

text \<open>
  A confirmation can be lost for hours. A Down that lands on the ledger although the executor reports an error
  leaves the submitter with the belief Up; once the session is established again, ticks within the
  refresh interval submit nothing and the ledger goes on saying Down.
\<close>

theorem lost_confirmation_is_not_repaired:
  assumes "current w = Some t" and "user_PubKey (task_user t) = user_PubKey u" and "task_status t = BGPStatusDown"
    and "userStates w (user_PubKey u) = Some us" and "lastOnchainStatus us = BGPStatusUp"
    and "lastWriteTime us \<noteq> zero_time" and "time_sub now (lastWriteTime us) < PeriodicRefreshInterval c"
    and "deviceUsers c pd = [u]" and "nss \<noteq> []"
    and "collectLoop collect nss (\<lambda>_. None) [] 0 = (peers, interfaces, Suc n)"
    and "session_of peers interfaces u = Some p" and "Established p"
  shows "\<exists>w1. (bgp_step c)\<^sup>*\<^sup>* w w1 \<and> current w1 = None \<and>
    taskCh (tick c (Some pd) (Some nss) collect now w1) = taskCh w \<and>
    ledger (tick c (Some pd) (Some nss) collect now w1) (user_PubKey u) = BGPStatusDown"
proof -
  let ?v = "w\<lparr>ledger := (ledger w)(user_PubKey u := BGPStatusDown)\<rparr>"
  let ?w1 = "(workerDone (Some ExecErr) zero_time t ?v)\<lparr>current := None\<rparr>"
  have "bgp_step c w ?v" using land [of w t c] assms(1-3) by simp
  moreover have "submitWithRetry (\<lambda>_. False) (\<lambda>_. False) = Some ExecErr"
    by (simp add: submitWithRetry_def submitMaxRetries_def numeral_3_eq_3)
  then have "bgp_step c ?v ?w1" using assms(1) by (intro finish) auto
  ultimately have "(bgp_step c)\<^sup>*\<^sup>* w ?w1" by auto
  moreover have "userStates ?w1 (user_PubKey u) = Some us" "taskCh ?w1 = taskCh w"
    "ledger ?w1 (user_PubKey u) = BGPStatusDown"
    using assms(4) by (simp_all add: workerDone_def Let_def)
  moreover from tickUser_quiet [OF this(1) assms(11,12,5,6,7)]
  have "tick c (Some pd) (Some nss) collect now ?w1 = prune {user_PubKey u}
      (?w1\<lparr>userStates := (userStates ?w1)(user_PubKey u \<mapsto> us\<lparr>lastUpObservedAt := now\<rparr>)\<rparr>)"
    by (simp only: tick_single [OF assms(8-10)])
  ultimately show ?thesis by (intro exI [of _ ?w1]) (simp add: prune_def)
qed

subsection \<open>Concrete instances\<close>

definition example_device :: "byte list" where
  "example_device = replicate 32 5"

definition example_user :: "uint8 \<Rightarrow> User" where
  "example_user st = zeroUser\<lparr>user_PubKey := [7], user_DevicePubKey := example_device, user_Status := UserStatusActivated,
     user_TunnelNet := [10, 0, 0, 0, 31], user_BgpStatus := st\<rparr>"

definition example_bgp_config :: bgp_Config where
  "example_bgp_config = \<lparr>HasLog = True, HasExecutor = True, HasServiceabilityClient = True, HasCollector = True,
     LocalDevicePK = example_device, NetnsDir = defaultNetnsDir, Interval = defaultInterval,
     PeriodicRefreshInterval = defaultRefreshInterval, DownGracePeriod = 0\<rparr>"

definition example_interfaces :: "LocalInterface list" where
  "example_interfaces = [\<lparr>if_Name = ''tu1'', if_Addrs = [OtherAddr, IPNetAddr \<lparr>NetIP = [10, 0, 0, 0], Mask = [255, 255, 255, 254]\<rparr>]\<rparr>]"

definition example_peers :: "string \<Rightarrow> BGPPeerState option" where
  "example_peers = buildPeerStateMap [\<lparr>RemoteIP = ''10.0.0.1'', SockState = ''ESTABLISHED'', SockRttNs = 4000000\<rparr>]"

definition example_collect :: collector where
  "example_collect ns = (if ns = ''ns-vrf1'' then Some (example_peers, example_interfaces) else None)"

definition example_data :: "uint8 \<Rightarrow> ProgramData" where
  "example_data st = emptyProgramData\<lparr>pd_Users := [example_user st]\<rparr>"

lemma example_collected:
  "collectLoop example_collect [''ns-vrf1'', ''ns-vrf2''] (\<lambda>_. None) [] 0 = (example_peers, example_interfaces, Suc 0)"
  by (simp add: example_collect_def)

lemma example_deviceUsers: "deviceUsers example_bgp_config (example_data st) = [example_user st]"
  by (simp add: deviceUsers_def example_bgp_config_def example_data_def example_user_def)

lemma example_simps [simp]: "user_PubKey (example_user st) = [7]" "ledger (bgp_start l) = l"
  by (simp_all add: example_user_def bgp_start_def)

lemma example_tunnel:
  "FindLocalTunnel example_interfaces (tunnelNetToIPNet [10, 0, 0, 0, 31])
   = Inr \<lparr>lt_Interface = ''tu1'', SourceIP = [10, 0, 0, 0], TargetIP = [10, 0, 0, 1]\<rparr>"
  by code_simp

lemma example_peer: "example_peers (ip4_String [10, 0, 0, 1]) = Some \<lparr>Established = True, RttNs = 4000000\<rparr>"
  by code_simp

lemma example_session:
  "session_of example_peers example_interfaces (example_user st) = Some \<lparr>Established = True, RttNs = 4000000\<rparr>"
  by (simp add: session_of_def example_user_def example_tunnel example_peer)

theorem no_user_stays_blocked_witness:
  "length (taskCh (tick example_bgp_config (Some (example_data 0)) (Some [''ns-vrf1'', ''ns-vrf2'']) example_collect 9
     ((bgp_start (\<lambda>pk. 0))\<lparr>fetched := Some (example_data 0)\<rparr>))) \<le> 256"
proof -
  let ?w = "(bgp_start (\<lambda>pk. 0))\<lparr>fetched := Some (example_data 0)\<rparr>"
  have "bgp_step example_bgp_config (bgp_start (\<lambda>pk. 0)) ?w"
    by (rule fetch) (simp_all add: reflects_def example_data_def example_user_def bgp_start_def)
  then have "(bgp_step example_bgp_config)\<^sup>*\<^sup>* (bgp_start (\<lambda>pk. 0))
    ((tick example_bgp_config (fetched ?w) (Some [''ns-vrf1'', ''ns-vrf2'']) example_collect 9 ?w)\<lparr>fetched := None\<rparr>)"
    using ticked [of example_bgp_config ?w] by (meson converse_rtranclp_into_rtranclp r_into_rtranclp)
  from no_user_stays_blocked [OF this] show ?thesis by simp
qed


theorem lost_confirmation_is_not_repaired_witness:
  "\<exists>w1 :: bgp_World. current w1 = None \<and>
    taskCh (tick example_bgp_config (Some (example_data 2)) (Some [''ns-vrf1'', ''ns-vrf2'']) example_collect 9 w1) = [] \<and>
    ledger (tick example_bgp_config (Some (example_data 2)) (Some [''ns-vrf1'', ''ns-vrf2'']) example_collect 9 w1) [7]
      = BGPStatusDown"
proof -
  let ?us = "\<lparr>lastOnchainStatus = BGPStatusUp, lastWriteTime = 5, lastUpObservedAt = 5\<rparr>"
  let ?w = "(bgp_start (\<lambda>pk. 1))\<lparr>userStates := [[7] \<mapsto> ?us], pending := (\<lambda>pk. pk = [7]),
    current := Some \<lparr>task_user = example_user 1, task_status = BGPStatusDown, task_rttNs = 0\<rparr>\<rparr>"
  have "time_sub 9 (lastWriteTime ?us) < PeriodicRefreshInterval example_bgp_config"
    by (simp add: time_sub_def example_bgp_config_def defaultRefreshInterval_def second_def)
  moreover have "current ?w = Some \<lparr>task_user = example_user 1, task_status = BGPStatusDown, task_rttNs = 0\<rparr>"
    "userStates ?w (user_PubKey (example_user 2)) = Some ?us" "taskCh ?w = []"
    by (simp_all add: bgp_start_def)
  ultimately show ?thesis
    using lost_confirmation_is_not_repaired [of ?w _ "example_user 2" ?us 9 example_bgp_config "example_data 2",
      OF _ _ _ _ _ _ _ example_deviceUsers _ example_collected example_session]
    by (auto simp: zero_time_def)
qed

end
