(* ===== verification/Go_Net.thy ===== *)
theory Go_Net
  imports Liveness_Version
begin

text \<open>
  Operations of Go's package net on addresses and networks beyond those of the prelude: equality, masking, the
  text of an address and of a network, and parsing a network from text. The text of addresses other
  than IPv4 and its parser are arguments. The text of an IPv4 address determines it, and a network
  printed and parsed is the same network.
\<close>

subsection \<open>Addresses\<close>

definition v4InV6Prefix :: "byte list" where
  "v4InV6Prefix = replicate 10 0 @ [0xFF, 0xFF]"

definition IPv4 :: "byte \<Rightarrow> byte \<Rightarrow> byte \<Rightarrow> byte \<Rightarrow> IP" where
  "IPv4 a b c d = v4InV6Prefix @ [a, b, c, d]"

definition IP_Equal :: "IP \<Rightarrow> IP \<Rightarrow> bool" where
  "IP_Equal ip x =
     (if length ip = length x then ip = x
      else if length ip = 4 \<and> length x = 16 then take 12 x = v4InV6Prefix \<and> ip = drop 12 x
      else if length ip = 16 \<and> length x = 4 then take 12 ip = v4InV6Prefix \<and> drop 12 ip = x
      else False)"

definition IsUnspecified :: "IP \<Rightarrow> bool" where
  "IsUnspecified ip = (IP_Equal ip (IPv4 0 0 0 0) \<or> IP_Equal ip (replicate 16 0))"

definition ip_Mask :: "IP \<Rightarrow> byte list \<Rightarrow> IP" where
  "ip_Mask ip0 mask0 =
     (let mask = (if length mask0 = 16 \<and> length ip0 = 4 \<and> list_all (\<lambda>b. b = 0xFF) (take 12 mask0) then drop 12 mask0 else mask0);
          ip = (if length mask = 4 \<and> length ip0 = 16 \<and> take 12 ip0 = v4InV6Prefix then drop 12 ip0 else ip0)
      in if length ip \<noteq> length mask then [] else map2 (AND) ip mask)"

text \<open>\<open>net.IP.String\<close>; the text of addresses other than IPv4 is an argument.\<close>

definition ip_String :: "(IP \<Rightarrow> string) \<Rightarrow> IP \<Rightarrow> string" where
  "ip_String v6 ip = (if ip = [] then ''<nil>'' else if To4 ip \<noteq> [] then ip4_String (To4 ip) else v6 ip)"

subsection \<open>Networks\<close>

definition hexDigit :: "nat \<Rightarrow> char" where
  "hexDigit d = (if d < 10 then char_of (48 + d) else char_of (87 + d))"

definition mask_String :: "byte list \<Rightarrow> string" where
  "mask_String m = (if m = [] then ''<nil>'' else concat (map (\<lambda>b. [hexDigit (unat b div 16), hexDigit (unat b mod 16)]) m))"

definition IPNet_String :: "(IP \<Rightarrow> string) \<Rightarrow> IPNet option \<Rightarrow> string" where
  "IPNet_String v6 no =
     (case no of None \<Rightarrow> ''<nil>''
      | Some n \<Rightarrow> (case networkNumberAndMask n of (nn, m) \<Rightarrow>
          if nn = [] \<or> m = [] then ''<nil>''
          else (case simpleMaskLength m of
              None \<Rightarrow> ip_String v6 nn @ ''/'' @ mask_String m
            | Some l \<Rightarrow> ip_String v6 nn @ ''/'' @ itoa l)))"

text \<open>\<open>netip.ParseAddr\<close> without zones; its parser of IPv6 text is an argument.\<close>

definition octet :: "string \<Rightarrow> bool" where
  "octet f = (f \<noteq> [] \<and> list_all is_digit f \<and> digits_value f \<le> 255 \<and> (length f = 1 \<or> hd f \<noteq> CHR ''0''))"

definition parseIPv4 :: "string \<Rightarrow> IP option" where
  "parseIPv4 s =
     (let fields = Split s (CHR ''.'') in
      if length fields = 4 \<and> list_all octet fields then Some (map (\<lambda>f. of_nat (digits_value f)) fields) else None)"

definition ParseAddr :: "(string \<Rightarrow> IP option) \<Rightarrow> string \<Rightarrow> IP option" where
  "ParseAddr p6 s =
     (case dropWhile (\<lambda>c. c \<notin> {CHR ''.'', CHR '':'', CHR ''%''}) s of
        [] \<Rightarrow> None
      | c # _ \<Rightarrow> if c = CHR ''.'' then parseIPv4 s else if c = CHR '':'' then p6 s else None)"

definition CIDRMask :: "nat \<Rightarrow> nat \<Rightarrow> byte list" where
  "CIDRMask ones bits =
     (if bits \<noteq> 32 \<and> bits \<noteq> 128 \<or> ones > bits then []
      else map (\<lambda>i. if ones \<ge> 8 * i + 8 then 0xFF else NOT (drop_bit (ones - 8 * i) 0xFF)) [0..<bits div 8])"

definition ParseCIDR :: "(string \<Rightarrow> IP option) \<Rightarrow> string \<Rightarrow> (IP \<times> IPNet) option" where
  "ParseCIDR p6 s =
     (if CHR ''/'' \<notin> set s then None
      else case ParseAddr p6 (takeWhile (\<lambda>c. c \<noteq> CHR ''/'') s) of
          None \<Rightarrow> None
        | Some ip \<Rightarrow>
            (case parse_digits (tl (dropWhile (\<lambda>c. c \<noteq> CHR ''/'') s)) of
               None \<Rightarrow> None
             | Some n \<Rightarrow>
                 (let bits = 8 * length ip; m = CIDRMask n bits;
                      ip16 = (if length ip = 4 then v4InV6Prefix @ ip else ip)
                  in if n > bits then None else Some (ip16, \<lparr>NetIP = ip_Mask ip16 m, Mask = m\<rparr>))))"

subsection \<open>Text determines addresses\<close>

lemma Split_ip4_String:
  "Split (ip4_String [a, b, c, d]) (CHR ''.'') = [itoa (unat a), itoa (unat b), itoa (unat c), itoa (unat d)]"
  by (simp add: ip4_String_def Split_Cons Split_free set_itoa_free)

lemma itoa_inject: "itoa m = itoa n \<longleftrightarrow> m = n"
  by (metis digits_value_itoa)

lemma ip4_String_inject:
  assumes "length x = 4" and "length y = 4"
  shows "ip4_String x = ip4_String y \<longleftrightarrow> x = y"
proof
  assume eq: "ip4_String x = ip4_String y"
  obtain a b c d a' b' c' d' where "x = [a, b, c, d]" "y = [a', b', c', d']"
    using assms by (auto simp: length_Suc_conv numeral_eq_Suc)
  then show "x = y" using Split_ip4_String [of a b c d] Split_ip4_String [of a' b' c' d'] eq
    by (auto simp: itoa_inject word_eq_iff_unsigned [of a a', where ?'a = nat] word_eq_iff_unsigned [of b b', where ?'a = nat]
        word_eq_iff_unsigned [of c c', where ?'a = nat] word_eq_iff_unsigned [of d d', where ?'a = nat])
qed simp

lemma ip_String_To4:
  assumes "To4 x \<noteq> []" and "To4 y \<noteq> []"
  shows "ip_String v6 x = ip_String v6 y \<longleftrightarrow> To4 x = To4 y"
proof -
  have "To4 [] = []" by (simp add: To4_def)
  then have "ip_String v6 z = ip4_String (To4 z)" if "To4 z \<noteq> []" for z using that by (auto simp: ip_String_def)
  then show ?thesis using assms ip4_String_inject [OF length_To4 length_To4, of x y] by simp
qed

lemma ip_String_four: "length ip = 4 \<Longrightarrow> ip_String v6 ip = ip4_String ip"
  by (auto simp: ip_String_def To4_def)

lemma ip_String_inject: "length x = 4 \<Longrightarrow> length y = 4 \<Longrightarrow> ip_String v6 x = ip_String v6 y \<longleftrightarrow> x = y"
  by (simp add: ip_String_four ip4_String_inject)

lemma IP_Equal_four: "length x = 4 \<Longrightarrow> length y = 4 \<Longrightarrow> IP_Equal x y \<longleftrightarrow> x = y"
  by (simp add: IP_Equal_def)

lemma IP_Equal_refl [simp]: "IP_Equal x x"
  by (simp add: IP_Equal_def)

subsection \<open>Printing and parsing networks\<close>

lemma CIDRMask_32: "CIDRMask n 32 = CIDRMask32 n"
  by (simp add: CIDRMask_def CIDRMask32_def)

lemma simpleMaskLength_CIDRMask32: "n \<le> 32 \<Longrightarrow> simpleMaskLength (CIDRMask32 n) = Some n"
proof -
  have "list_all (\<lambda>n. simpleMaskLength (CIDRMask32 n) = Some n) [0..<33]" by code_simp
  then show "n \<le> 32 \<Longrightarrow> ?thesis" by (auto simp: list_all_iff)
qed

lemma length_CIDRMask32: "n \<le> 32 \<Longrightarrow> length (CIDRMask32 n) = 4"
  by (simp add: CIDRMask32_def)

lemma hd_itoa: "0 < n \<Longrightarrow> hd (itoa n) \<noteq> CHR ''0''"
proof (induction n rule: itoa.induct)
  case (1 n)
  have "code (CHR ''0'') = 48" by (simp add: code_def)
  then have "digit n \<noteq> CHR ''0''" if "n < 10" using "1.prems" code_digit [OF that] by auto
  then show ?case using 1 by (subst itoa.simps) auto
qed

lemma octet_itoa: "n \<le> 255 \<Longrightarrow> octet (itoa n)"
proof -
  have "length (itoa n) = 1 \<or> hd (itoa n) \<noteq> CHR ''0''"
    by (cases "n = 0") (simp_all add: hd_itoa, subst itoa.simps, simp)
  then show "n \<le> 255 \<Longrightarrow> ?thesis" by (simp add: octet_def itoa_digits)
qed

lemma parseIPv4_String: "length ip = 4 \<Longrightarrow> parseIPv4 (ip4_String ip) = Some ip"
proof -
  assume "length ip = 4"
  then obtain a b c d where ip: "ip = [a, b, c, d]" by (auto simp: length_Suc_conv numeral_eq_Suc)
  have "unat (x :: byte) \<le> 255" for x using unat_byte_less [of x] by linarith
  then show ?thesis by (simp add: ip parseIPv4_def Split_ip4_String octet_itoa)
qed

lemma ip4_String_chars: "length ip = 4 \<Longrightarrow> set (ip4_String ip) \<subseteq> insert (CHR ''.'') (Collect is_digit)"
  by (auto simp: ip4_String_def dest: digit_chars)

lemma ParseAddr_String:
  assumes "length ip = 4"
  shows "ParseAddr p6 (ip4_String ip) = Some ip"
proof -
  obtain a b c d where ip: "ip = [a, b, c, d]" using assms by (auto simp: length_Suc_conv numeral_eq_Suc)
  have "\<forall>x \<in> set (itoa (unat a)). x \<notin> {CHR ''.'', CHR '':'', CHR ''%''}"
    by (auto dest!: digit_chars simp: is_digit_def code_def)
  then have "dropWhile (\<lambda>c. c \<notin> {CHR ''.'', CHR '':'', CHR ''%''}) (ip4_String ip)
    = CHR ''.'' # itoa (unat b) @ ''.'' @ itoa (unat c) @ ''.'' @ itoa (unat d)"
    by (simp add: ip ip4_String_def dropWhile_append2)
  then show ?thesis unfolding ParseAddr_def using parseIPv4_String [OF assms] by simp
qed

lemma ip_Mask_v4: "length ip = 4 \<Longrightarrow> length m = 4 \<Longrightarrow> ip_Mask (v4InV6Prefix @ ip) m = map2 (AND) ip m"
  by (simp add: ip_Mask_def v4InV6Prefix_def)

lemma ParseCIDR_String:
  assumes "length ip = 4" and "n \<le> 32"
  shows "ParseCIDR p6 (ip4_String ip @ ''/'' @ itoa n)
    = Some (v4InV6Prefix @ ip, \<lparr>NetIP = map2 (AND) ip (CIDRMask32 n), Mask = CIDRMask32 n\<rparr>)"
proof -
  have f: "\<forall>x \<in> set (ip4_String ip). x \<noteq> CHR ''/''"
    using ip4_String_chars [OF assms(1)] by (auto simp: is_digit_def code_def)
  have "takeWhile (\<lambda>c. c \<noteq> CHR ''/'') (ip4_String ip @ ''/'' @ itoa n) = ip4_String ip"
    "dropWhile (\<lambda>c. c \<noteq> CHR ''/'') (ip4_String ip @ ''/'' @ itoa n) = CHR ''/'' # itoa n"
    using f by (simp_all add: takeWhile_append2 dropWhile_append2)
  then show ?thesis
    using assms ParseAddr_String [OF assms(1), of p6]
    by (simp add: ParseCIDR_def CIDRMask_32 ip_Mask_v4 length_CIDRMask32 Let_def)
qed

lemma IPNet_String_CIDR:
  assumes "length ip = 4" and "n \<le> 32"
  shows "IPNet_String v6 (Some \<lparr>NetIP = ip, Mask = CIDRMask32 n\<rparr>) = ip4_String ip @ ''/'' @ itoa n"
proof -
  have "ip \<noteq> []" "CIDRMask32 n \<noteq> []" using assms length_CIDRMask32 [OF assms(2)] by auto
  then show ?thesis using assms
    by (simp add: IPNet_String_def networkNumberAndMask_def To4_def length_CIDRMask32 simpleMaskLength_CIDRMask32 ip_String_four)
qed

end
