(* ===== verification/PIM_Message.thy ===== *)
theory PIM_Message
  imports Go_Prelude
begin

text \<open>
  The wire format of the PIM messages the client exchanges with its device,
  client/doublezerod/internal/pim/pim.go: the common header, hello, join/prune and register messages, and
  the Internet checksum. A Go slice is the bytes it shows and the bytes behind them up to its capacity,
  because an upper bound of a slice expression is checked against the capacity only; an index or a bound out of
  range is the error \<open>Panic\<close>. The packet library is not part of the source: the serialize buffer is a record of
  its operations, and the decoder of the common header says which decoder comes next.
\<close>

subsection \<open>Slices and errors\<close>

datatype pim_error =
    Panic
  | OptionTooShort
  | AddrTooShort
  | IPv4TooShort
  | IPv6TooShort
  | UnsupportedFamily

datatype buf = Slice (seen: "byte list") (beyond: "byte list")

definition andThen :: "'e + 'a \<Rightarrow> ('a \<Rightarrow> 'e + 'b) \<Rightarrow> 'e + 'b" where
  "andThen r f = (case r of Inl e \<Rightarrow> Inl e | Inr x \<Rightarrow> f x)"

text \<open>\<open>s[i]\<close>, \<open>s[lo:hi]\<close> and \<open>s[lo:]\<close>.\<close>

definition slice_at :: "buf \<Rightarrow> nat \<Rightarrow> pim_error + byte" where
  "slice_at s i = (if i < length (seen s) then Inr (seen s ! i) else Inl Panic)"

definition slice_sub :: "buf \<Rightarrow> nat \<Rightarrow> nat \<Rightarrow> pim_error + buf" where
  "slice_sub s lo hi = (let all = seen s @ beyond s in
     if lo \<le> hi \<and> hi \<le> length all then Inr (Slice (take (hi - lo) (drop lo all)) (drop hi all)) else Inl Panic)"

definition slice_from :: "buf \<Rightarrow> nat \<Rightarrow> pim_error + buf" where
  "slice_from s lo = (if lo \<le> length (seen s) then Inr (Slice (drop lo (seen s)) (beyond s)) else Inl Panic)"

text \<open>\<open>binary.BigEndian.Uint16\<close> and \<open>Uint32\<close>: they panic on a shorter slice.\<close>

definition Uint16 :: "buf \<Rightarrow> pim_error + uint16" where
  "Uint16 s = (if length (seen s) < 2 then Inl Panic else Inr (be_word (take 2 (seen s))))"

definition Uint32 :: "buf \<Rightarrow> pim_error + uint32" where
  "Uint32 s = (if length (seen s) < 4 then Inl Panic else Inr (be_word (take 4 (seen s))))"

text \<open>\<open>net.IP.To16\<close>.\<close>

definition To16 :: "IP \<Rightarrow> IP" where
  "To16 ip = (if length ip = 4 then replicate 10 0 @ [0xFF, 0xFF] @ ip else if length ip = 16 then ip else [])"

subsection \<open>Checksum\<close>

fun csumLoop :: "uint32 \<Rightarrow> byte list \<Rightarrow> pim_error + uint32" where
  "csumLoop csum [] = Inr csum"
| "csumLoop csum [x] = Inl Panic"
| "csumLoop csum (x # y # bytes) = csumLoop (csum + push_bit 8 (ucast x) + ucast y) bytes"

lemma carry_step:
  fixes c :: uint32
  shows "unat (drop_bit 16 c + ucast (ucast c :: uint16)) = unat c div 65536 + unat c mod 65536"
proof -
  have 1: "unat (drop_bit 16 c) = unat c div 65536" by (simp only: unat_drop_bit_eq) (simp add: drop_bit_eq_div)
  have 2: "unat (ucast (ucast c :: uint16) :: uint32) = unat c mod 65536"
    by (simp add: unsigned_ucast_eq take_bit_eq_mod unat_mod_distrib)
  have "unat c < 4294967296" using unsigned_less [of c, where ?'a = nat] by simp
  then have "unat c div 65536 + unat c mod 65536 < 4294967296"
    using less_mult_imp_div_less [of "unat c" 65536 65536] mod_less_divisor [of 65536 "unat c"] by linarith
  then show ?thesis by (simp add: unat_word_ariths 1 2)
qed

function carryLoop :: "uint32 \<Rightarrow> uint32" where
  "carryLoop csum = (if csum \<le> 65535 then csum else carryLoop (drop_bit 16 csum + ucast (ucast csum :: uint16)))"
  by pat_completeness auto

termination
proof (relation "measure unat")
  fix c :: uint32
  assume "\<not> c \<le> 65535"
  then have "65536 \<le> unat c" by (simp add: word_le_nat_alt)
  then have "unat c div 65536 + unat c mod 65536 < unat c"
    using div_mult_mod_eq [of "unat c" 65536] by linarith
  then show "(drop_bit 16 c + ucast (ucast c :: uint16), c) \<in> measure unat" by (simp only: in_measure carry_step)
qed simp

declare carryLoop.simps [simp del]

definition Checksum :: "byte list \<Rightarrow> pim_error + uint16" where
  "Checksum bytes = andThen (csumLoop 0 bytes) (\<lambda>csum. Inr (NOT (ucast (carryLoop csum))))"

subsection \<open>Messages\<close>

definition Hello :: uint8 where "Hello = 0"
definition Register :: uint8 where "Register = 1"
definition JoinPrune :: uint8 where "JoinPrune = 3"

record PIMHeader =
  hdr_Version :: uint8
  hdr_Type :: uint8
  hdr_Reserved :: uint8
  hdr_Checksum :: uint16

record PIMMessage =
  Header :: PIMHeader
  Contents :: "byte list"
  Payload :: buf

record HelloMessage =
  hello_Contents :: "byte list"
  Holdtime :: uint16
  PropDelay :: uint16
  OverrideeInterval :: uint16
  DRPriority :: uint32
  GenerationID :: uint32
  SecondaryAddress :: "IP list"
  StateRefreshInterval :: uint8

definition OptionTypeHoldtime :: uint16 where "OptionTypeHoldtime = 1"
definition OptionTypeLANPruneDelay :: uint16 where "OptionTypeLANPruneDelay = 2"
definition OptionTypeDRPriority :: uint16 where "OptionTypeDRPriority = 19"
definition OptionTypeGenerationID :: uint16 where "OptionTypeGenerationID = 20"
definition OptionTypeStateRefresh :: uint16 where "OptionTypeStateRefresh = 21"
definition OptionTypeAddressList :: uint16 where "OptionTypeAddressList = 24"

lemmas option_types = OptionTypeHoldtime_def OptionTypeLANPruneDelay_def OptionTypeDRPriority_def
  OptionTypeGenerationID_def OptionTypeStateRefresh_def OptionTypeAddressList_def

text \<open>The options: the constructor and \<open>Bytes\<close> of each.\<close>

definition Holdtime_Bytes :: "uint16 \<Rightarrow> byte list" where
  "Holdtime_Bytes h = be_bytes 2 OptionTypeHoldtime @ be_bytes 2 (2 :: uint16) @ be_bytes 2 h"

definition LANPruneDelay_Bytes :: "bool \<Rightarrow> uint16 \<Rightarrow> uint16 \<Rightarrow> byte list" where
  "LANPruneDelay_Bytes joinSuppressionDisabled propDelay overrideInterval =
     (let bytes = be_bytes 2 OptionTypeLANPruneDelay @ be_bytes 2 (4 :: uint16) @ [0, 0, 0, 0];
          bytes = (if joinSuppressionDisabled then bytes[0 := bytes ! 0 OR 0x80] else bytes)
      in take 4 bytes @ be_bytes 2 propDelay @ be_bytes 2 overrideInterval)"

definition DRPriority_Bytes :: "uint32 \<Rightarrow> byte list" where
  "DRPriority_Bytes p = be_bytes 2 OptionTypeDRPriority @ be_bytes 2 (4 :: uint16) @ be_bytes 4 p"

definition GenerationID_Bytes :: "uint32 \<Rightarrow> byte list" where
  "GenerationID_Bytes g = be_bytes 2 OptionTypeGenerationID @ be_bytes 2 (4 :: uint16) @ be_bytes 4 g"

definition StateRefreshInterval_Bytes :: "uint8 \<Rightarrow> byte list" where
  "StateRefreshInterval_Bytes i =
     be_bytes 2 OptionTypeStateRefresh @ be_bytes 2 (4 :: uint16) @ [1, i] @ be_bytes 2 (0 :: uint16)"

definition serializeEncodedUnicastAddr :: "IP \<Rightarrow> byte list" where
  "serializeEncodedUnicastAddr addr =
     (if length addr = 4 then [1, 0] @ addr else if length addr = 16 then [2, 0] @ addr else [])"

definition AddressList_Bytes :: "IP list \<Rightarrow> byte list" where
  "AddressList_Bytes addresses =
     be_bytes 2 OptionTypeAddressList @ be_bytes 2 (of_nat (length addresses * 4) :: uint16)
     @ concat (map serializeEncodedUnicastAddr addresses)"

record pim_SourceAddress =
  sa_AddressFamily :: uint8
  sa_EncodingType :: uint8
  sa_Flags :: uint8
  sa_MaskLength :: uint8
  sa_Address :: IP

record Group =
  GroupID :: uint8
  g_AddressFamily :: uint8
  g_EncodingType :: uint8
  g_Flags :: uint8
  g_MaskLength :: uint8
  MulticastGroupAddress :: IP
  NumJoinedSources :: uint16
  NumPrunedSources :: uint16
  Joins :: "pim_SourceAddress list"
  Prunes :: "pim_SourceAddress list"

record JoinPruneMessage =
  jp_Contents :: "byte list"
  UpstreamNeighborAddress :: IP
  jp_Reserved :: uint8
  NumGroups :: uint8
  jp_Holdtime :: uint16
  Groups :: "Group list"

definition bytesFromNetIP :: "IP \<Rightarrow> uint8 \<Rightarrow> byte list \<times> nat" where
  "bytesFromNetIP ip addrFamily =
     (if addrFamily = 1 then (To4 ip, 4) else if addrFamily = 2 then (To16 ip, 16) else ([], 0))"

text \<open>\<open>make([]byte, 4+n)\<close>, the four bytes set, and the address copied behind them.\<close>

definition filled :: "nat \<Rightarrow> byte list \<Rightarrow> byte list" where
  "filled n address = take n address @ replicate (n - length address) 0"

definition SourceAddress_Bytes :: "pim_SourceAddress \<Rightarrow> byte list" where
  "SourceAddress_Bytes s =
     (case bytesFromNetIP (sa_Address s) (sa_AddressFamily s) of (address, addrLen) \<Rightarrow>
      [sa_AddressFamily s, sa_EncodingType s, sa_Flags s, sa_MaskLength s] @ filled addrLen address)"

definition Group_Bytes :: "Group \<Rightarrow> byte list" where
  "Group_Bytes g =
     (case bytesFromNetIP (MulticastGroupAddress g) (g_AddressFamily g) of (groupAddr, groupAddrLen) \<Rightarrow>
      [g_AddressFamily g, g_EncodingType g, g_Flags g, g_MaskLength g] @ filled groupAddrLen groupAddr
      @ be_bytes 2 (NumJoinedSources g) @ be_bytes 2 (NumPrunedSources g)
      @ concat (map SourceAddress_Bytes (Joins g)) @ concat (map SourceAddress_Bytes (Prunes g)))"

subsection \<open>Serializing\<close>

text \<open>
  The operations of a serialize buffer: a new one, its bytes, and reserving bytes in front or
  behind and filling them, which may fail.
\<close>

record 'b SerializeBuffer =
  NewBuffer :: 'b
  Bytes :: "'b \<Rightarrow> byte list"
  PrependBytes :: "byte list \<Rightarrow> 'b \<Rightarrow> 'b option"
  AppendBytes :: "byte list \<Rightarrow> 'b \<Rightarrow> 'b option"

definition PIMMessage_SerializeTo :: "'b SerializeBuffer \<Rightarrow> PIMHeader \<Rightarrow> 'b \<Rightarrow> 'b option" where
  "PIMMessage_SerializeTo ops h b =
     (let encoded = push_bit 28 (ucast (hdr_Version h)) :: uint32;
          encoded = encoded OR push_bit 24 (ucast (hdr_Type h));
          encoded = encoded OR push_bit 16 (ucast (hdr_Reserved h));
          encoded = encoded OR ucast (hdr_Checksum h)
      in PrependBytes ops (be_bytes 4 encoded) b)"

definition HelloMessage_SerializeTo :: "'b SerializeBuffer \<Rightarrow> HelloMessage \<Rightarrow> 'b \<Rightarrow> 'b option" where
  "HelloMessage_SerializeTo ops p b =
     Option.bind (PrependBytes ops (Holdtime_Bytes (Holdtime p)) b) (\<lambda>b.
     Option.bind (AppendBytes ops (GenerationID_Bytes (GenerationID p)) b) (\<lambda>b.
     AppendBytes ops (DRPriority_Bytes (DRPriority p)) b))"

fun appendGroups :: "'b SerializeBuffer \<Rightarrow> Group list \<Rightarrow> 'b \<Rightarrow> 'b option" where
  "appendGroups ops [] b = Some b"
| "appendGroups ops (g # gs) b = Option.bind (AppendBytes ops (Group_Bytes g) b) (appendGroups ops gs)"

definition JoinPruneMessage_SerializeTo :: "'b SerializeBuffer \<Rightarrow> JoinPruneMessage \<Rightarrow> 'b \<Rightarrow> 'b option" where
  "JoinPruneMessage_SerializeTo ops p b =
     Option.bind (PrependBytes ops (serializeEncodedUnicastAddr (UpstreamNeighborAddress p)) b) (\<lambda>b.
     Option.bind (AppendBytes ops ([jp_Reserved p, NumGroups p] @ be_bytes 2 (jp_Holdtime p)) b)
       (appendGroups ops (Groups p)))"

record RegisterMessage =
  Border :: bool
  Null :: bool
  RegData :: "byte list"

definition RegisterMessage_SerializeTo :: "'b SerializeBuffer \<Rightarrow> RegisterMessage \<Rightarrow> 'b \<Rightarrow> 'b option" where
  "RegisterMessage_SerializeTo ops p b =
     (let word = (if Border p then push_bit 31 1 else 0) OR (if Null p then push_bit 30 1 else 0) :: uint32 in
      Option.bind (PrependBytes ops (be_bytes 4 word) b) (AppendBytes ops (RegData p)))"

text \<open>The encapsulated datagram is serialized by the packet library: an argument.\<close>

definition constructRegisterMessage :: "'b SerializeBuffer \<Rightarrow> (IP \<Rightarrow> IP \<Rightarrow> int \<Rightarrow> byte list \<Rightarrow> byte list option)
    \<Rightarrow> IP \<Rightarrow> IP \<Rightarrow> int \<Rightarrow> byte list \<Rightarrow> 'b option" where
  "constructRegisterMessage ops datagram innerSrc grp dport payload =
     Option.bind (datagram (To4 innerSrc) (To4 grp) dport payload) (\<lambda>inner.
     Option.bind (RegisterMessage_SerializeTo ops \<lparr>Border = False, Null = False, RegData = inner\<rparr> (NewBuffer ops))
       (PIMMessage_SerializeTo ops \<lparr>hdr_Version = 2, hdr_Type = Register, hdr_Reserved = 0, hdr_Checksum = 0\<rparr>))"

subsection \<open>Decoding\<close>

datatype next_decoder = DecodeHello | DecodeJoinPrune | NoDecoder

definition decodePim :: "buf \<Rightarrow> pim_error + PIMMessage \<times> next_decoder" where
  "decodePim d =
     andThen (slice_at d 0) (\<lambda>b0. andThen (slice_at d 1) (\<lambda>b1.
     andThen (slice_sub d 2 4) (\<lambda>cs. andThen (Uint16 cs) (\<lambda>csum.
     andThen (slice_sub d 0 4) (\<lambda>contents. andThen (slice_from d 4) (\<lambda>payload.
     let msg = \<lparr>Header = \<lparr>hdr_Version = drop_bit 4 b0, hdr_Type = b0 AND 0x0F, hdr_Reserved = b1, hdr_Checksum = csum\<rparr>,
                Contents = seen contents, Payload = payload\<rparr>
     in Inr (msg, if hdr_Type (Header msg) = Hello then DecodeHello
                  else if hdr_Type (Header msg) = JoinPrune then DecodeJoinPrune else NoDecoder)))))))"

definition decodeEncodedUnicastAddr :: "buf \<Rightarrow> pim_error + IP" where
  "decodeEncodedUnicastAddr d =
     (if length (seen d) < 2 then Inl AddrTooShort
      else if seen d ! 0 = 1
      then if length (drop 2 (seen d)) < 4 then Inl IPv4TooShort else Inr (take 4 (drop 2 (seen d)))
      else if seen d ! 0 = 2
      then if length (drop 2 (seen d)) < 16 then Inl IPv6TooShort else Inr (take 16 (drop 2 (seen d)))
      else Inl UnsupportedFamily)"

lemma decodeEncodedUnicastAddr_length:
  "decodeEncodedUnicastAddr d = Inr addr \<Longrightarrow> length addr = 4 \<or> length addr = 16"
  by (auto simp: decodeEncodedUnicastAddr_def split: if_splits)

text \<open>The inner loop over an address list; \<open>limit\<close> is the length of the remaining message.\<close>

function addrListLoop :: "buf \<Rightarrow> nat \<Rightarrow> nat \<Rightarrow> IP list \<Rightarrow> pim_error + IP list" where
  "addrListLoop value i limit addrs =
     (if i < limit
      then case andThen (slice_from value i) decodeEncodedUnicastAddr of
          Inl e \<Rightarrow> Inl e
        | Inr addr \<Rightarrow> addrListLoop value (i + (length addr + 2)) limit (addrs @ [addr])
      else Inr addrs)"
  by pat_completeness auto
termination
  by (relation "measure (\<lambda>(_, i, limit, _). limit - i)") auto

declare addrListLoop.simps [simp del]

text \<open>One option: its header, its value, and what it sets. Lengths are added in 16 bits.\<close>

definition helloSet :: "uint16 \<Rightarrow> buf \<Rightarrow> nat \<Rightarrow> HelloMessage \<Rightarrow> pim_error + HelloMessage" where
  "helloSet ty value limit hello =
     (if ty = OptionTypeHoldtime then andThen (Uint16 value) (\<lambda>v. Inr (hello\<lparr>Holdtime := v\<rparr>))
      else if ty = OptionTypeLANPruneDelay
      then andThen (andThen (slice_sub value 0 2) Uint16) (\<lambda>v. andThen (andThen (slice_sub value 2 4) Uint16) (\<lambda>u.
             Inr (hello\<lparr>PropDelay := v, OverrideeInterval := u\<rparr>)))
      else if ty = OptionTypeDRPriority
      then andThen (andThen (slice_sub value 0 4) Uint32) (\<lambda>v. Inr (hello\<lparr>DRPriority := v\<rparr>))
      else if ty = OptionTypeGenerationID then andThen (Uint32 value) (\<lambda>v. Inr (hello\<lparr>GenerationID := v\<rparr>))
      else if ty = OptionTypeStateRefresh then andThen (slice_at value 1) (\<lambda>v. Inr (hello\<lparr>StateRefreshInterval := v\<rparr>))
      else if ty = OptionTypeAddressList
      then andThen (addrListLoop value 0 limit []) (\<lambda>addrs. Inr (hello\<lparr>SecondaryAddress := addrs\<rparr>))
      else Inr hello)"

definition helloOption :: "HelloMessage \<Rightarrow> buf \<Rightarrow> pim_error + HelloMessage \<times> buf" where
  "helloOption hello d =
     (if length (seen d) < 4 then Inl OptionTooShort
      else andThen (andThen (slice_sub d 0 2) Uint16) (\<lambda>ty.
           andThen (andThen (slice_sub d 2 4) Uint16) (\<lambda>len.
           andThen (slice_sub d 4 (unat (4 + len))) (\<lambda>value.
           andThen (helloSet ty value (length (seen d)) hello) (\<lambda>hello.
           andThen (slice_from d (unat (4 + len))) (\<lambda>d. Inr (hello, d)))))))"

lemma andThen_simps [simp]: "andThen (Inl e) f = Inl e" "andThen (Inr x) f = f x"
  by (simp_all add: andThen_def)

lemma andThen_Inr: "andThen r f = Inr y \<longleftrightarrow> (\<exists>x. r = Inr x \<and> f x = Inr y)"
  by (cases r) simp_all

lemma helloOption_shrinks:
  assumes "helloOption hello d = Inr (hello', d')"
  shows "length (seen d') < length (seen d)"
proof -
  from assms obtain len :: uint16 and v where "slice_sub d 4 (unat (4 + len)) = Inr v"
    "slice_from d (unat (4 + len)) = Inr d'" "4 \<le> length (seen d)"
    by (auto simp: helloOption_def andThen_Inr split: if_splits)
  then show ?thesis by (auto simp: slice_sub_def slice_from_def Let_def split: if_splits)
qed

function helloLoop :: "HelloMessage \<Rightarrow> buf \<Rightarrow> pim_error + HelloMessage" where
  "helloLoop hello d =
     (if seen d = [] then Inr hello
      else case helloOption hello d of Inl e \<Rightarrow> Inl e | Inr (hello, d) \<Rightarrow> helloLoop hello d)"
  by pat_completeness auto
termination
  by (relation "measure (\<lambda>(_, d). length (seen d))") (auto dest: helloOption_shrinks)

declare helloLoop.simps [simp del]

definition zeroHello :: "byte list \<Rightarrow> HelloMessage" where
  "zeroHello contents = \<lparr>hello_Contents = contents, Holdtime = 0, PropDelay = 0, OverrideeInterval = 0, DRPriority = 0,
     GenerationID = 0, SecondaryAddress = [], StateRefreshInterval = 0\<rparr>"

definition decodePimHelloMessage :: "buf \<Rightarrow> pim_error + HelloMessage" where
  "decodePimHelloMessage d = helloLoop (zeroHello (seen d)) d"

text \<open>
  The address of a group or source: the bytes after the first four by family. Of another
  family there are none, and the address is what the variable held before.
\<close>

definition encodedAddr :: "buf \<Rightarrow> IP \<Rightarrow> pim_error + IP \<times> buf" where
  "encodedAddr d addr =
     andThen (slice_at d 0) (\<lambda>family.
     if family = 1 then andThen (slice_sub d 4 8) (\<lambda>a. andThen (slice_from d 8) (\<lambda>d. Inr (seen a, d)))
     else if family = 2 then andThen (slice_sub d 4 20) (\<lambda>a. andThen (slice_from d 20) (\<lambda>d. Inr (seen a, d)))
     else andThen (slice_from d 4) (\<lambda>d. Inr (addr, d)))"

definition decodeSource :: "IP \<Rightarrow> buf \<Rightarrow> pim_error + pim_SourceAddress \<times> IP \<times> buf" where
  "decodeSource addr d =
     andThen (slice_at d 0) (\<lambda>b0. andThen (slice_at d 1) (\<lambda>b1. andThen (slice_at d 2) (\<lambda>b2. andThen (slice_at d 3) (\<lambda>b3.
     andThen (encodedAddr d addr) (\<lambda>(addr, d).
     Inr (\<lparr>sa_AddressFamily = b0, sa_EncodingType = b1, sa_Flags = b2, sa_MaskLength = b3, sa_Address = addr\<rparr>, addr, d))))))"

fun sourceLoop :: "nat \<Rightarrow> IP \<Rightarrow> buf \<Rightarrow> pim_error + pim_SourceAddress list \<times> IP \<times> buf" where
  "sourceLoop 0 addr d = Inr ([], addr, d)"
| "sourceLoop (Suc n) addr d = andThen (decodeSource addr d) (\<lambda>(s, addr, d).
     andThen (sourceLoop n addr d) (\<lambda>(ss, addr, d). Inr (s # ss, addr, d)))"

definition decodeGroup :: "nat \<Rightarrow> buf \<Rightarrow> pim_error + Group \<times> buf" where
  "decodeGroup i d =
     andThen (slice_at d 0) (\<lambda>b0. andThen (slice_at d 1) (\<lambda>b1. andThen (slice_at d 2) (\<lambda>b2. andThen (slice_at d 3) (\<lambda>b3.
     andThen (encodedAddr d []) (\<lambda>(addr, d).
     andThen (andThen (slice_sub d 0 2) Uint16) (\<lambda>joined.
     andThen (andThen (slice_sub d 2 4) Uint16) (\<lambda>pruned.
     andThen (slice_from d 4) (\<lambda>d.
     andThen (sourceLoop (unat joined) addr d) (\<lambda>(joins, last, d).
     andThen (sourceLoop (unat pruned) last d) (\<lambda>(prunes, last, d).
     Inr (\<lparr>GroupID = of_nat i, g_AddressFamily = b0, g_EncodingType = b1, g_Flags = b2, g_MaskLength = b3,
       MulticastGroupAddress = addr, NumJoinedSources = joined, NumPrunedSources = pruned, Joins = joins, Prunes = prunes\<rparr>,
       d)))))))))))"

fun groupLoop :: "nat \<Rightarrow> nat \<Rightarrow> buf \<Rightarrow> pim_error + Group list" where
  "groupLoop i 0 d = Inr []"
| "groupLoop i (Suc n) d = andThen (decodeGroup i d) (\<lambda>(g, d).
     andThen (groupLoop (i + 1) n d) (\<lambda>gs. Inr (g # gs)))"

definition decodeGroups :: "uint8 \<Rightarrow> buf \<Rightarrow> pim_error + Group list" where
  "decodeGroups numGroups d = groupLoop 0 (unat numGroups) d"

definition decodePimJoinPruneMessage :: "buf \<Rightarrow> pim_error + JoinPruneMessage" where
  "decodePimJoinPruneMessage d0 =
     andThen (decodeEncodedUnicastAddr d0) (\<lambda>addr.
     andThen (slice_from d0 (length addr + 2)) (\<lambda>d.
     andThen (slice_at d 0) (\<lambda>reserved. andThen (slice_at d 1) (\<lambda>num.
     andThen (andThen (slice_sub d 2 4) Uint16) (\<lambda>holdtime.
     andThen (slice_from d 4) (\<lambda>d'.
     andThen (decodeGroups num d') (\<lambda>groups.
     Inr \<lparr>jp_Contents = seen d0, UpstreamNeighborAddress = addr, jp_Reserved = reserved, NumGroups = num,
       jp_Holdtime = holdtime, Groups = groups\<rparr>)))))))"

subsection \<open>The checksum is the one's complement sum\<close>

text \<open>The sum of the big-endian 16-bit words of a message.\<close>

fun word_sum :: "byte list \<Rightarrow> nat" where
  "word_sum [] = 0"
| "word_sum [x] = 256 * unat x"
| "word_sum (x # y # bytes) = 256 * unat x + unat y + word_sum bytes"

lemma word_sum_append: "even (length xs) \<Longrightarrow> word_sum (xs @ ys) = word_sum xs + word_sum ys"
  by (induction xs rule: word_sum.induct) auto

lemma word_sum_bound: "even (length xs) \<Longrightarrow> 2 * word_sum xs \<le> 65535 * length xs"
proof (induction xs rule: word_sum.induct)
  case (3 x y bytes)
  then show ?case using unat_byte_less [of x] unat_byte_less [of y] by simp
qed auto

lemma word_step:
  fixes c :: uint32
  assumes "unat c + (256 * unat x + unat y) < 4294967296"
  shows "unat (c + push_bit 8 (ucast (x :: byte)) + ucast (y :: byte)) = unat c + (256 * unat x + unat y)"
proof -
  have "unat (push_bit 8 (ucast x :: uint32)) = 256 * unat x"
    using unat_byte_less [of x]
    by (simp only: unsigned_push_bit_eq unsigned_ucast_eq) (simp add: push_bit_eq_mult take_bit_nat_eq_self)
  moreover have "unat (ucast y :: uint32) = unat y"
    using unat_byte_less [of y] by (simp add: unsigned_ucast_eq take_bit_nat_eq_self)
  ultimately show ?thesis using assms by (simp add: unat_word_ariths)
qed

lemma csumLoop_sum:
  "even (length xs) \<Longrightarrow> unat c + word_sum xs < 4294967296 \<Longrightarrow>
   \<exists>s. csumLoop c xs = Inr s \<and> unat s = unat c + word_sum xs"
proof (induction c xs rule: csumLoop.induct)
  case (3 csum x y bytes)
  let ?c = "csum + push_bit 8 (ucast x) + ucast y"
  have s: "unat ?c = unat csum + (256 * unat x + unat y)" using "3.prems" by (intro word_step) simp
  have "\<exists>s. csumLoop ?c bytes = Inr s \<and> unat s = unat ?c + word_sum bytes"
    using "3.prems" s by (intro "3.IH") simp_all
  then show ?case using s by auto
qed auto

text \<open>Folding the carries gives the representative of the sum modulo 65535 that is zero only for zero.\<close>

definition folded :: "nat \<Rightarrow> nat" where
  "folded n = (if n = 0 then 0 else if n mod 65535 = 0 then 65535 else n mod 65535)"

lemma folded_small: "n \<le> 65535 \<Longrightarrow> folded n = n"
  by (cases "n = 65535") (auto simp: folded_def)

lemma folded_carry:
  assumes "65535 < n"
  shows "folded (n div 65536 + n mod 65536) = folded n"
proof -
  have "n = 65535 * (n div 65536) + (n div 65536 + n mod 65536)" using div_mult_mod_eq [of n 65536] by linarith
  from arg_cong [OF this, of "\<lambda>n. n mod 65535"]
  have "n mod 65535 = (n div 65536 + n mod 65536) mod 65535" by (simp only: mod_mult_self4)
  moreover have "n div 65536 + n mod 65536 \<noteq> 0" using assms by (simp add: div_eq_0_iff)
  ultimately show ?thesis using assms by (simp add: folded_def)
qed

lemma carryLoop_folded: "unat (carryLoop c) = folded (unat c)"
proof (induction c rule: carryLoop.induct)
  case (1 c)
  show ?case
  proof (cases "c \<le> 65535")
    case True
    then have "unat c \<le> 65535" by (simp add: word_le_nat_alt)
    then show ?thesis using True by (simp add: carryLoop.simps [of c] folded_small)
  next
    case False
    then have "65535 < unat c" by (simp add: word_le_nat_alt)
    then show ?thesis using False "1.IH" [OF False]
      by (simp add: carryLoop.simps [of c] carry_step folded_carry del: unat_word_ariths)
  qed
qed

lemma folded_le: "folded n \<le> 65535"
  by (simp add: folded_def less_imp_le)

lemma NOT_unat: "unat (NOT (w :: uint16)) = 65535 - unat w"
proof -
  have "NOT w = - 1 - w" by (simp add: not_eq_complement)
  moreover have "unat (- 1 - w) = unat (- 1 :: uint16) - unat w" by (rule unat_sub) simp
  ultimately show ?thesis by (simp add: unsigned_minus_1_eq_mask mask_eq_exp_minus_1)
qed

lemma Checksum_sum:
  assumes "even (length xs)" and "length xs \<le> 131072"
  shows "\<exists>c. Checksum xs = Inr c \<and> unat c = 65535 - folded (word_sum xs)"
proof -
  have "word_sum xs < 4294967296" using word_sum_bound [OF assms(1)] assms(2) by linarith
  then obtain s where s: "csumLoop 0 xs = Inr s" "unat s = word_sum xs"
    using csumLoop_sum [OF assms(1), of 0] by auto
  have "unat (ucast (carryLoop s) :: uint16) = folded (word_sum xs)"
    using folded_le [of "word_sum xs"]
    by (simp add: unsigned_ucast_eq carryLoop_folded s(2) take_bit_nat_eq_self)
  then show ?thesis by (simp add: Checksum_def s(1) NOT_unat)
qed

lemma folded_complement: "folded (n + (65535 - folded n)) = 65535"
proof -
  define q where "q = n div 65535"
  have n: "n = 65535 * q + n mod 65535" by (simp add: q_def)
  have l: "n mod 65535 < 65535" by simp
  consider "n = 0" | "n \<noteq> 0" "n mod 65535 = 0" | "n mod 65535 \<noteq> 0" by blast
  then show ?thesis
  proof cases
    case 3
    then have "n + (65535 - folded n) = 65535 * Suc q" using n l by (auto simp: folded_def)
    then show ?thesis by (simp only: folded_def mod_mult_self1_is_0) simp
  qed (simp_all add: folded_def)
qed

text \<open>The word sum after a checksum has been stored into the second word.\<close>

lemma word_sum_stored:
  fixes c :: uint16
  assumes "even (length rest)"
  shows "word_sum ([a, b] @ be_bytes 2 c @ rest) = word_sum ([a, b, 0, 0] @ rest) + unat c"
proof -
  have "be_bytes 2 c = [ucast (drop_bit 8 c), ucast c]"
    by (simp add: be_bytes_def numeral_2_eq_2)
  moreover have "256 * unat (ucast (drop_bit 8 c) :: byte) + unat (ucast c :: byte) = unat c"
  proof -
    have "unat c < 65536" using unsigned_less [of c, where ?'a = nat] by simp
    then have "unat c div 256 mod 256 = unat c div 256" by (simp add: less_mult_imp_div_less)
    then have "unat (ucast (drop_bit 8 c) :: byte) = unat c div 256"
      by (simp only: unsigned_ucast_eq unat_drop_bit_eq) (simp add: drop_bit_eq_div take_bit_eq_mod)
    moreover have "unat (ucast c :: byte) = unat c mod 256" by (simp add: unsigned_ucast_eq take_bit_eq_mod)
    ultimately show ?thesis by simp
  qed
  ultimately show ?thesis by simp
qed

lemma stored_checksum_verifies:
  fixes c :: uint16
  assumes "even (length rest)" and "length rest \<le> 131068" and "Checksum ([a, b, 0, 0] @ rest) = Inr c"
  shows "Checksum ([a, b] @ be_bytes 2 c @ rest) = Inr 0"
proof -
  let ?n = "word_sum ([a, b, 0, 0] @ rest)"
  have c: "unat c = 65535 - folded ?n"
    using Checksum_sum [of "[a, b, 0, 0] @ rest"] assms by auto
  obtain d where d: "Checksum ([a, b] @ be_bytes 2 c @ rest) = Inr d"
    "unat d = 65535 - folded (word_sum ([a, b] @ be_bytes 2 c @ rest))"
    using Checksum_sum [of "[a, b] @ be_bytes 2 c @ rest"] assms(1,2) by auto
  have "folded (word_sum ([a, b] @ be_bytes 2 c @ rest)) = 65535"
    unfolding word_sum_stored [OF assms(1)] c by (rule folded_complement)
  then have "unat d = 0" using d(2) by simp
  then show ?thesis using d(1) by (simp add: unat_eq_zero)
qed

subsection \<open>Reading what was written\<close>

named_theorems slice_simps "reads at the front of a slice"

lemma slice_sub_append [slice_simps]:
  "lo = length xs \<Longrightarrow> hi = length xs + length ys \<Longrightarrow> slice_sub (Slice (xs @ ys @ zs) z) lo hi = Inr (Slice ys (zs @ z))"
  by (simp add: slice_sub_def)

lemma slice_sub_front [slice_simps]: "hi = length ys \<Longrightarrow> slice_sub (Slice (ys @ zs) z) 0 hi = Inr (Slice ys (zs @ z))"
  by (simp add: slice_sub_def)

lemma slice_from_append [slice_simps]: "lo = length xs \<Longrightarrow> slice_from (Slice (xs @ ys) z) lo = Inr (Slice ys z)"
  by (simp add: slice_from_def)

lemma slice_at_Cons [simp]:
  "slice_at (Slice (a # xs) z) 0 = Inr a" "slice_at (Slice (a # xs) z) (Suc i) = slice_at (Slice xs z) i"
  "slice_at (Slice (a # b # xs) z) 2 = slice_at (Slice xs z) 0"
  "slice_at (Slice (a # b # c # xs) z) 3 = slice_at (Slice xs z) 0"
  by (simp_all add: slice_at_def)

lemma Uint16_be [slice_simps]: "Uint16 (Slice (be_bytes 2 w) z) = Inr w"
  by (simp add: Uint16_def)

lemma Uint32_be [slice_simps]: "Uint32 (Slice (be_bytes 4 w) z) = Inr w"
  by (simp add: Uint32_def)

lemma two_words [slice_simps]:
  "andThen (slice_sub (Slice (be_bytes 2 v @ be_bytes 2 w @ ys) z) 0 2) Uint16 = Inr v"
  "andThen (slice_sub (Slice (be_bytes 2 v @ be_bytes 2 w @ ys) z) 2 4) Uint16 = Inr w"
  "slice_from (Slice (be_bytes 2 v @ be_bytes 2 w @ ys) z) 4 = Inr (Slice ys z)"
  using slice_sub_append [of 2 "be_bytes 2 v" 4 "be_bytes 2 w" ys z] slice_from_append [of 4 "be_bytes 2 v @ be_bytes 2 w" ys z]
  by (simp_all add: slice_simps)

text \<open>An address whose length fits its family.\<close>

definition fits :: "uint8 \<Rightarrow> IP \<Rightarrow> bool" where
  "fits family ip \<longleftrightarrow> family = 1 \<and> length ip = 4 \<or> family = 2 \<and> length ip = 16"

lemma encodedAddr_fits:
  assumes "fits f ip"
  shows "encodedAddr (Slice (f # b # c # d # ip @ ys) z) addr = Inr (ip, Slice ys z)"
proof -
  have "slice_sub (Slice ([f, b, c, d] @ ip @ ys) z) 4 (4 + length ip) = Inr (Slice ip (ys @ z))"
    by (rule slice_sub_append) simp_all
  moreover have "slice_from (Slice (([f, b, c, d] @ ip) @ ys) z) (4 + length ip) = Inr (Slice ys z)"
    by (rule slice_from_append) simp
  ultimately show ?thesis using assms by (auto simp: encodedAddr_def fits_def)
qed

lemma bytesFromNetIP_fits: "fits f ip \<Longrightarrow> bytesFromNetIP ip f = (ip, length ip)"
  by (auto simp: fits_def bytesFromNetIP_def To4_def To16_def)

lemma filled_self [simp]: "filled (length xs) xs = xs"
  by (simp add: filled_def)

definition source_ok :: "pim_SourceAddress \<Rightarrow> bool" where
  "source_ok s = fits (sa_AddressFamily s) (sa_Address s)"

lemma decodeSource_Bytes:
  assumes "source_ok s"
  shows "decodeSource addr (Slice (SourceAddress_Bytes s @ ys) z) = Inr (s, sa_Address s, Slice ys z)"
proof -
  have "SourceAddress_Bytes s @ ys
      = [sa_AddressFamily s, sa_EncodingType s, sa_Flags s, sa_MaskLength s] @ sa_Address s @ ys"
    using assms by (simp add: SourceAddress_Bytes_def source_ok_def bytesFromNetIP_fits)
  then show ?thesis using assms by (simp add: decodeSource_def encodedAddr_fits source_ok_def)
qed

lemma sourceLoop_Bytes:
  "list_all source_ok ss \<Longrightarrow>
   \<exists>a. sourceLoop (length ss) addr (Slice (concat (map SourceAddress_Bytes ss) @ ys) z) = Inr (ss, a, Slice ys z)"
proof (induction ss arbitrary: addr)
  case (Cons s ss)
  from Cons.IH [of "sa_Address s"] Cons.prems obtain a where
    "sourceLoop (length ss) (sa_Address s) (Slice (concat (map SourceAddress_Bytes ss) @ ys) z) = Inr (ss, a, Slice ys z)"
    by auto
  then show ?case using Cons.prems by (simp add: decodeSource_Bytes)
qed simp

definition group_ok :: "Group \<Rightarrow> bool" where
  "group_ok g \<longleftrightarrow> fits (g_AddressFamily g) (MulticastGroupAddress g) \<and>
     unat (NumJoinedSources g) = length (Joins g) \<and> unat (NumPrunedSources g) = length (Prunes g) \<and>
     list_all source_ok (Joins g) \<and> list_all source_ok (Prunes g)"

lemma decodeGroup_Bytes:
  assumes "group_ok g" and "GroupID g = of_nat i"
  shows "decodeGroup i (Slice (Group_Bytes g @ ys) z) = Inr (g, Slice ys z)"
proof -
  let ?s = "concat (map SourceAddress_Bytes (Joins g)) @ concat (map SourceAddress_Bytes (Prunes g)) @ ys"
  have b: "Group_Bytes g @ ys = [g_AddressFamily g, g_EncodingType g, g_Flags g, g_MaskLength g]
      @ MulticastGroupAddress g @ be_bytes 2 (NumJoinedSources g) @ be_bytes 2 (NumPrunedSources g) @ ?s"
    using assms by (simp add: Group_Bytes_def group_ok_def bytesFromNetIP_fits)
  from sourceLoop_Bytes [of "Joins g" "MulticastGroupAddress g" "concat (map SourceAddress_Bytes (Prunes g)) @ ys" z]
    assms(1) obtain a where
    j: "sourceLoop (unat (NumJoinedSources g)) (MulticastGroupAddress g) (Slice ?s z)
      = Inr (Joins g, a, Slice (concat (map SourceAddress_Bytes (Prunes g)) @ ys) z)"
    by (auto simp: group_ok_def)
  from sourceLoop_Bytes [of "Prunes g" a ys z] assms(1) obtain a' where
    p: "sourceLoop (unat (NumPrunedSources g)) a (Slice (concat (map SourceAddress_Bytes (Prunes g)) @ ys) z)
      = Inr (Prunes g, a', Slice ys z)"
    by (auto simp: group_ok_def)
  have "fits (g_AddressFamily g) (MulticastGroupAddress g)" using assms(1) by (simp add: group_ok_def)
  then show ?thesis unfolding b using assms(2)
    by (simp add: decodeGroup_def encodedAddr_fits two_words j p)
qed

fun numbered :: "nat \<Rightarrow> Group list \<Rightarrow> bool" where
  "numbered i [] = True"
| "numbered i (g # gs) = (GroupID g = of_nat i \<and> numbered (i + 1) gs)"

lemma groupLoop_Bytes:
  "list_all group_ok gs \<Longrightarrow> numbered i gs \<Longrightarrow>
   groupLoop i (length gs) (Slice (concat (map Group_Bytes gs) @ ys) z) = Inr gs"
  by (induction gs arbitrary: i) (simp_all add: decodeGroup_Bytes)

lemma decodeEncodedUnicastAddr_Bytes:
  "length ip = 4 \<or> length ip = 16 \<Longrightarrow>
   decodeEncodedUnicastAddr (Slice (serializeEncodedUnicastAddr ip @ ys) z) = Inr ip"
  by (auto simp: decodeEncodedUnicastAddr_def serializeEncodedUnicastAddr_def)

definition JoinPrune_Bytes :: "JoinPruneMessage \<Rightarrow> byte list" where
  "JoinPrune_Bytes p = serializeEncodedUnicastAddr (UpstreamNeighborAddress p)
     @ [jp_Reserved p, NumGroups p] @ be_bytes 2 (jp_Holdtime p) @ concat (map Group_Bytes (Groups p))"

definition joinprune_ok :: "JoinPruneMessage \<Rightarrow> bool" where
  "joinprune_ok p \<longleftrightarrow> (length (UpstreamNeighborAddress p) = 4 \<or> length (UpstreamNeighborAddress p) = 16) \<and>
     unat (NumGroups p) = length (Groups p) \<and> list_all group_ok (Groups p) \<and> numbered 0 (Groups p)"

lemma decodePimJoinPruneMessage_Bytes:
  assumes "joinprune_ok p"
  shows "decodePimJoinPruneMessage (Slice (JoinPrune_Bytes p @ ys) z) = Inr (p\<lparr>jp_Contents := JoinPrune_Bytes p @ ys\<rparr>)"
proof -
  let ?u = "serializeEncodedUnicastAddr (UpstreamNeighborAddress p)"
  let ?g = "concat (map Group_Bytes (Groups p)) @ ys"
  let ?d = "Slice ([jp_Reserved p, NumGroups p] @ be_bytes 2 (jp_Holdtime p) @ ?g) z"
  have u: "length (UpstreamNeighborAddress p) = 4 \<or> length (UpstreamNeighborAddress p) = 16"
    using assms by (simp add: joinprune_ok_def)
  have d: "JoinPrune_Bytes p @ ys = ?u @ seen ?d" by (simp add: JoinPrune_Bytes_def)
  have 1: "decodeEncodedUnicastAddr (Slice (?u @ seen ?d) z) = Inr (UpstreamNeighborAddress p)"
    by (rule decodeEncodedUnicastAddr_Bytes [OF u])
  have 2: "slice_from (Slice (?u @ seen ?d) z) (length (UpstreamNeighborAddress p) + 2) = Inr ?d"
    using u by (subst slice_from_append) (auto simp: serializeEncodedUnicastAddr_def)
  have 3: "slice_at ?d 0 = Inr (jp_Reserved p)" "slice_at ?d 1 = Inr (NumGroups p)" by simp_all
  have 4: "andThen (slice_sub ?d 2 4) Uint16 = Inr (jp_Holdtime p)"
    by (subst slice_sub_append) (simp_all add: Uint16_be)
  have 5: "slice_from ?d 4 = Inr (Slice ?g z)"
    using slice_from_append [of 4 "[jp_Reserved p, NumGroups p] @ be_bytes 2 (jp_Holdtime p)" ?g z] by simp
  have 6: "decodeGroups (NumGroups p) (Slice ?g z) = Inr (Groups p)"
    using assms groupLoop_Bytes [of "Groups p" 0 ys z] by (simp add: decodeGroups_def joinprune_ok_def)
  show ?thesis unfolding d decodePimJoinPruneMessage_def by (simp only: 1 2 3 4 5 6 andThen_simps) simp
qed

subsection \<open>Hello messages\<close>

lemma helloOption_value:
  fixes len :: uint16
  assumes "unat len = length v" and "length v \<le> 65531"
  shows "helloOption hello (Slice (be_bytes 2 ty @ be_bytes 2 len @ v @ ys) z) =
    andThen (helloSet ty (Slice v (ys @ z)) (4 + (length v + length ys)) hello) (\<lambda>h. Inr (h, Slice ys z))"
proof -
  have l: "unat (4 + len) = 4 + length v" using assms by (subst unat_add_lem [THEN iffD1]) simp_all
  have "slice_sub (Slice ((be_bytes 2 ty @ be_bytes 2 len) @ v @ ys) z) 4 (4 + length v) = Inr (Slice v (ys @ z))"
    by (rule slice_sub_append) simp_all
  moreover have "slice_from (Slice ((be_bytes 2 ty @ be_bytes 2 len @ v) @ ys) z) (4 + length v) = Inr (Slice ys z)"
    by (rule slice_from_append) simp
  ultimately show ?thesis by (simp add: helloOption_def two_words l del: add_2_eq_Suc add_2_eq_Suc')
qed

definition Hello_Bytes :: "HelloMessage \<Rightarrow> byte list" where
  "Hello_Bytes p = Holdtime_Bytes (Holdtime p) @ GenerationID_Bytes (GenerationID p) @ DRPriority_Bytes (DRPriority p)"

lemma helloLoop_Nil [simp]: "helloLoop hello (Slice [] z) = Inr hello"
  by (simp add: helloLoop.simps)

lemma helloLoop_option:
  "helloOption hello d = Inr (hello', d') \<Longrightarrow> 0 < length (seen d) \<Longrightarrow> helloLoop hello d = helloLoop hello' d'"
  by (simp add: helloLoop.simps [of hello d])

lemma hello_options:
  "helloOption hello (Slice (Holdtime_Bytes h @ ys) z) = Inr (hello\<lparr>Holdtime := h\<rparr>, Slice ys z)"
  "helloOption hello (Slice (GenerationID_Bytes g @ ys) z) = Inr (hello\<lparr>GenerationID := g\<rparr>, Slice ys z)"
  "helloOption hello (Slice (DRPriority_Bytes p @ ys) z) = Inr (hello\<lparr>DRPriority := p\<rparr>, Slice ys z)"
proof -
  have 1: "slice_sub (Slice (be_bytes 4 p) (ys @ z)) 0 4 = Inr (Slice (be_bytes 4 p) (ys @ z))"
    using slice_sub_front [of 4 "be_bytes 4 p" "[]" "ys @ z"] by simp
  show "helloOption hello (Slice (Holdtime_Bytes h @ ys) z) = Inr (hello\<lparr>Holdtime := h\<rparr>, Slice ys z)"
    unfolding Holdtime_Bytes_def append_assoc
    by (subst helloOption_value) (simp_all add: helloSet_def Uint16_be)
  show "helloOption hello (Slice (GenerationID_Bytes g @ ys) z) = Inr (hello\<lparr>GenerationID := g\<rparr>, Slice ys z)"
    unfolding GenerationID_Bytes_def append_assoc
    by (subst helloOption_value) (simp_all add: helloSet_def Uint32_be option_types)
  show "helloOption hello (Slice (DRPriority_Bytes p @ ys) z) = Inr (hello\<lparr>DRPriority := p\<rparr>, Slice ys z)"
    unfolding DRPriority_Bytes_def append_assoc
    by (subst helloOption_value) (simp_all add: helloSet_def Uint32_be option_types 1)
qed

lemma length_option_Bytes [simp]:
  "length (Holdtime_Bytes h) = 6" "length (GenerationID_Bytes g) = 8" "length (DRPriority_Bytes p) = 8"
  by (simp_all add: Holdtime_Bytes_def GenerationID_Bytes_def DRPriority_Bytes_def)

lemma decodePimHelloMessage_Bytes:
  "decodePimHelloMessage (Slice (Hello_Bytes p) z) =
   Inr ((zeroHello (Hello_Bytes p))\<lparr>Holdtime := Holdtime p, GenerationID := GenerationID p, DRPriority := DRPriority p\<rparr>)"
proof -
  have "helloLoop hello (Slice (Hello_Bytes p) z)
      = Inr (hello\<lparr>Holdtime := Holdtime p, GenerationID := GenerationID p, DRPriority := DRPriority p\<rparr>)" for hello
    unfolding Hello_Bytes_def using helloLoop_option [OF hello_options(3), of "DRPriority p" "[]" z]
    by (simp add: helloLoop_option [OF hello_options(1)] helloLoop_option [OF hello_options(2)])
  then show ?thesis by (simp add: decodePimHelloMessage_def)
qed

text \<open>The loop over an address list runs on past the end of the list.\<close>

lemma addrListLoop_error:
  "i \<le> length (seen v) \<Longrightarrow> length (seen v) < limit \<Longrightarrow> \<exists>e. addrListLoop v i limit addrs = Inl e"
proof (induction v i limit addrs rule: addrListLoop.induct)
  case (1 v i limit addrs)
  show ?case
  proof (cases "andThen (slice_from v i) decodeEncodedUnicastAddr")
    case (Inl e)
    then show ?thesis using "1.prems" by (simp add: addrListLoop.simps [of v i])
  next
    case (Inr addr)
    have "slice_from v i = Inr (Slice (drop i (seen v)) (beyond v))" using "1.prems"(1) by (simp add: slice_from_def)
    then have "decodeEncodedUnicastAddr (Slice (drop i (seen v)) (beyond v)) = Inr addr" using Inr by simp
    then have "length addr + 2 \<le> length (seen v) - i" by (auto simp: decodeEncodedUnicastAddr_def split: if_splits)
    then have "i + (length addr + 2) \<le> length (seen v)" using "1.prems"(1) by simp
    from "1.IH" [OF _ Inr this "1.prems"(2)] "1.prems" show ?thesis
      by (simp add: addrListLoop.simps [of v i] Inr)
  qed
qed

lemma helloOption_addresses:
  assumes "helloOption hello d = Inr (hello', d')"
  shows "SecondaryAddress hello' = SecondaryAddress hello" and
    "andThen (slice_sub d 0 2) Uint16 \<noteq> Inr OptionTypeAddressList"
proof -
  from assms obtain ty len v where o: "4 \<le> length (seen d)" "andThen (slice_sub d 0 2) Uint16 = Inr ty"
    "slice_sub d 4 (unat (4 + len :: uint16)) = Inr v" "helloSet ty v (length (seen d)) hello = Inr hello'"
    "slice_from d (unat (4 + len)) = Inr d'"
    by (auto simp: helloOption_def andThen_Inr split: if_splits)
  have "length (seen v) < length (seen d)"
    using o(3,5) by (auto simp: slice_sub_def slice_from_def Let_def split: if_splits)
  then obtain e where "addrListLoop v 0 (length (seen d)) [] = Inl e" using addrListLoop_error [of 0 v] by auto
  then have "ty \<noteq> OptionTypeAddressList" using o(4) by (auto simp: helloSet_def option_types)
  then show "SecondaryAddress hello' = SecondaryAddress hello" "andThen (slice_sub d 0 2) Uint16 \<noteq> Inr OptionTypeAddressList"
    using o(2,4) by (auto simp: helloSet_def andThen_Inr split: if_splits)
qed

lemma helloLoop_addresses:
  "helloLoop hello d = Inr hello' \<Longrightarrow> SecondaryAddress hello' = SecondaryAddress hello"
proof (induction hello d rule: helloLoop.induct)
  case (1 hello d)
  then show ?case
    by (auto simp: helloLoop.simps [of hello d] helloOption_addresses(1) split: if_splits sum.splits prod.splits)
qed

text \<open>
  C27. Secondary addresses are never read. Whatever a hello message holds, decoding it is an error or gives no secondary
  address; a message that begins with an address list option, of any length and content, is always
  refused: the loop over the list is bounded by the rest of the message and runs past the end of the list.
\<close>

theorem address_lists_always_refused:
  "decodePimHelloMessage d \<in> range Inl \<union> Inr ` {hello. SecondaryAddress hello = []} \<and>
   decodePimHelloMessage (Slice (be_bytes 2 OptionTypeAddressList @ be_bytes 2 (len :: uint16) @ bytes) z) \<in> range Inl"
proof (rule conjI)
  show "decodePimHelloMessage d \<in> range Inl \<union> Inr ` {hello. SecondaryAddress hello = []}"
    using helloLoop_addresses [of "zeroHello (seen d)" d]
    by (cases "decodePimHelloMessage d") (auto simp: decodePimHelloMessage_def zeroHello_def)
  let ?d = "Slice (be_bytes 2 OptionTypeAddressList @ be_bytes 2 len @ bytes) z"
  have "andThen (slice_sub ?d 0 2) Uint16 = Inr OptionTypeAddressList" by (rule two_words(1))
  then have "helloOption hello ?d \<noteq> Inr (hello', d')" for hello hello' d'
    using helloOption_addresses(2) by blast
  moreover have "seen ?d \<noteq> []" by (rule length_greater_0_conv [THEN iffD1]) simp
  ultimately show "decodePimHelloMessage ?d \<in> range Inl"
    by (auto simp: decodePimHelloMessage_def helloLoop.simps [of _ ?d] split: sum.split)
qed

subsection \<open>The common header\<close>

lemma be_bytes_4: "be_bytes 4 (w :: uint32) = [ucast (drop_bit 24 w), ucast (drop_bit 16 w), ucast (drop_bit 8 w), ucast w]"
  by (simp add: be_bytes_def eval_nat_numeral drop_bit_drop_bit)

lemma be_bytes_2: "be_bytes 2 (w :: uint16) = [ucast (drop_bit 8 w), ucast w]"
  by (simp add: be_bytes_def numeral_2_eq_2)

lemma header_Bytes:
  "be_bytes 4 (push_bit 28 (ucast v) OR push_bit 24 (ucast t) OR push_bit 16 (ucast r) OR ucast c :: uint32)
   = [push_bit 4 v OR t, r] @ be_bytes 2 (c :: uint16)"
  for v t r :: byte
proof -
  let ?w = "push_bit 28 (ucast v) OR push_bit 24 (ucast t) OR push_bit 16 (ucast r) OR ucast c :: uint32"
  have "ucast (drop_bit 24 ?w) = push_bit 4 v OR t" "ucast (drop_bit 16 ?w) = r"
    "(ucast (drop_bit 8 ?w) :: byte) = ucast (drop_bit 8 c)" "(ucast ?w :: byte) = ucast c"
    by (rule bit_word_eqI; auto simp: bit_simps dest: bit_imp_le_length)+
  then show ?thesis by (simp add: be_bytes_4 be_bytes_2)
qed

lemma decodePim_Bytes:
  "decodePim (Slice ([b0, r] @ be_bytes 2 c @ ys) z) =
    Inr (\<lparr>Header = \<lparr>hdr_Version = drop_bit 4 b0, hdr_Type = b0 AND 0x0F, hdr_Reserved = r, hdr_Checksum = c\<rparr>,
          Contents = [b0, r] @ be_bytes 2 c, Payload = Slice ys z\<rparr>,
         if b0 AND 0x0F = Hello then DecodeHello else if b0 AND 0x0F = JoinPrune then DecodeJoinPrune else NoDecoder)"
proof -
  let ?d = "Slice ([b0, r] @ be_bytes 2 c @ ys) z"
  have 1: "slice_sub ?d 2 4 = Inr (Slice (be_bytes 2 c) (ys @ z))" by (rule slice_sub_append) simp_all
  have 2: "slice_sub ?d 0 4 = Inr (Slice ([b0, r] @ be_bytes 2 c) (ys @ z))"
    using slice_sub_front [of 4 "[b0, r] @ be_bytes 2 c" ys z] by simp
  have 3: "slice_from ?d 4 = Inr (Slice ys z)" using slice_from_append [of 4 "[b0, r] @ be_bytes 2 c" ys z] by simp
  have 4: "slice_at ?d 0 = Inr b0" "slice_at ?d 1 = Inr r" by simp_all
  show ?thesis unfolding decodePim_def by (simp only: 1 2 3 4 andThen_simps Uint16_be buf.sel Let_def) simp
qed

end
