(* ===== verification/PIM_Server.thy ===== *)
theory PIM_Server
  imports Go_Net PIM_Message
begin

text \<open>
  The PIM speaker of the client, client/doublezerod/internal/pim/server.go and register.go. The server keeps a device
  informed of the multicast groups to join: a hello and a join of all groups every 30 seconds, targeted joins and prunes
  when the groups change, a prune of all groups at the end. The register sender beacons the groups of a publisher to the
  rendezvous point. Sockets are the packets handed to them; what the loop waits for is a list of events; a failed write
  is only logged. \<open>router_rx\<close> is a router that checks and reads these packets with the decoders
  of the package, and the server refines it.
\<close>

subsection \<open>Messages of the server\<close>

definition RpAddress :: IP where "RpAddress = [10, 0, 0, 0]"
definition joinHoldtime :: uint16 where "joinHoldtime = 120"
definition pruneHoldtime :: uint16 where "pruneHoldtime = 5"

definition SparseBit :: uint8 where "SparseBit = 4"
definition WildCardBit :: uint8 where "WildCardBit = 2"
definition RPTreeBit :: uint8 where "RPTreeBit = 1"

definition constructSourceAddress :: "IP \<Rightarrow> pim_SourceAddress list" where
  "constructSourceAddress ip = (if ip = [] then []
     else [\<lparr>sa_AddressFamily = 1, sa_EncodingType = 0, sa_Flags = RPTreeBit OR SparseBit OR WildCardBit,
            sa_MaskLength = 32, sa_Address = ip\<rparr>])"

definition constructGroups :: "IP list \<Rightarrow> IP \<Rightarrow> IP \<Rightarrow> Group list" where
  "constructGroups ips joinSourceAddress pruneSourceAddress =
     (let joins = constructSourceAddress joinSourceAddress; prunes = constructSourceAddress pruneSourceAddress in
      map (\<lambda>(i, ip). \<lparr>GroupID = of_nat i, g_AddressFamily = 1, g_EncodingType = 0, g_Flags = 0, g_MaskLength = 32,
          MulticastGroupAddress = ip, NumJoinedSources = of_nat (length joins), NumPrunedSources = of_nat (length prunes),
          Joins = joins, Prunes = prunes\<rparr>) (enumerate 0 ips))"

definition helloMsg :: HelloMessage where
  "helloMsg = (zeroHello [])\<lparr>Holdtime := 105, DRPriority := 1, GenerationID := 3614426332\<rparr>"

definition constructHelloMessage :: "'b SerializeBuffer \<Rightarrow> 'b option" where
  "constructHelloMessage ops =
     Option.bind (HelloMessage_SerializeTo ops helloMsg (NewBuffer ops))
       (PIMMessage_SerializeTo ops \<lparr>hdr_Version = 2, hdr_Type = Hello, hdr_Reserved = 0, hdr_Checksum = 0\<rparr>)"

definition joinPruneMsg :: "IP \<Rightarrow> IP list \<Rightarrow> IP \<Rightarrow> IP \<Rightarrow> uint16 \<Rightarrow> JoinPruneMessage" where
  "joinPruneMsg upstreamNeighbor groups joinSourceAddress pruneSourceAddress holdtime =
     \<lparr>jp_Contents = [], UpstreamNeighborAddress = upstreamNeighbor, jp_Reserved = 0, NumGroups = of_nat (length groups),
      jp_Holdtime = holdtime, Groups = constructGroups groups joinSourceAddress pruneSourceAddress\<rparr>"

definition constructJoinPruneMessage :: "'b SerializeBuffer \<Rightarrow> IP \<Rightarrow> IP list \<Rightarrow> IP \<Rightarrow> IP \<Rightarrow> uint16 \<Rightarrow> 'b option" where
  "constructJoinPruneMessage ops upstreamNeighbor groups joinSourceAddress pruneSourceAddress holdtime =
     Option.bind (JoinPruneMessage_SerializeTo ops
         (joinPruneMsg upstreamNeighbor groups joinSourceAddress pruneSourceAddress holdtime) (NewBuffer ops))
       (PIMMessage_SerializeTo ops \<lparr>hdr_Version = 2, hdr_Type = JoinPrune, hdr_Reserved = 0, hdr_Checksum = 0\<rparr>)"

subsection \<open>Sending\<close>

record ip4_Header =
  TTL :: int
  Protocol :: int
  HdrSrc :: IP
  HdrDst :: IP
  TotalLen :: int

type_synonym packet = "ip4_Header \<times> byte list"

text \<open>\<open>binary.BigEndian.PutUint16(b[2:4], checksum)\<close>.\<close>

definition putChecksum :: "uint16 \<Rightarrow> byte list \<Rightarrow> pim_error + byte list" where
  "putChecksum c b = (if length b < 4 then Inl Panic else Inr (take 2 b @ be_bytes 2 c @ drop 4 b))"

definition sendMsg :: "'b SerializeBuffer \<Rightarrow> 'b \<Rightarrow> pim_error + packet" where
  "sendMsg ops b =
     andThen (Checksum (Bytes ops b)) (\<lambda>checksum.
     andThen (putChecksum checksum (Bytes ops b)) (\<lambda>bytes.
     Inr (\<lparr>TTL = 1, Protocol = 103, HdrSrc = [], HdrDst = [224, 0, 0, 13], TotalLen = 20 + int (length bytes)\<rparr>, bytes)))"

text \<open>A message that could not be built is logged and left out.\<close>

definition trySend :: "'b SerializeBuffer \<Rightarrow> 'b option \<Rightarrow> pim_error + packet list" where
  "trySend ops mb = (case mb of None \<Rightarrow> Inr [] | Some b \<Rightarrow> andThen (sendMsg ops b) (\<lambda>p. Inr [p]))"

definition sendHelloAndJoin :: "'b SerializeBuffer \<Rightarrow> IP \<Rightarrow> IP list \<Rightarrow> pim_error + packet list" where
  "sendHelloAndJoin ops tunnelAddr groups =
     andThen (trySend ops (constructHelloMessage ops)) (\<lambda>ps.
     andThen (trySend ops (constructJoinPruneMessage ops tunnelAddr groups RpAddress [] joinHoldtime)) (\<lambda>qs. Inr (ps @ qs)))"

definition ipDiff :: "(IP \<Rightarrow> string) \<Rightarrow> IP list \<Rightarrow> IP list \<Rightarrow> IP list \<times> IP list" where
  "ipDiff v6 old new =
     (let oldSet = ip_String v6 ` set old; newSet = ip_String v6 ` set new in
      (filter (\<lambda>ip. ip_String v6 ip \<notin> oldSet) new, filter (\<lambda>ip. ip_String v6 ip \<notin> newSet) old))"

subsection \<open>The loop\<close>

datatype server_event = Ticker | UpdateGroups "IP list" | ServerDone

definition updateGroups :: "'b SerializeBuffer \<Rightarrow> (IP \<Rightarrow> string) \<Rightarrow> IP \<Rightarrow> IP list \<Rightarrow> IP list \<Rightarrow> pim_error + packet list" where
  "updateGroups ops v6 tunnelAddr groups newGroups =
     (case ipDiff v6 groups newGroups of (added, removed) \<Rightarrow>
      andThen (if length removed > 0
               then trySend ops (constructJoinPruneMessage ops tunnelAddr removed [] RpAddress pruneHoldtime) else Inr []) (\<lambda>ps.
      andThen (if length added > 0
               then trySend ops (constructJoinPruneMessage ops tunnelAddr added RpAddress [] joinHoldtime) else Inr []) (\<lambda>qs.
      Inr (ps @ qs))))"

fun serverLoop :: "'b SerializeBuffer \<Rightarrow> (IP \<Rightarrow> string) \<Rightarrow> IP \<Rightarrow> IP list \<Rightarrow> server_event list \<Rightarrow> pim_error + packet list" where
  "serverLoop ops v6 tunnelAddr groups [] = Inr []"
| "serverLoop ops v6 tunnelAddr groups (Ticker # es) =
     andThen (sendHelloAndJoin ops tunnelAddr groups) (\<lambda>ps.
     andThen (serverLoop ops v6 tunnelAddr groups es) (\<lambda>qs. Inr (ps @ qs)))"
| "serverLoop ops v6 tunnelAddr groups (UpdateGroups newGroups # es) =
     andThen (updateGroups ops v6 tunnelAddr groups newGroups) (\<lambda>ps.
     andThen (serverLoop ops v6 tunnelAddr newGroups es) (\<lambda>qs. Inr (ps @ qs)))"
| "serverLoop ops v6 tunnelAddr groups (ServerDone # es) =
     trySend ops (constructJoinPruneMessage ops tunnelAddr groups [] RpAddress pruneHoldtime)"

definition server_Start :: "'b SerializeBuffer \<Rightarrow> (IP \<Rightarrow> string) \<Rightarrow> IP \<Rightarrow> IP list \<Rightarrow> server_event list \<Rightarrow> pim_error + packet list" where
  "server_Start ops v6 tunnelAddr groups es =
     andThen (sendHelloAndJoin ops tunnelAddr groups) (\<lambda>ps.
     andThen (serverLoop ops v6 tunnelAddr groups es) (\<lambda>qs. Inr (ps @ qs)))"

subsection \<open>The register sender\<close>

record RegisterSender =
  srcOverlay :: IP
  innerSrc :: IP
  rp :: IP
  dport :: int
  reg_payload :: "byte list"
  reg_groups :: "IP list"

text \<open>The checksum covers the first eight bytes; \<open>None\<close> stands for a message that cannot be built.\<close>

definition sendRegister :: "'b SerializeBuffer \<Rightarrow> (IP \<Rightarrow> IP \<Rightarrow> int \<Rightarrow> byte list \<Rightarrow> byte list option)
    \<Rightarrow> RegisterSender \<Rightarrow> IP \<Rightarrow> pim_error + packet option" where
  "sendRegister ops datagram s grp =
     (case constructRegisterMessage ops datagram (innerSrc s) grp (dport s) (reg_payload s) of
        None \<Rightarrow> Inr None
      | Some b \<Rightarrow>
          andThen (slice_sub (Slice (Bytes ops b) []) 0 8) (\<lambda>head.
          andThen (Checksum (seen head)) (\<lambda>checksum.
          andThen (putChecksum checksum (Bytes ops b)) (\<lambda>bytes.
          Inr (Some (\<lparr>TTL = 32, Protocol = 103, HdrSrc = srcOverlay s, HdrDst = rp s, TotalLen = 20 + int (length bytes)\<rparr>,
            bytes))))))"

fun sendAllLoop :: "'b SerializeBuffer \<Rightarrow> (IP \<Rightarrow> IP \<Rightarrow> int \<Rightarrow> byte list \<Rightarrow> byte list option)
    \<Rightarrow> RegisterSender \<Rightarrow> IP list \<Rightarrow> pim_error + packet list" where
  "sendAllLoop ops datagram s [] = Inr []"
| "sendAllLoop ops datagram s (g # gs) =
     andThen (sendRegister ops datagram s g) (\<lambda>mp.
     andThen (sendAllLoop ops datagram s gs) (\<lambda>ps. Inr (case mp of None \<Rightarrow> ps | Some p \<Rightarrow> p # ps)))"

definition sendAll :: "'b SerializeBuffer \<Rightarrow> (IP \<Rightarrow> IP \<Rightarrow> int \<Rightarrow> byte list \<Rightarrow> byte list option)
    \<Rightarrow> RegisterSender \<Rightarrow> pim_error + packet list" where
  "sendAll ops datagram s = sendAllLoop ops datagram s (reg_groups s)"

definition reg_UpdateGroups :: "IP list \<Rightarrow> RegisterSender \<Rightarrow> RegisterSender" where
  "reg_UpdateGroups groups s = s\<lparr>reg_groups := groups\<rparr>"

subsection \<open>The bytes of the messages\<close>

text \<open>What is relied on of a serialize buffer: it grows in front and behind by the bytes it is given.\<close>

definition buffer_laws :: "'b SerializeBuffer \<Rightarrow> bool" where
  "buffer_laws ops \<longleftrightarrow> Bytes ops (NewBuffer ops) = [] \<and>
     (\<forall>xs b. \<exists>b'. PrependBytes ops xs b = Some b' \<and> Bytes ops b' = xs @ Bytes ops b) \<and>
     (\<forall>xs b. \<exists>b'. AppendBytes ops xs b = Some b' \<and> Bytes ops b' = Bytes ops b @ xs)"

lemma buffer_lawsD:
  assumes "buffer_laws ops"
  shows "Bytes ops (NewBuffer ops) = []"
    and "\<exists>b'. PrependBytes ops xs b = Some b' \<and> Bytes ops b' = xs @ Bytes ops b"
    and "\<exists>b'. AppendBytes ops xs b = Some b' \<and> Bytes ops b' = Bytes ops b @ xs"
  using assms by (simp_all add: buffer_laws_def)

lemma PIMMessage_SerializeTo_Bytes:
  assumes "buffer_laws ops"
  shows "\<exists>b'. PIMMessage_SerializeTo ops h b = Some b' \<and>
    Bytes ops b' = [push_bit 4 (hdr_Version h) OR hdr_Type h, hdr_Reserved h] @ be_bytes 2 (hdr_Checksum h) @ Bytes ops b"
  unfolding PIMMessage_SerializeTo_def Let_def or.assoc header_Bytes
  using buffer_lawsD(2) [OF assms, of "[push_bit 4 (hdr_Version h) OR hdr_Type h, hdr_Reserved h] @ be_bytes 2 (hdr_Checksum h)" b]
  by (simp only: append_assoc)

lemma zero_checksum: "be_bytes 2 (0 :: uint16) = [0, 0]"
  by (simp add: be_bytes_2)

lemma constructHelloMessage_Bytes:
  assumes "buffer_laws ops"
  shows "\<exists>b. constructHelloMessage ops = Some b \<and> Bytes ops b = [0x20, 0, 0, 0] @ Hello_Bytes helloMsg"
proof -
  obtain b1 where 1: "PrependBytes ops (Holdtime_Bytes (Holdtime helloMsg)) (NewBuffer ops) = Some b1"
    "Bytes ops b1 = Holdtime_Bytes (Holdtime helloMsg)" using buffer_lawsD [OF assms] by fastforce
  obtain b2 where 2: "AppendBytes ops (GenerationID_Bytes (GenerationID helloMsg)) b1 = Some b2"
    "Bytes ops b2 = Bytes ops b1 @ GenerationID_Bytes (GenerationID helloMsg)" using buffer_lawsD(3) [OF assms] by blast
  obtain b3 where 3: "AppendBytes ops (DRPriority_Bytes (DRPriority helloMsg)) b2 = Some b3"
    "Bytes ops b3 = Bytes ops b2 @ DRPriority_Bytes (DRPriority helloMsg)" using buffer_lawsD(3) [OF assms] by blast
  have "HelloMessage_SerializeTo ops helloMsg (NewBuffer ops) = Some b3"
    by (simp add: HelloMessage_SerializeTo_def 1(1) 2(1) 3(1))
  then show ?thesis
    using PIMMessage_SerializeTo_Bytes [OF assms, of "\<lparr>hdr_Version = 2, hdr_Type = Hello, hdr_Reserved = 0, hdr_Checksum = 0\<rparr>" b3]
    by (simp add: constructHelloMessage_def Hello_Bytes_def 1(2) 2(2) 3(2) Hello_def zero_checksum)
qed

lemma appendGroups_Bytes:
  assumes "buffer_laws ops"
  shows "\<exists>b'. appendGroups ops gs b = Some b' \<and> Bytes ops b' = Bytes ops b @ concat (map Group_Bytes gs)"
proof (induction gs arbitrary: b)
  case (Cons g gs)
  obtain b1 where 1: "AppendBytes ops (Group_Bytes g) b = Some b1" "Bytes ops b1 = Bytes ops b @ Group_Bytes g"
    using buffer_lawsD(3) [OF assms] by blast
  show ?case using Cons.IH [of b1] by (auto simp: 1)
qed simp

lemma constructJoinPruneMessage_Bytes:
  fixes up j p h groups
  assumes "buffer_laws ops"
  defines "msg \<equiv> joinPruneMsg up groups j p h"
  shows "\<exists>b. constructJoinPruneMessage ops up groups j p h = Some b \<and> Bytes ops b = [0x23, 0, 0, 0] @ JoinPrune_Bytes msg"
proof -
  let ?u = "serializeEncodedUnicastAddr (UpstreamNeighborAddress msg)"
  let ?h = "[jp_Reserved msg, NumGroups msg] @ be_bytes 2 (jp_Holdtime msg)"
  obtain b1 where 1: "PrependBytes ops ?u (NewBuffer ops) = Some b1" "Bytes ops b1 = ?u"
    using buffer_lawsD [OF assms(1)] by fastforce
  obtain b2 where 2: "AppendBytes ops ?h b1 = Some b2" "Bytes ops b2 = Bytes ops b1 @ ?h"
    using buffer_lawsD(3) [OF assms(1)] by blast
  obtain b3 where 3: "appendGroups ops (Groups msg) b2 = Some b3"
    "Bytes ops b3 = Bytes ops b2 @ concat (map Group_Bytes (Groups msg))"
    using appendGroups_Bytes [OF assms(1)] by blast
  have "JoinPruneMessage_SerializeTo ops msg (NewBuffer ops) = Some b3"
    unfolding JoinPruneMessage_SerializeTo_def by (simp only: 1(1) 2(1) 3(1) Option.bind.simps)
  moreover have "Bytes ops b3 = JoinPrune_Bytes msg" by (simp add: JoinPrune_Bytes_def 1(2) 2(2) 3(2))
  ultimately show ?thesis
    using PIMMessage_SerializeTo_Bytes [OF assms(1), of "\<lparr>hdr_Version = 2, hdr_Type = JoinPrune, hdr_Reserved = 0, hdr_Checksum = 0\<rparr>" b3]
    by (simp add: constructJoinPruneMessage_def msg_def JoinPrune_def zero_checksum)
qed

subsection \<open>Well-formed messages\<close>

text \<open>An IPv4 address or, where a source may be absent, none.\<close>

definition source_addr :: "IP \<Rightarrow> bool" where
  "source_addr ip \<longleftrightarrow> ip = [] \<or> length ip = 4"

lemma constructSourceAddress_ok:
  "source_addr ip \<Longrightarrow> list_all source_ok (constructSourceAddress ip)"
  "length (constructSourceAddress ip) \<le> 1" "constructSourceAddress ip = [] \<longleftrightarrow> ip = []"
  by (auto simp: constructSourceAddress_def source_ok_def fits_def source_addr_def)

lemma length_constructGroups [simp]: "length (constructGroups ips j p) = length ips"
  by (simp add: constructGroups_def Let_def)

lemma constructGroups_ok:
  assumes "source_addr j" and "source_addr p" and "\<forall>ip \<in> set ips. length ip = 4"
  shows "list_all group_ok (constructGroups ips j p)"
proof -
  have "unat (of_nat (length (constructSourceAddress ip)) :: uint16) = length (constructSourceAddress ip)" for ip
    using constructSourceAddress_ok(2) [of ip] by (cases "length (constructSourceAddress ip)") auto
  then have "group_ok \<lparr>GroupID = i, g_AddressFamily = 1, g_EncodingType = 0, g_Flags = 0, g_MaskLength = 32,
      MulticastGroupAddress = ip, NumJoinedSources = of_nat (length (constructSourceAddress j)),
      NumPrunedSources = of_nat (length (constructSourceAddress p)), Joins = constructSourceAddress j,
      Prunes = constructSourceAddress p\<rparr>" if "length ip = 4" for i ip
    using assms(1,2) that by (simp add: group_ok_def fits_def constructSourceAddress_ok(1))
  then show ?thesis using assms(3)
    by (auto simp: constructGroups_def Let_def list_all_iff in_set_enumerate_eq)
qed

lemma numbered_map: "(\<And>i x. GroupID (f (i, x)) = of_nat i) \<Longrightarrow> numbered n (map f (enumerate n xs))"
  by (induction xs arbitrary: n) simp_all

lemma constructGroups_numbered: "numbered 0 (constructGroups ips j p)"
  unfolding constructGroups_def Let_def by (rule numbered_map) simp

lemma joinPruneMsg_ok:
  assumes "length up = 4 \<or> length up = 16" and "length groups \<le> 255" and "\<forall>ip \<in> set groups. length ip = 4"
    and "source_addr j" and "source_addr p"
  shows "joinprune_ok (joinPruneMsg up groups j p h)"
proof -
  have "unat (of_nat (length groups) :: uint8) = length groups"
    using assms(2) by (simp add: unsigned_of_nat take_bit_nat_eq_self)
  then show ?thesis using assms
    by (simp add: joinprune_ok_def joinPruneMsg_def constructGroups_ok constructGroups_numbered)
qed

text \<open>IPv4 addresses are written in their four byte form.\<close>

lemma Group_Bytes_To4:
  "To4 ip \<noteq> [] \<Longrightarrow> g_AddressFamily g = 1 \<Longrightarrow> Group_Bytes (g\<lparr>MulticastGroupAddress := To4 ip\<rparr>) = Group_Bytes (g\<lparr>MulticastGroupAddress := ip\<rparr>)"
proof -
  assume "To4 ip \<noteq> []" and f: "g_AddressFamily g = 1"
  then have "To4 (To4 ip) = To4 ip" by (auto simp: To4_def split: if_splits)
  then show ?thesis using f by (simp add: Group_Bytes_def bytesFromNetIP_def)
qed

lemma JoinPrune_Bytes_To4:
  assumes "\<forall>ip \<in> set groups. To4 ip \<noteq> []"
  shows "JoinPrune_Bytes (joinPruneMsg up (map To4 groups) j p h) = JoinPrune_Bytes (joinPruneMsg up groups j p h)"
proof -
  have "map Group_Bytes (map f (enumerate n (map To4 ips))) = map Group_Bytes (map f (enumerate n ips))"
    if "\<And>i ip. f (i, ip) = (f (i, []))\<lparr>MulticastGroupAddress := ip\<rparr>" "\<And>i ip. g_AddressFamily (f (i, ip)) = 1"
      "\<forall>ip \<in> set ips. To4 ip \<noteq> []" for f n ips
    using that(3)
  proof (induction ips arbitrary: n)
    case (Cons ip ips)
    have "Group_Bytes (f (n, To4 ip)) = Group_Bytes (f (n, ip))"
      using Group_Bytes_To4 [of ip "f (n, [])"] Cons.prems that(1) [of n "To4 ip"] that(1) [of n ip] that(2) by simp
    then show ?case using Cons by simp
  qed simp
  from this [of "\<lambda>(i, ip). \<lparr>GroupID = of_nat i, g_AddressFamily = 1, g_EncodingType = 0, g_Flags = 0, g_MaskLength = 32,
      MulticastGroupAddress = ip, NumJoinedSources = of_nat (length (constructSourceAddress j)),
      NumPrunedSources = of_nat (length (constructSourceAddress p)), Joins = constructSourceAddress j,
      Prunes = constructSourceAddress p\<rparr>" groups 0] assms
  have "map Group_Bytes (constructGroups (map To4 groups) j p) = map Group_Bytes (constructGroups groups j p)"
    by (simp add: constructGroups_def Let_def)
  then show ?thesis by (simp add: JoinPrune_Bytes_def joinPruneMsg_def)
qed

subsection \<open>What is sent\<close>

text \<open>A packet with a message of type \<open>t\<close>, version 2, whose checksum verifies.\<close>

definition carries :: "uint8 \<Rightarrow> byte list \<Rightarrow> packet \<Rightarrow> bool" where
  "carries t msg p \<longleftrightarrow> Checksum (snd p) = Inr 0 \<and> TotalLen (fst p) = 24 + int (length msg) \<and>
     Protocol (fst p) = 103 \<and> HdrDst (fst p) = [224, 0, 0, 13] \<and>
     (\<exists>c :: uint16. snd p = [0x20 OR t, 0] @ be_bytes 2 c @ msg)"

lemma trySend_carries:
  assumes "Bytes ops b = [0x20 OR t, 0, 0, 0] @ msg" and "even (length msg)" and "length msg \<le> 131068"
  shows "\<exists>p. trySend ops (Some b) = Inr [p] \<and> carries t msg p"
proof -
  obtain c where c: "Checksum ([0x20 OR t, 0, 0, 0] @ msg) = Inr c"
    using Checksum_sum [of "[0x20 OR t, 0, 0, 0] @ msg"] assms(2,3) by auto
  have "putChecksum c ([0x20 OR t, 0, 0, 0] @ msg) = Inr ([0x20 OR t, 0] @ be_bytes 2 c @ msg)"
    by (simp add: putChecksum_def)
  moreover have "Checksum ([0x20 OR t, 0] @ be_bytes 2 c @ msg) = Inr 0"
    by (rule stored_checksum_verifies [OF assms(2,3) c])
  moreover have "length (be_bytes 2 c) = 2" by simp
  ultimately show ?thesis
    using c by (simp add: trySend_def sendMsg_def assms(1) carries_def) blast
qed

lemma length_filled [simp]: "length (filled n xs) = n"
  by (simp add: filled_def)

lemma length_SourceAddress_Bytes: "sa_AddressFamily s = 1 \<Longrightarrow> length (SourceAddress_Bytes s) = 8"
  by (simp add: SourceAddress_Bytes_def bytesFromNetIP_def)

lemma length_constructed_sources:
  "length (concat (map SourceAddress_Bytes (constructSourceAddress ip))) = (if ip = [] then 0 else 8)"
  by (simp add: constructSourceAddress_def length_SourceAddress_Bytes)

lemma constructGroups_elem:
  "g \<in> set (constructGroups ips j p) \<Longrightarrow>
   g_AddressFamily g = 1 \<and> Joins g = constructSourceAddress j \<and> Prunes g = constructSourceAddress p"
  by (auto simp: constructGroups_def Let_def)

lemma length_Group_Bytes:
  "g_AddressFamily g = 1 \<Longrightarrow> length (Group_Bytes g) = 12 + length (concat (map SourceAddress_Bytes (Joins g)))
    + length (concat (map SourceAddress_Bytes (Prunes g)))"
  by (simp add: Group_Bytes_def bytesFromNetIP_def)

lemma length_concat_const: "\<forall>x \<in> set xs. length (f x) = k \<Longrightarrow> length (concat (map f xs)) = k * length xs"
  by (induction xs) simp_all

lemma length_constructed_groups:
  "length (concat (map Group_Bytes (constructGroups ips j p)))
   = (12 + (if j = [] then 0 else 8) + (if p = [] then 0 else 8)) * length ips"
  by (subst length_concat_const [of _ _ "12 + (if j = [] then 0 else 8) + (if p = [] then 0 else 8)"])
    (auto dest!: constructGroups_elem simp: length_Group_Bytes length_constructed_sources simp del: length_concat)

lemma length_JoinPrune_Bytes:
  assumes "length up = 4"
  shows "length (JoinPrune_Bytes (joinPruneMsg up groups j p h))
    = 10 + (12 + (if j = [] then 0 else 8) + (if p = [] then 0 else 8)) * length groups"
  using assms length_constructed_groups [of groups j p]
  by (simp add: JoinPrune_Bytes_def joinPruneMsg_def serializeEncodedUnicastAddr_def To4_def)

lemma hello_sent:
  assumes "buffer_laws ops"
  shows "\<exists>q. trySend ops (constructHelloMessage ops) = Inr [q] \<and> carries Hello (Hello_Bytes helloMsg) q"
proof -
  have "length (Hello_Bytes helloMsg) = 22" by (simp add: Hello_Bytes_def)
  then show ?thesis
    using constructHelloMessage_Bytes [OF assms] trySend_carries [where t = Hello and msg = "Hello_Bytes helloMsg"]
    by (auto simp: Hello_def)
qed

text \<open>The groups a device can be asked for: at most 255 IPv4 addresses.\<close>

definition groups_ok :: "IP list \<Rightarrow> bool" where
  "groups_ok groups \<longleftrightarrow> length groups \<le> 255 \<and> list_all (\<lambda>ip. To4 ip \<noteq> []) groups"

lemma joinprune_sent:
  assumes "buffer_laws ops" and "length up = 4" and "groups_ok groups"
  shows "\<exists>q. trySend ops (constructJoinPruneMessage ops up groups j p h) = Inr [q] \<and>
    carries JoinPrune (JoinPrune_Bytes (joinPruneMsg up (map To4 groups) j p h)) q"
proof -
  let ?m = "JoinPrune_Bytes (joinPruneMsg up groups j p h)"
  have m: "JoinPrune_Bytes (joinPruneMsg up (map To4 groups) j p h) = ?m"
    using assms(3) by (intro JoinPrune_Bytes_To4) (simp add: groups_ok_def list_all_iff)
  have "length ?m \<le> 10 + 28 * length groups" "even (length ?m)"
    by (simp_all add: length_JoinPrune_Bytes [OF assms(2)])
  moreover have "length groups \<le> 255" using assms(3) by (simp add: groups_ok_def)
  ultimately have "even (length ?m)" "length ?m \<le> 131068" by linarith+
  then show ?thesis
    using constructJoinPruneMessage_Bytes [OF assms(1), of up groups j p h] trySend_carries [where t = JoinPrune and msg = ?m]
    unfolding m by (auto simp: JoinPrune_def)
qed

subsection \<open>A router\<close>

text \<open>
  A neighbour of the client: it drops a packet whose checksum does not verify, reads the rest with
  the package's decoders, and keeps the groups joined and not pruned since.
\<close>

fun router_group :: "IP set \<Rightarrow> Group \<Rightarrow> IP set" where
  "router_group R g =
     (if Joins g \<noteq> [] then insert (MulticastGroupAddress g) R
      else if Prunes g \<noteq> [] then R - {MulticastGroupAddress g} else R)"

definition router_rx :: "IP set \<Rightarrow> packet \<Rightarrow> IP set" where
  "router_rx R p =
     (if Checksum (snd p) \<noteq> Inr 0 then R
      else case decodePim (Slice (snd p) []) of
          Inl _ \<Rightarrow> R
        | Inr (m, d) \<Rightarrow>
            (if d = DecodeJoinPrune
             then (case decodePimJoinPruneMessage (Payload m) of Inl _ \<Rightarrow> R | Inr j \<Rightarrow> foldl router_group R (Groups j))
             else R))"

lemma message_types [simp]:
  "(0x20 OR Hello) AND 0x0F = Hello" "(0x20 OR JoinPrune) AND 0x0F = JoinPrune" "Hello \<noteq> JoinPrune"
  by (simp_all add: Hello_def JoinPrune_def)

lemmas decodePim_Cons = decodePim_Bytes [unfolded append_Cons append_Nil]

lemma router_rx_hello: "carries Hello msg p \<Longrightarrow> router_rx R p = R"
  by (elim carries_def [THEN iffD1, elim_format] conjE exE) (simp add: router_rx_def decodePim_Cons)

lemma router_rx_joinprune:
  assumes "carries JoinPrune (JoinPrune_Bytes m) p" and "joinprune_ok m"
  shows "router_rx R p = foldl router_group R (Groups m)"
proof -
  obtain c :: uint16 where p: "snd p = [0x20 OR JoinPrune, 0] @ be_bytes 2 c @ JoinPrune_Bytes m" "Checksum (snd p) = Inr 0"
    using assms(1) by (auto simp: carries_def)
  then have "router_rx R p = (case decodePim (Slice (snd p) []) of
          Inl _ \<Rightarrow> R
        | Inr (m, d) \<Rightarrow>
            (if d = DecodeJoinPrune
             then (case decodePimJoinPruneMessage (Payload m) of Inl _ \<Rightarrow> R | Inr j \<Rightarrow> foldl router_group R (Groups j))
             else R))" unfolding router_rx_def by (simp only: if_False simp_thms)
  then show ?thesis
    using decodePimJoinPruneMessage_Bytes [OF assms(2), of "[]" "[]"] message_types
    by (simp add: p(1) decodePim_Cons)
qed

lemma router_groups:
  "foldl router_group R (map f (enumerate n xs)) =
    (if joins \<noteq> [] then R \<union> set xs else if prunes \<noteq> [] then R - set xs else R)"
  if "\<And>i x. MulticastGroupAddress (f (i, x)) = x" "\<And>i x. Joins (f (i, x)) = joins" "\<And>i x. Prunes (f (i, x)) = prunes"
  by (induction xs arbitrary: R n) (auto simp: that)

lemma router_constructed:
  "foldl router_group R (constructGroups xs j p) = (if j \<noteq> [] then R \<union> set xs else if p \<noteq> [] then R - set xs else R)"
  unfolding constructGroups_def Let_def
  by (subst router_groups [of _ "constructSourceAddress j" "constructSourceAddress p"])
    (simp_all add: constructSourceAddress_ok(3))

lemma router_rx_sent:
  assumes "buffer_laws ops" and "length up = 4" and "groups_ok groups" and "source_addr j" and "source_addr p"
  shows "\<exists>q. trySend ops (constructJoinPruneMessage ops up groups j p h) = Inr [q] \<and>
    router_rx R q = (if j \<noteq> [] then R \<union> To4 ` set groups else if p \<noteq> [] then R - To4 ` set groups else R)"
proof -
  have "joinprune_ok (joinPruneMsg up (map To4 groups) j p h)"
    using assms by (intro joinPruneMsg_ok) (auto simp: groups_ok_def list_all_iff To4_def split: if_splits)
  moreover have "Groups (joinPruneMsg up (map To4 groups) j p h) = constructGroups (map To4 groups) j p"
    by (simp add: joinPruneMsg_def)
  ultimately show ?thesis
    using joinprune_sent [OF assms(1-3), of j p h] router_rx_joinprune [where R = R]
    by (metis router_constructed set_map)
qed

subsection \<open>Differences of groups\<close>

lemma ipDiff_sets:
  assumes "groups_ok old" and "groups_ok new" and "ipDiff v6 old new = (added, removed)"
  shows "(To4 ` set old - To4 ` set removed) \<union> To4 ` set added = To4 ` set new"
    and "groups_ok added" and "groups_ok removed"
proof -
  have eq: "ip_String v6 x = ip_String v6 y \<longleftrightarrow> To4 x = To4 y" if "x \<in> set old \<union> set new" "y \<in> set old \<union> set new" for x y
    using assms(1,2) that by (intro ip_String_To4) (auto simp: groups_ok_def list_all_iff)
  have d: "added = filter (\<lambda>ip. ip_String v6 ip \<notin> ip_String v6 ` set old) new"
    "removed = filter (\<lambda>ip. ip_String v6 ip \<notin> ip_String v6 ` set new) old"
    using assms(3) by (simp_all add: ipDiff_def Let_def)
  have a: "set added = {ip \<in> set new. To4 ip \<notin> To4 ` set old}" unfolding d set_filter
    by (rule Collect_cong) (auto simp: image_iff eq)
  have r: "set removed = {ip \<in> set old. To4 ip \<notin> To4 ` set new}" unfolding d set_filter
    by (rule Collect_cong) (auto simp: image_iff eq)
  show "(To4 ` set old - To4 ` set removed) \<union> To4 ` set added = To4 ` set new"
    unfolding a r by (auto simp: image_iff)
  show "groups_ok added" "groups_ok removed"
    using assms(1,2) unfolding d by (auto simp: groups_ok_def list_all_iff intro: order_trans [OF length_filter_le])
qed

subsection \<open>The loop and the router\<close>

lemma source_addrs [simp]: "source_addr []" "source_addr RpAddress" "RpAddress \<noteq> []"
  by (simp_all add: source_addr_def RpAddress_def)

lemma sendHelloAndJoin_router:
  assumes "buffer_laws ops" and "length up = 4" and "groups_ok groups"
  shows "\<exists>ps. sendHelloAndJoin ops up groups = Inr ps \<and> foldl router_rx R ps = R \<union> To4 ` set groups"
  using hello_sent [OF assms(1)] router_rx_hello [of _ _ R]
    router_rx_sent [OF assms, of RpAddress "[]" joinHoldtime R]
  by (fastforce simp: sendHelloAndJoin_def)

lemma updateGroups_router:
  assumes "buffer_laws ops" and "length up = 4" and "groups_ok groups" and "groups_ok new"
  shows "\<exists>ps. updateGroups ops v6 up groups new = Inr ps \<and> foldl router_rx (To4 ` set groups) ps = To4 ` set new"
proof -
  obtain added removed where d: "ipDiff v6 groups new = (added, removed)" by force
  note s = ipDiff_sets [OF assms(3,4) d]
  let ?R = "To4 ` set groups" let ?R' = "?R - To4 ` set removed"
  obtain ps where ps: "(if length removed > 0
      then trySend ops (constructJoinPruneMessage ops up removed [] RpAddress pruneHoldtime) else Inr []) = Inr ps"
    "foldl router_rx ?R ps = ?R'"
    using router_rx_sent [OF assms(1,2) s(3), of "[]" RpAddress pruneHoldtime ?R] by (cases removed) auto
  obtain qs where qs: "(if length added > 0
      then trySend ops (constructJoinPruneMessage ops up added RpAddress [] joinHoldtime) else Inr []) = Inr qs"
    "foldl router_rx ?R' qs = ?R' \<union> To4 ` set added"
    using router_rx_sent [OF assms(1,2) s(2), of RpAddress "[]" joinHoldtime ?R'] by (cases added) auto
  have "updateGroups ops v6 up groups new = Inr (ps @ qs)"
    unfolding updateGroups_def d prod.case ps(1) qs(1) by simp
  then show ?thesis using ps(2) qs(2) s(1) by simp
qed

text \<open>The groups the client wants after the events of a run.\<close>

fun wantedGroups :: "IP list \<Rightarrow> server_event list \<Rightarrow> IP set" where
  "wantedGroups groups [] = set groups"
| "wantedGroups groups (Ticker # es) = wantedGroups groups es"
| "wantedGroups groups (UpdateGroups new # es) = wantedGroups new es"
| "wantedGroups groups (ServerDone # es) = {}"

fun event_ok :: "server_event \<Rightarrow> bool" where
  "event_ok (UpdateGroups new) = groups_ok new"
| "event_ok _ = True"

lemma serverLoop_router:
  assumes "buffer_laws ops" and "length up = 4"
  shows "groups_ok groups \<Longrightarrow> list_all event_ok es \<Longrightarrow>
    \<exists>ps. serverLoop ops v6 up groups es = Inr ps \<and> foldl router_rx (To4 ` set groups) ps = To4 ` wantedGroups groups es"
proof (induction groups es rule: wantedGroups.induct)
  case (2 groups es)
  obtain ps where ps: "sendHelloAndJoin ops up groups = Inr ps" "foldl router_rx (To4 ` set groups) ps = To4 ` set groups"
    using sendHelloAndJoin_router [OF assms 2(2), of "To4 ` set groups"] by auto
  obtain qs where qs: "serverLoop ops v6 up groups es = Inr qs" "foldl router_rx (To4 ` set groups) qs = To4 ` wantedGroups groups es"
    using 2 by auto
  show ?case using ps qs by simp
next
  case (3 groups new es)
  obtain ps where ps: "updateGroups ops v6 up groups new = Inr ps" "foldl router_rx (To4 ` set groups) ps = To4 ` set new"
    using updateGroups_router [OF assms 3(2), of new v6] 3(3) by auto
  obtain qs where qs: "serverLoop ops v6 up new es = Inr qs" "foldl router_rx (To4 ` set new) qs = To4 ` wantedGroups new es"
    using 3 by auto
  show ?case using ps qs by simp
next
  case (4 groups es)
  show ?case using router_rx_sent [OF assms 4(1), of "[]" RpAddress pruneHoldtime "To4 ` set groups"] by auto
qed simp

subsection \<open>Registers\<close>

text \<open>A register message: header, an empty word of flags, and the datagram.\<close>

definition register_head :: "uint16 \<Rightarrow> byte list" where
  "register_head c = [0x21, 0] @ be_bytes 2 c @ [0, 0, 0, 0]"

lemma constructRegisterMessage_Bytes:
  assumes "buffer_laws ops" and "datagram (To4 src) (To4 grp) port payload = Some inner"
  shows "\<exists>b. constructRegisterMessage ops datagram src grp port payload = Some b \<and> Bytes ops b = register_head 0 @ inner"
proof -
  obtain b1 where 1: "PrependBytes ops (be_bytes 4 (0 :: uint32)) (NewBuffer ops) = Some b1" "Bytes ops b1 = be_bytes 4 (0 :: uint32)"
    using buffer_lawsD [OF assms(1)] by fastforce
  obtain b2 where 2: "AppendBytes ops inner b1 = Some b2" "Bytes ops b2 = Bytes ops b1 @ inner"
    using buffer_lawsD(3) [OF assms(1)] by blast
  have "RegisterMessage_SerializeTo ops \<lparr>Border = False, Null = False, RegData = inner\<rparr> (NewBuffer ops) = Some b2"
    by (simp add: RegisterMessage_SerializeTo_def 1(1) 2(1))
  then show ?thesis
    using PIMMessage_SerializeTo_Bytes [OF assms(1), of "\<lparr>hdr_Version = 2, hdr_Type = Register, hdr_Reserved = 0, hdr_Checksum = 0\<rparr>" b2]
    by (simp add: constructRegisterMessage_def assms(2) 1(2) 2(2) Register_def zero_checksum be_bytes_4 register_head_def)
qed

lemma sendRegister_packet:
  assumes "buffer_laws ops" and "datagram (To4 (innerSrc s)) (To4 grp) (dport s) (reg_payload s) = Some inner"
  shows "\<exists>c. Checksum (register_head c) = Inr 0 \<and> sendRegister ops datagram s grp =
    Inr (Some (\<lparr>TTL = 32, Protocol = 103, HdrSrc = srcOverlay s, HdrDst = rp s, TotalLen = 28 + int (length inner)\<rparr>,
      register_head c @ inner))"
proof -
  obtain b where b: "constructRegisterMessage ops datagram (innerSrc s) grp (dport s) (reg_payload s) = Some b"
    "Bytes ops b = register_head 0 @ inner" using constructRegisterMessage_Bytes [where datagram = datagram, OF assms(1) assms(2)] by blast
  have h: "register_head 0 = [0x21, 0, 0, 0] @ [0, 0, 0, 0]" by (simp add: register_head_def zero_checksum)
  obtain c where c: "Checksum (register_head 0) = Inr c" using Checksum_sum [of "register_head 0"] h by auto
  have "Checksum (register_head c) = Inr 0"
    using stored_checksum_verifies [of "[0, 0, 0, 0]" "0x21" 0 c] c unfolding register_head_def by (simp add: zero_checksum)
  moreover have "slice_sub (Slice (register_head 0 @ inner) []) 0 8 = Inr (Slice (register_head 0) inner)"
    by (rule slice_sub_front [of 8 "register_head 0" inner "[]", simplified]) (simp add: h)
  moreover have "putChecksum c (register_head 0 @ inner) = Inr (register_head c @ inner)"
    by (simp add: putChecksum_def h register_head_def)
  moreover have "length (register_head c) = 8" by (simp add: register_head_def)
  ultimately show ?thesis by (intro exI [of _ c]) (simp add: sendRegister_def b c)
qed

text \<open>The packet for a group.\<close>

definition beacons :: "(IP \<Rightarrow> IP \<Rightarrow> int \<Rightarrow> byte list \<Rightarrow> byte list option) \<Rightarrow> RegisterSender \<Rightarrow> IP \<Rightarrow> packet \<Rightarrow> bool" where
  "beacons datagram s grp q \<longleftrightarrow>
     (\<exists>c inner. datagram (To4 (innerSrc s)) (To4 grp) (dport s) (reg_payload s) = Some inner \<and>
        q = (\<lparr>TTL = 32, Protocol = 103, HdrSrc = srcOverlay s, HdrDst = rp s, TotalLen = 28 + int (length inner)\<rparr>,
             [0x21, 0] @ be_bytes 2 (c :: uint16) @ [0, 0, 0, 0] @ inner) \<and>
        folded (word_sum ([0x21, 0] @ be_bytes 2 c @ [0, 0, 0, 0])) = 65535)"

lemma Checksum_zero:
  assumes "even (length xs)" and "length xs \<le> 131072" and "Checksum xs = Inr 0"
  shows "folded (word_sum xs) = 65535"
  using Checksum_sum [OF assms(1,2)] assms(3) folded_le [of "word_sum xs"] by auto

text \<open>
  The datagrams the packet library can serialize, per group.
\<close>

definition registered :: "(IP \<Rightarrow> IP \<Rightarrow> int \<Rightarrow> byte list \<Rightarrow> byte list option) \<Rightarrow> RegisterSender \<Rightarrow> IP \<Rightarrow> bool" where
  "registered datagram s grp \<longleftrightarrow> datagram (To4 (innerSrc s)) (To4 grp) (dport s) (reg_payload s) \<noteq> None"

lemma sendRegister_beacons:
  assumes "buffer_laws ops"
  shows "(registered datagram s grp \<and> (\<exists>q. sendRegister ops datagram s grp = Inr (Some q) \<and> beacons datagram s grp q))
    \<or> (\<not> registered datagram s grp \<and> sendRegister ops datagram s grp = Inr None)"
proof (cases "datagram (To4 (innerSrc s)) (To4 grp) (dport s) (reg_payload s)")
  case None
  then show ?thesis by (simp add: registered_def sendRegister_def constructRegisterMessage_def)
next
  case (Some inner)
  obtain c where c: "Checksum (register_head c) = Inr 0" "sendRegister ops datagram s grp =
    Inr (Some (\<lparr>TTL = 32, Protocol = 103, HdrSrc = srcOverlay s, HdrDst = rp s, TotalLen = 28 + int (length inner)\<rparr>,
      register_head c @ inner))" using sendRegister_packet [where datagram = datagram and s = s, OF assms Some] by blast
  have "folded (word_sum (register_head c)) = 65535"
    by (rule Checksum_zero [OF _ _ c(1)]) (simp_all add: register_head_def)
  then have "\<exists>q. sendRegister ops datagram s grp = Inr (Some q) \<and> beacons datagram s grp q"
    unfolding c(2) beacons_def Some register_head_def by auto
  then show ?thesis by (simp add: registered_def Some)
qed

lemma sendAllLoop_beacons:
  assumes "buffer_laws ops"
  shows "\<exists>qs. sendAllLoop ops datagram s gs = Inr qs \<and> list_all2 (beacons datagram s) (filter (registered datagram s) gs) qs"
proof (induction gs)
  case (Cons g gs)
  then show ?case using sendRegister_beacons [OF assms, of datagram s g] by auto
qed simp

subsection \<open>Reading back\<close>

lemma hello_reads_back:
  assumes "buffer_laws ops"
  shows "\<exists>q m h. trySend ops (constructHelloMessage ops) = Inr [q] \<and> folded (word_sum (snd q)) = 65535 \<and>
      decodePim (Slice (snd q) []) = Inr (m, DecodeHello) \<and> hdr_Version (Header m) = 2 \<and>
      decodePimHelloMessage (Payload m) = Inr h \<and>
      (Holdtime h, DRPriority h, GenerationID h, SecondaryAddress h) = (105, 1, 3614426332, [])"
proof -
  obtain q where q: "trySend ops (constructHelloMessage ops) = Inr [q]" "carries Hello (Hello_Bytes helloMsg) q"
    using hello_sent [OF assms] by blast
  then obtain c :: uint16 where c: "snd q = [0x20 OR Hello, 0] @ be_bytes 2 c @ Hello_Bytes helloMsg" "Checksum (snd q) = Inr 0"
    by (auto simp: carries_def)
  have "folded (word_sum (snd q)) = 65535"
    by (rule Checksum_zero [OF _ _ c(2)]) (simp_all add: c(1) Hello_Bytes_def)
  then show ?thesis using q(1) decodePimHelloMessage_Bytes [of helloMsg "[]"]
    by (auto simp: c(1) decodePim_Cons helloMsg_def zeroHello_def Hello_def)
qed

lemma joinprune_reads_back:
  assumes "buffer_laws ops" and "length up = 4" and "groups_ok groups" and "source_addr j" and "source_addr p"
  shows "\<exists>q m k. trySend ops (constructJoinPruneMessage ops up groups j p h) = Inr [q] \<and> folded (word_sum (snd q)) = 65535 \<and>
      decodePim (Slice (snd q) []) = Inr (m, DecodeJoinPrune) \<and> hdr_Version (Header m) = 2 \<and>
      decodePimJoinPruneMessage (Payload m) = Inr ((joinPruneMsg up (map To4 groups) j p h)\<lparr>jp_Contents := k\<rparr>)"
proof -
  let ?m = "joinPruneMsg up (map To4 groups) j p h"
  obtain q where q: "trySend ops (constructJoinPruneMessage ops up groups j p h) = Inr [q]" "carries JoinPrune (JoinPrune_Bytes ?m) q"
    using joinprune_sent [OF assms(1-3)] by blast
  then obtain c :: uint16 where c: "snd q = [0x20 OR JoinPrune, 0] @ be_bytes 2 c @ JoinPrune_Bytes ?m" "Checksum (snd q) = Inr 0"
    by (auto simp: carries_def)
  have "length (JoinPrune_Bytes ?m) \<le> 10 + 28 * length groups" "even (length (JoinPrune_Bytes ?m))" "length groups \<le> 255"
    using assms(3) by (simp_all add: length_JoinPrune_Bytes [OF assms(2)] groups_ok_def)
  then have "folded (word_sum (snd q)) = 65535"
    by (intro Checksum_zero [OF _ _ c(2)]) (simp_all add: c(1))
  moreover have "joinprune_ok ?m"
    using assms by (intro joinPruneMsg_ok) (auto simp: groups_ok_def list_all_iff length_To4)
  from decodePimJoinPruneMessage_Bytes [OF this, of "[]" "[]"]
  have "decodePimJoinPruneMessage (Slice (JoinPrune_Bytes ?m) []) = Inr (?m\<lparr>jp_Contents := JoinPrune_Bytes ?m\<rparr>)" by simp
  ultimately show ?thesis using q(1)
    by (auto simp: c(1) decodePim_Cons JoinPrune_def Hello_def)
qed

subsection \<open>Properties\<close>

text \<open>A buffer that satisfies the laws, for the concrete instances below: a list of bytes.\<close>

definition list_buffer :: "byte list SerializeBuffer" where
  "list_buffer = \<lparr>NewBuffer = [], Bytes = \<lambda>b. b, PrependBytes = \<lambda>xs b. Some (xs @ b), AppendBytes = \<lambda>xs b. Some (b @ xs)\<rparr>"

lemma list_buffer_laws: "buffer_laws list_buffer"
  by (simp add: buffer_laws_def list_buffer_def)

text \<open>
  C6. The loop of the PIM server never panics, and a router that verifies and decodes what it sends
  knows exactly the groups wanted after any sequence of ticks and changes of at most 255 IPv4 groups:
  prunes and joins carry the difference of the old and the new groups, repeated joins are harmless,
  and the final prune leaves none.
\<close>

theorem router_follows_groups:
  assumes "buffer_laws ops" and "length tunnelAddr = 4" and "groups_ok groups" and "list_all event_ok es"
  shows "\<exists>ps. server_Start ops v6 tunnelAddr groups es = Inr ps \<and> foldl router_rx {} ps = To4 ` wantedGroups groups es"
proof -
  obtain ps where ps: "sendHelloAndJoin ops tunnelAddr groups = Inr ps" "foldl router_rx {} ps = To4 ` set groups"
    using sendHelloAndJoin_router [OF assms(1-3), of "{}"] by auto
  obtain qs where "serverLoop ops v6 tunnelAddr groups es = Inr qs"
    "foldl router_rx (To4 ` set groups) qs = To4 ` wantedGroups groups es"
    using serverLoop_router [OF assms] by blast
  then show ?thesis using ps by (simp add: server_Start_def)
qed

theorem router_follows_groups_witness:
  "\<exists>ps. server_Start list_buffer (\<lambda>_. ''?'') [169, 254, 0, 1] [[233, 84, 178, 0], [233, 84, 178, 1]]
      [Ticker, UpdateGroups [[233, 84, 178, 1], [233, 84, 178, 2]], Ticker] = Inr ps \<and>
    foldl router_rx {} ps = {[233, 84, 178, 1], [233, 84, 178, 2]}"
  using router_follows_groups [OF list_buffer_laws, of "[169, 254, 0, 1]" "[[233, 84, 178, 0], [233, 84, 178, 1]]"
      "[Ticker, UpdateGroups [[233, 84, 178, 1], [233, 84, 178, 2]], Ticker]" "\<lambda>_. ''?''"]
  by (simp add: groups_ok_def To4_def)

text \<open>
  C12. The messages of the server are sent with a checksum that makes the one's complement sum of the
  packet all ones, and they are read back by the decoders as they were built: the hello with its
  options, the join/prune message with its neighbour, holdtime, groups in four byte form and sources.
\<close>

theorem pim_messages_read_back:
  assumes "buffer_laws ops" and "length up = 4" and "groups_ok groups" and "source_addr j" and "source_addr p"
  shows "(\<exists>q m h. trySend ops (constructHelloMessage ops) = Inr [q] \<and> folded (word_sum (snd q)) = 65535 \<and>
      decodePim (Slice (snd q) []) = Inr (m, DecodeHello) \<and> hdr_Version (Header m) = 2 \<and>
      decodePimHelloMessage (Payload m) = Inr h \<and>
      (Holdtime h, DRPriority h, GenerationID h, SecondaryAddress h) = (105, 1, 3614426332, [])) \<and>
    (\<exists>q m k. trySend ops (constructJoinPruneMessage ops up groups j p h) = Inr [q] \<and> folded (word_sum (snd q)) = 65535 \<and>
      decodePim (Slice (snd q) []) = Inr (m, DecodeJoinPrune) \<and> hdr_Version (Header m) = 2 \<and>
      decodePimJoinPruneMessage (Payload m) = Inr ((joinPruneMsg up (map To4 groups) j p h)\<lparr>jp_Contents := k\<rparr>))"
  using hello_reads_back [OF assms(1)] joinprune_reads_back [OF assms] by blast

theorem pim_messages_read_back_witness:
  "\<exists>q m k. trySend list_buffer (constructJoinPruneMessage list_buffer [169, 254, 0, 1] [[233, 84, 178, 0]] RpAddress [] 120) = Inr [q] \<and>
    folded (word_sum (snd q)) = 65535 \<and> decodePim (Slice (snd q) []) = Inr (m, DecodeJoinPrune) \<and> hdr_Version (Header m) = 2 \<and>
    decodePimJoinPruneMessage (Payload m)
      = Inr ((joinPruneMsg [169, 254, 0, 1] [[233, 84, 178, 0]] RpAddress [] 120)\<lparr>jp_Contents := k\<rparr>)"
proof -
  have "groups_ok [[233, 84, 178, 0]]" "map To4 [[233, 84, 178, 0]] = [[233, 84, 178, 0]]"
    by (simp_all add: groups_ok_def To4_def)
  then show ?thesis
    using pim_messages_read_back [OF list_buffer_laws, of "[169, 254, 0, 1]" "[[233, 84, 178, 0]]" RpAddress "[]" 120] by simp
qed

text \<open>
  C19. A round of the register sender never panics and sends one packet to the rendezvous point for
  each group whose datagram can be serialized, in the order of the groups: a register header
  whose eight bytes sum to all ones, followed by the datagram from the inner source to the group.
\<close>

theorem register_beacons:
  assumes "buffer_laws ops"
  shows "\<exists>qs. sendAll ops datagram (reg_UpdateGroups groups s) = Inr qs \<and>
    list_all2 (beacons datagram s) (filter (registered datagram s) groups) qs"
proof -
  have "beacons datagram (reg_UpdateGroups groups s) = beacons datagram s"
    "registered datagram (reg_UpdateGroups groups s) = registered datagram s"
    by (simp_all add: fun_eq_iff beacons_def registered_def reg_UpdateGroups_def)
  then show ?thesis
    using sendAllLoop_beacons [OF assms, of datagram "reg_UpdateGroups groups s" groups]
    by (simp add: sendAll_def) (simp add: reg_UpdateGroups_def)
qed

theorem register_beacons_witness:
  "\<exists>qs. sendAll list_buffer (\<lambda>a b _ d. if length b = 4 then Some (a @ b @ d) else None)
       (reg_UpdateGroups [[233, 84, 178, 0], [], [233, 84, 178, 1]]
          \<lparr>srcOverlay = [9, 9, 9, 9], innerSrc = [8, 8, 8, 8], rp = RpAddress, dport = 5765, reg_payload = [1, 2], reg_groups = []\<rparr>)
      = Inr qs \<and> length qs = 2"
proof -
  let ?d = "\<lambda>a b _ d. if length b = 4 then Some (a @ b @ d) else None"
  let ?s = "\<lparr>srcOverlay = [9, 9, 9, 9], innerSrc = [8, 8, 8, 8], rp = RpAddress, dport = 5765, reg_payload = [1, 2], reg_groups = []\<rparr>"
  have "filter (registered ?d ?s) [[233, 84, 178, 0], [], [233, 84, 178, 1]] = [[233, 84, 178, 0], [233, 84, 178, 1]]"
    by (simp add: registered_def To4_def)
  then show ?thesis
    using register_beacons [OF list_buffer_laws, of ?d "[[233, 84, 178, 0], [], [233, 84, 178, 1]]" ?s]
    by (auto dest!: list_all2_lengthD)
qed

text \<open>
  The number of groups of a message is a byte: of 256 groups it says none, and none is read back.
\<close>

lemma number_of_groups_wraps:
  "length groups = 256 \<Longrightarrow> NumGroups (joinPruneMsg up groups j p h) = 0 \<and>
   length (Groups (joinPruneMsg up groups j p h)) = 256 \<and> decodeGroups (NumGroups (joinPruneMsg up groups j p h)) d = Inr []"
  by (simp add: joinPruneMsg_def decodeGroups_def)

end
