(* ===== verification/Client_Requests.thy ===== *)
theory Client_Requests
  imports Go_Net "HOL-Library.Multiset"
begin

text \<open>
  Provision requests of the client daemon, client/doublezerod/internal/api/requests.go: what a tunnel service is to
  be provisioned with, the comparisons by which the reconciler notices a changed request, and the difference of two lists of
  groups. Maps of the source are keyed by the text of addresses; the order in which Go walks a map is an
  argument.
\<close>

subsection \<open>User types\<close>

datatype api_UserType =
  UserTypeUnknown | UserTypeIBRL | UserTypeIBRLWithAllocatedIP | UserTypeEdgeFiltering | UserTypeMulticast

definition UserType_String :: "api_UserType \<Rightarrow> string" where
  "UserType_String u =
     (case u of UserTypeUnknown \<Rightarrow> ''Unknown'' | UserTypeIBRL \<Rightarrow> ''IBRL''
      | UserTypeIBRLWithAllocatedIP \<Rightarrow> ''IBRLWithAllocatedIP'' | UserTypeEdgeFiltering \<Rightarrow> ''EdgeFiltering''
      | UserTypeMulticast \<Rightarrow> ''Multicast'')"

definition UserType_FromString :: "string \<Rightarrow> api_UserType" where
  "UserType_FromString s =
     (if s = ''IBRL'' then UserTypeIBRL
      else if s = ''IBRLWithAllocatedIP'' then UserTypeIBRLWithAllocatedIP
      else if s = ''EdgeFiltering'' then UserTypeEdgeFiltering
      else if s = ''Multicast'' then UserTypeMulticast
      else UserTypeUnknown)"

lemma UserType_FromString_String: "UserType_FromString (UserType_String u) = u"
  by (cases u) (simp_all add: UserType_FromString_def UserType_String_def)

subsection \<open>Requests\<close>

record ProvisionRequest =
  pr_UserType :: api_UserType
  TunnelSrc :: IP
  TunnelDst :: IP
  TunnelNet :: "IPNet option"
  DoubleZeroIP :: IP
  DoubleZeroPrefixes :: "IPNet list"
  MulticastSubGroups :: "IP list"
  MulticastPubGroups :: "IP list"
  MulticastRpAddress :: IP
  BgpLocalAsn :: uint32
  BgpRemoteAsn :: uint32

definition ipNetsEqual :: "IPNet option \<Rightarrow> IPNet option \<Rightarrow> bool" where
  "ipNetsEqual a b =
     (case (a, b) of
        (Some x, Some y) \<Rightarrow> IP_Equal (NetIP x) (NetIP y) \<and> mask_String (Mask x) = mask_String (Mask y)
      | _ \<Rightarrow> a = b)"

definition ipSlicesEqual :: "(IP \<Rightarrow> string) \<Rightarrow> IP list \<Rightarrow> IP list \<Rightarrow> bool" where
  "ipSlicesEqual v6 a b =
     (length a = length b \<and> list_all (\<lambda>ip. ip_String v6 ip \<in> ip_String v6 ` set a) b)"

definition ipNetSlicesEqual :: "(IP \<Rightarrow> string) \<Rightarrow> IPNet list \<Rightarrow> IPNet list \<Rightarrow> bool" where
  "ipNetSlicesEqual v6 a b =
     (length a = length b \<and> list_all (\<lambda>n. IPNet_String v6 (Some n) \<in> (\<lambda>n. IPNet_String v6 (Some n)) ` set a) b)"

definition InfraEqual :: "(IP \<Rightarrow> string) \<Rightarrow> ProvisionRequest \<Rightarrow> ProvisionRequest \<Rightarrow> bool" where
  "InfraEqual v6 p q =
     (if pr_UserType p \<noteq> pr_UserType q then False
      else if \<not> IP_Equal (TunnelSrc p) (TunnelSrc q) \<or> \<not> IP_Equal (TunnelDst p) (TunnelDst q) then False
      else if \<not> ipNetsEqual (TunnelNet p) (TunnelNet q) then False
      else if \<not> IP_Equal (DoubleZeroIP p) (DoubleZeroIP q) then False
      else if BgpLocalAsn p \<noteq> BgpLocalAsn q \<or> BgpRemoteAsn p \<noteq> BgpRemoteAsn q then False
      else if \<not> IP_Equal (MulticastRpAddress p) (MulticastRpAddress q) then False
      else ipNetSlicesEqual v6 (DoubleZeroPrefixes p) (DoubleZeroPrefixes q))"

definition pr_Equal :: "(IP \<Rightarrow> string) \<Rightarrow> ProvisionRequest \<Rightarrow> ProvisionRequest \<Rightarrow> bool" where
  "pr_Equal v6 p q =
     (if pr_UserType p \<noteq> pr_UserType q then False
      else if \<not> IP_Equal (TunnelSrc p) (TunnelSrc q) \<or> \<not> IP_Equal (TunnelDst p) (TunnelDst q) then False
      else if \<not> ipNetsEqual (TunnelNet p) (TunnelNet q) then False
      else if \<not> IP_Equal (DoubleZeroIP p) (DoubleZeroIP q) then False
      else if BgpLocalAsn p \<noteq> BgpLocalAsn q \<or> BgpRemoteAsn p \<noteq> BgpRemoteAsn q then False
      else if \<not> ipSlicesEqual v6 (MulticastPubGroups p) (MulticastPubGroups q) then False
      else if \<not> ipSlicesEqual v6 (MulticastSubGroups p) (MulticastSubGroups q) then False
      else if \<not> IP_Equal (MulticastRpAddress p) (MulticastRpAddress q) then False
      else ipNetSlicesEqual v6 (DoubleZeroPrefixes p) (DoubleZeroPrefixes q))"

text \<open>\<open>Validate\<close> fills in defaults; the only refusal is a rendezvous point that is not IPv4.\<close>

definition pr_Validate :: "ProvisionRequest \<Rightarrow> ProvisionRequest option" where
  "pr_Validate p0 =
     (let p1 = (if BgpLocalAsn p0 = 0 then p0\<lparr>BgpLocalAsn := 65000\<rparr> else p0);
          p2 = (if BgpRemoteAsn p1 = 0 then p1\<lparr>BgpRemoteAsn := 65001\<rparr> else p1)
      in if MulticastRpAddress p2 = [] then Some (p2\<lparr>MulticastRpAddress := IPv4 10 0 0 0\<rparr>)
         else if To4 (MulticastRpAddress p2) = [] then None
         else Some p2)"

text \<open>
  The two maps hold the last address of each text; \<open>order\<close> is the order in which the keys of a map
  are visited.
\<close>

definition byText :: "(IP \<Rightarrow> string) \<Rightarrow> IP list \<Rightarrow> string \<Rightarrow> IP option" where
  "byText v6 ips = map_of (rev (map (\<lambda>ip. (ip_String v6 ip, ip)) ips))"

definition IPSetDiff :: "(IP \<Rightarrow> string) \<Rightarrow> (string list \<Rightarrow> string list) \<Rightarrow> IP list \<Rightarrow> IP list \<Rightarrow> IP list \<times> IP list" where
  "IPSetDiff v6 order oldIPs newIPs =
     (let oldSet = byText v6 oldIPs; newSet = byText v6 newIPs;
          keys = (\<lambda>ips. order (remdups (map (ip_String v6) ips)))
      in (List.map_filter newSet (filter (\<lambda>k. oldSet k = None) (keys newIPs)),
          List.map_filter oldSet (filter (\<lambda>k. newSet k = None) (keys oldIPs))))"

subsection \<open>Comparisons\<close>

definition four :: "IP list \<Rightarrow> bool" where
  "four ips \<longleftrightarrow> list_all (\<lambda>ip. length ip = 4) ips"

definition visits_all :: "(string list \<Rightarrow> string list) \<Rightarrow> bool" where
  "visits_all order \<longleftrightarrow> (\<forall>ks. distinct ks \<longrightarrow> mset (order ks) = mset ks)"

lemma fourD: "four ips \<Longrightarrow> ip \<in> set ips \<Longrightarrow> length ip = 4"
  by (simp add: four_def list_all_iff)

lemma four_inj: "four a \<Longrightarrow> four b \<Longrightarrow> x \<in> set a \<Longrightarrow> y \<in> set b \<Longrightarrow> ip_String v6 x = ip_String v6 y \<Longrightarrow> x = y"
  by (auto dest!: fourD simp: ip_String_inject)

lemma byText_Some:
  assumes "four ips"
  shows "byText v6 ips k = Some ip \<longleftrightarrow> ip \<in> set ips \<and> ip_String v6 ip = k"
proof
  assume "byText v6 ips k = Some ip"
  then show "ip \<in> set ips \<and> ip_String v6 ip = k"
    unfolding byText_def by (auto dest!: map_of_SomeD)
next
  assume r: "ip \<in> set ips \<and> ip_String v6 ip = k"
  then obtain ip' where ip': "byText v6 ips k = Some ip'"
    unfolding byText_def by (cases "map_of (rev (map (\<lambda>ip. (ip_String v6 ip, ip)) ips)) k") (auto simp: map_of_eq_None_iff image_image)
  then have "ip' \<in> set ips" "ip_String v6 ip' = k" unfolding byText_def by (auto dest!: map_of_SomeD)
  then have "ip' = ip" using r assms by (auto dest: four_inj [OF assms assms])
  then show "byText v6 ips k = Some ip" using ip' by simp
qed

lemma byText_None: "byText v6 ips k = None \<longleftrightarrow> k \<notin> ip_String v6 ` set ips"
  by (auto simp: byText_def map_of_eq_None_iff image_image)

lemma String_mem:
  "four ips \<Longrightarrow> length ip = 4 \<Longrightarrow> ip_String v6 ip \<in> ip_String v6 ` set ips \<longleftrightarrow> ip \<in> set ips"
  by (auto dest: fourD simp: ip_String_inject)

lemma IPSetDiff_sets:
  assumes "four old" and "four new" and "visits_all order" and "IPSetDiff v6 order old new = (added, removed)"
  shows "set added = set new - set old" and "set removed = set old - set new" and "distinct added" and "distinct removed"
proof -
  have main: "set xs = set a - set b \<and> distinct xs"
    if ab: "four a" "four b" and xs: "xs = List.map_filter (byText v6 a)
      (filter (\<lambda>k. byText v6 b k = None) (order (remdups (map (ip_String v6) a))))" for a b xs
  proof -
    let ?ks = "order (remdups (map (ip_String v6) a))"
    have m: "mset ?ks = mset (remdups (map (ip_String v6) a))" using assms(3) by (simp add: visits_all_def)
    have ks: "set ?ks = ip_String v6 ` set a" "distinct ?ks"
      using mset_eq_setD [OF m] mset_eq_imp_distinct_iff [OF m] by simp_all
    have "set xs = {ip. \<exists>k \<in> set ?ks. byText v6 b k = None \<and> byText v6 a k = Some ip}"
      unfolding xs by (force simp: List.map_filter_def)
    also have "\<dots> = set a - set b"
      using ab by (force simp: ks byText_Some byText_None dest: four_inj [OF ab] four_inj [OF ab(1) ab(1)])
    finally have "set xs = set a - set b" .
    moreover have "inj_on (the \<circ> byText v6 a) {k. byText v6 a k \<noteq> None}"
    proof (rule inj_onI)
      fix k l assume "k \<in> {k. byText v6 a k \<noteq> None}" "l \<in> {k. byText v6 a k \<noteq> None}"
        "(the \<circ> byText v6 a) k = (the \<circ> byText v6 a) l"
      then obtain y where "byText v6 a k = Some y" "byText v6 a l = Some y" by auto
      then show "k = l" by (simp add: byText_Some [OF ab(1)])
    qed
    then have "distinct (List.map_filter (byText v6 a) ks)" if "distinct ks" for ks
      unfolding List.map_filter_def distinct_map using that by (auto intro: inj_on_subset)
    ultimately show ?thesis using ks(2) by (simp add: xs)
  qed
  have "added = List.map_filter (byText v6 new) (filter (\<lambda>k. byText v6 old k = None) (order (remdups (map (ip_String v6) new))))"
    "removed = List.map_filter (byText v6 old) (filter (\<lambda>k. byText v6 new k = None) (order (remdups (map (ip_String v6) old))))"
    using assms(4) by (simp_all add: IPSetDiff_def Let_def)
  from main [OF assms(2,1) this(1)] main [OF assms(1,2) this(2)]
  show "set added = set new - set old" "set removed = set old - set new" "distinct added" "distinct removed" by simp_all
qed

lemma ipSlicesEqual_refl: "ipSlicesEqual v6 a a"
  by (auto simp: ipSlicesEqual_def list_all_iff)

lemma pr_Equal_refl: "pr_Equal v6 p p"
  by (auto simp: pr_Equal_def ipSlicesEqual_refl ipNetsEqual_def ipNetSlicesEqual_def list_all_iff split: option.split)

text \<open>Without repeated addresses the comparison of slices is equality of sets; with them it is not.\<close>

lemma ipSlicesEqual_distinct:
  assumes "four a" and "four b" and "distinct b"
  shows "ipSlicesEqual v6 a b \<longleftrightarrow> length a = length b \<and> set a = set b"
proof -
  have "set b = set a" if "length a = length b" "set b \<subseteq> set a"
    using that assms(3) by (metis List.finite_set card_length card_subset_eq distinct_card le_antisym card_mono)
  then show ?thesis using assms(1,2)
    by (auto simp: ipSlicesEqual_def list_all_iff dest: four_inj [OF assms(2,1)])
qed

lemma ipSlicesEqual_repeated:
  "ipSlicesEqual v6 [[233, 84, 178, 0], [233, 84, 178, 1]] [[233, 84, 178, 0], [233, 84, 178, 0]] \<and>
   \<not> ipSlicesEqual v6 [[233, 84, 178, 0], [233, 84, 178, 0]] [[233, 84, 178, 0], [233, 84, 178, 1]]"
  by (simp add: ipSlicesEqual_def ip_String_inject)

end
