(* ===== verification/Client_Services.thy ===== *)
theory Client_Services
  imports Client_Requests Liveness_Session
begin

text \<open>
  The tunnel services of the client daemon, client/doublezerod/internal/services with the tunnel and rule types of
  client/doublezerod/internal/routing. Setting a service up or tearing it down is a sequence of calls to the
  kernel (over netlink), the BGP server and the multicast senders. An environment answers every call
  from the calls made before; the calls with their answers are the only state besides the service itself.
\<close>

subsection \<open>Tunnels, rules and peers\<close>

record Tunnel =
  tun_Name :: string
  LocalUnderlay :: IP
  RemoteUnderlay :: IP
  LocalOverlay :: IP
  RemoteOverlay :: IP
  MTU :: int

record IPRule =
  Priority :: int
  rule_Table :: int
  SrcNet :: IPNet
  DstNet :: IPNet

record PeerConfig =
  LocalAddress :: IP
  RemoteAddress :: IP
  LocalAs :: uint32
  RemoteAs :: uint32
  RouteSrc :: IP
  RouteTable :: int
  peer_NoUninstall :: bool
  NoInstall :: bool
  peer_Interface :: string
  AllowLivenessEnabled :: bool

record NLRI =
  AsPath :: "uint32 list"
  nlri_NextHop :: string
  Prefix :: string
  PrefixLength :: nat

definition GREMTU :: int where "GREMTU = 1476"
definition RouteTableSpecific :: int where "RouteTableSpecific = 100"
definition RouteTableDefault :: int where "RouteTableDefault = 101"
definition DzTableSpecific :: int where "DzTableSpecific = 100"
definition DzTableDefault :: int where "DzTableDefault = 101"

text \<open>Constants of the kernel interface.\<close>

definition RT_TABLE_MAIN :: int where "RT_TABLE_MAIN = 254"
definition RT_SCOPE_UNIVERSE :: int where "RT_SCOPE_UNIVERSE = 0"
definition RT_SCOPE_LINK :: int where "RT_SCOPE_LINK = 253"
definition RTPROT_STATIC :: int where "RTPROT_STATIC = 4"

subsection \<open>Calls and their answers\<close>

text \<open>
  The calls of the interfaces \<open>Netlinker\<close>, \<open>BGPReaderWriter\<close>, \<open>HeartbeatWriter\<close>, \<open>RegisterWriter\<close> and \<open>PIMWriter\<close> that
  change something, without the arguments that are the same constant in every call (intervals, port, payload).
\<close>

datatype host_call =
  TunnelAdd Tunnel | TunnelDown Tunnel | TunnelDelete Tunnel | TunnelAddrAdd Tunnel string int | TunnelUp Tunnel
| RouteAdd Route | RouteDelete Route | RuleAdd IPRule | RuleDel IPRule
| AddPeer PeerConfig "NLRI list" | DeletePeer IP
| HeartbeatStart string IP "IP list" | HeartbeatUpdateGroups "IP list" | HeartbeatClose
| RegisterStart string IP IP "IP list" IP | RegisterUpdateGroups "IP list" | RegisterClose
| ListenPIM | NewRawConn | PIMStart string IP "IP list" | PIMUpdateGroups "IP list" | PIMClose

datatype call_error = ErrTunnelExists | ErrAddressExists | ErrRuleExists | ErrBgpPeerExists | ErrBgpPeerNotExists | OtherError

type_synonym trace = "(host_call \<times> call_error option) list"

text \<open>
  The environment: the answer to a call, the order in which a Go map is walked at that point, the text of
  IPv6 addresses and its parser.
\<close>

record host_env =
  answer :: "trace \<Rightarrow> host_call \<Rightarrow> call_error option"
  order :: "trace \<Rightarrow> string list \<Rightarrow> string list"
  v6text :: "IP \<Rightarrow> string"
  v6parse :: "string \<Rightarrow> IP option"

datatype svc_error =
  MissingOverlay | InvalidTunnelNet | NotSlash31 | UnsupportedUserType | BadGroup | BadPrefixLength | BadRule | NoGroups
| RoleTransition | CallFailed host_call | Joined "svc_error list" | AlreadyProvisioned

type_synonym 'a io = "trace \<Rightarrow> (svc_error + 'a) \<times> trace"

definition pure :: "'a \<Rightarrow> 'a io" where "pure x t = (Inr x, t)"
definition fail :: "svc_error \<Rightarrow> 'a io" where "fail e t = (Inl e, t)"

definition bindE :: "'a io \<Rightarrow> ('a \<Rightarrow> 'b io) \<Rightarrow> 'b io" where
  "bindE m f t = (case m t of (Inl e, t') \<Rightarrow> (Inl e, t') | (Inr x, t') \<Rightarrow> f x t')"

definition invoke :: "host_env \<Rightarrow> host_call \<Rightarrow> trace \<Rightarrow> call_error option \<times> trace" where
  "invoke env c t = (answer env t c, t @ [(c, answer env t c)])"

text \<open>A call whose error is returned, one whose error \<open>e\<close> is only logged, and one whose errors all are.\<close>

definition must :: "host_env \<Rightarrow> host_call \<Rightarrow> unit io" where
  "must env c t = (case invoke env c t of (None, t') \<Rightarrow> (Inr (), t') | (Some e, t') \<Rightarrow> (Inl (CallFailed c), t'))"

definition unless :: "host_env \<Rightarrow> call_error \<Rightarrow> host_call \<Rightarrow> unit io" where
  "unless env e c t =
     (case invoke env c t of (None, t') \<Rightarrow> (Inr (), t')
      | (Some e', t') \<Rightarrow> (if e' = e then Inr () else Inl (CallFailed c), t'))"

definition attempt :: "host_env \<Rightarrow> host_call \<Rightarrow> unit io" where
  "attempt env c t = (Inr (), snd (invoke env c t))"

fun each :: "('a \<Rightarrow> unit io) \<Rightarrow> 'a list \<Rightarrow> unit io" where
  "each f [] = pure ()"
| "each f (x # xs) = bindE (f x) (\<lambda>_. each f xs)"

subsection \<open>Creating tunnels and rules\<close>

definition NewTunnel :: "host_env \<Rightarrow> string \<Rightarrow> IP \<Rightarrow> IP \<Rightarrow> string \<Rightarrow> svc_error + Tunnel" where
  "NewTunnel env name local remote overlayNet =
     (case ParseCIDR (v6parse env) overlayNet of
        None \<Rightarrow> Inl InvalidTunnelNet
      | Some (tunIp, tunNet) \<Rightarrow>
          if fst (mask_Size (Mask tunNet)) \<noteq> 31 then Inl NotSlash31
          else let base = ip_Mask tunIp (Mask tunNet) in
            Inr \<lparr>tun_Name = name, LocalUnderlay = local, RemoteUnderlay = remote,
                 LocalOverlay = butlast base @ [last base + 1], RemoteOverlay = base, MTU = GREMTU\<rparr>)"

definition createBaseTunnel :: "host_env \<Rightarrow> Tunnel \<Rightarrow> unit io" where
  "createBaseTunnel env tun =
     (if LocalOverlay tun = [] then fail MissingOverlay
      else bindE (unless env ErrTunnelExists (TunnelAdd tun)) (\<lambda>_.
           bindE (unless env ErrAddressExists
             (TunnelAddrAdd tun (ip_String (v6text env) (LocalOverlay tun) @ ''/31'') RT_SCOPE_LINK)) (\<lambda>_.
           must env (TunnelUp tun))))"

definition createTunnelWithIP :: "host_env \<Rightarrow> Tunnel \<Rightarrow> IP \<Rightarrow> unit io" where
  "createTunnelWithIP env tun dzIp =
     bindE (createBaseTunnel env tun) (\<lambda>_.
     unless env ErrAddressExists (TunnelAddrAdd tun (ip_String (v6text env) dzIp @ ''/32'') RT_SCOPE_UNIVERSE))"

definition NewNLRI :: "uint32 list \<Rightarrow> string \<Rightarrow> string \<Rightarrow> nat \<Rightarrow> svc_error + NLRI" where
  "NewNLRI aspath nexthop prefix prefixlen =
     (if prefixlen > 32 then Inl BadPrefixLength
      else Inr \<lparr>AsPath = aspath, nlri_NextHop = nexthop, Prefix = prefix, PrefixLength = prefixlen\<rparr>)"

definition NewIPRule :: "host_env \<Rightarrow> int \<Rightarrow> int \<Rightarrow> string \<Rightarrow> string \<Rightarrow> svc_error + IPRule" where
  "NewIPRule env priority table srcnet dstnet =
     (if priority < 100 \<or> priority > 200 then Inl BadRule
      else if table < 100 \<or> table > 200 then Inl BadRule
      else case ParseCIDR (v6parse env) srcnet of None \<Rightarrow> Inl BadRule
        | Some (_, src) \<Rightarrow> (case ParseCIDR (v6parse env) dstnet of None \<Rightarrow> Inl BadRule
            | Some (_, dst) \<Rightarrow> Inr \<lparr>Priority = priority, rule_Table = table, SrcNet = src, DstNet = dst\<rparr>))"

definition lift :: "svc_error + 'a \<Rightarrow> 'a io" where "lift r t = (r, t)"

definition CreateIPRules :: "host_env \<Rightarrow> IPRule list \<Rightarrow> unit io" where
  "CreateIPRules env rules = each (\<lambda>r. unless env ErrRuleExists (RuleAdd r)) rules"

subsection \<open>The services\<close>

record IBRLService =
  svc_Tunnel :: "Tunnel option"
  DoubleZeroAddr :: IP
  provisionReq :: "ProvisionRequest option"

record EdgeFilteringService = IBRLService +
  svc_Routes :: "Route list"
  svc_Rules :: "IPRule list"

record MulticastService = IBRLService +
  svc_PubGroups :: "IP list"
  svc_SubGroups :: "IP list"

definition tunnelOf :: "host_env \<Rightarrow> string \<Rightarrow> ProvisionRequest \<Rightarrow> svc_error + Tunnel" where
  "tunnelOf env name p = NewTunnel env name (TunnelSrc p) (TunnelDst p) (IPNet_String (v6text env) (TunnelNet p))"

definition ibrlPeer :: "ProvisionRequest \<Rightarrow> Tunnel \<Rightarrow> PeerConfig" where
  "ibrlPeer p tun =
     \<lparr>LocalAddress = LocalOverlay tun, RemoteAddress = RemoteOverlay tun, LocalAs = BgpLocalAsn p, RemoteAs = BgpRemoteAsn p,
      RouteSrc = DoubleZeroIP p, RouteTable = RT_TABLE_MAIN,
      peer_NoUninstall = (pr_UserType p = UserTypeIBRLWithAllocatedIP), NoInstall = False,
      peer_Interface = ''doublezero0'', AllowLivenessEnabled = True\<rparr>"

text \<open>The prefix a service advertises: its DoubleZero address.\<close>

definition dzNLRI :: "host_env \<Rightarrow> ProvisionRequest \<Rightarrow> Tunnel \<Rightarrow> svc_error + NLRI" where
  "dzNLRI env p tun =
     NewNLRI [BgpLocalAsn p] (ip_String (v6text env) (LocalOverlay tun)) (ip_String (v6text env) (DoubleZeroIP p)) 32"

definition ibrl_Setup :: "host_env \<Rightarrow> ProvisionRequest \<Rightarrow> IBRLService io" where
  "ibrl_Setup env p =
     bindE (lift (tunnelOf env ''doublezero0'' p)) (\<lambda>tun.
     bindE (if pr_UserType p = UserTypeIBRL then createBaseTunnel env tun
            else if pr_UserType p = UserTypeIBRLWithAllocatedIP then createTunnelWithIP env tun (DoubleZeroIP p)
            else fail UnsupportedUserType) (\<lambda>_.
     bindE (lift (dzNLRI env p tun)) (\<lambda>nlri.
     bindE (unless env ErrBgpPeerExists (AddPeer (ibrlPeer p tun) [nlri])) (\<lambda>_.
     pure \<lparr>svc_Tunnel = Some tun, DoubleZeroAddr = DoubleZeroIP p, provisionReq = Some p\<rparr>))))"

text \<open>The end that the three \<open>Teardown\<close> functions share: peer, interface down, interface deleted.\<close>

definition removeTunnel :: "host_env \<Rightarrow> Tunnel \<Rightarrow> trace \<Rightarrow> svc_error list \<times> trace" where
  "removeTunnel env tun t =
     (let (e1, t1) = invoke env (DeletePeer (RemoteOverlay tun)) t;
          errRemovePeer = (if e1 = None \<or> e1 = Some ErrBgpPeerNotExists then [] else [CallFailed (DeletePeer (RemoteOverlay tun))]);
          (e2, t2) = invoke env (TunnelDown tun) t1;
          (e3, t3) = invoke env (TunnelDelete tun) t2;
          errRemoveTunnel = (if e3 = None then [] else [CallFailed (TunnelDelete tun)])
      in (errRemoveTunnel @ errRemovePeer, t3))"

definition ibrl_Teardown :: "host_env \<Rightarrow> 'a IBRLService_scheme \<Rightarrow> trace \<Rightarrow> svc_error list \<times> trace" where
  "ibrl_Teardown env s t = (case svc_Tunnel s of None \<Rightarrow> ([], t) | Some tun \<Rightarrow> removeTunnel env tun t)"

subsection \<open>Edge filtering\<close>

fun ruleLoop :: "host_env \<Rightarrow> IPNet list \<Rightarrow> svc_error + IPRule list" where
  "ruleLoop env [] = Inr []"
| "ruleLoop env (prefix # ps) =
     (case NewIPRule env 100 DzTableSpecific ''0.0.0.0/0'' (IPNet_String (v6text env) (Some prefix)) of
        Inl e \<Rightarrow> Inl e
      | Inr r1 \<Rightarrow> (case NewIPRule env 101 DzTableDefault (IPNet_String (v6text env) (Some prefix)) ''0.0.0.0/0'' of
            Inl e \<Rightarrow> Inl e
          | Inr r2 \<Rightarrow> (case ruleLoop env ps of Inl e \<Rightarrow> Inl e | Inr rs \<Rightarrow> Inr (r1 # r2 # rs))))"

definition createIPRules :: "host_env \<Rightarrow> IPNet list \<Rightarrow> IPRule list io" where
  "createIPRules env prefixes =
     bindE (lift (ruleLoop env prefixes)) (\<lambda>rules. bindE (CreateIPRules env rules) (\<lambda>_. pure rules))"

definition defaultRoute :: "Tunnel \<Rightarrow> IP \<Rightarrow> IPNet \<Rightarrow> Route" where
  "defaultRoute tun src defaultRt =
     \<lparr>Dst = defaultRt, Src = src, Table = RouteTableDefault, NextHop = RemoteOverlay tun, Protocol = 0\<rparr>"

definition createDefaultRoutingTable :: "host_env \<Rightarrow> Tunnel \<Rightarrow> IP \<Rightarrow> Route list io" where
  "createDefaultRoutingTable env tun src =
     (case ParseCIDR (v6parse env) ''0.0.0.0/0'' of None \<Rightarrow> fail BadRule
      | Some (_, defaultRt) \<Rightarrow>
          bindE (must env (RouteAdd (defaultRoute tun src defaultRt))) (\<lambda>_. pure [defaultRoute tun src defaultRt]))"

definition edgePeer :: "ProvisionRequest \<Rightarrow> Tunnel \<Rightarrow> PeerConfig" where
  "edgePeer p tun =
     \<lparr>LocalAddress = LocalOverlay tun, RemoteAddress = RemoteOverlay tun, LocalAs = BgpLocalAsn p, RemoteAs = BgpRemoteAsn p,
      RouteSrc = DoubleZeroIP p, RouteTable = RouteTableSpecific, peer_NoUninstall = False, NoInstall = False,
      peer_Interface = '''', AllowLivenessEnabled = False\<rparr>"

definition edge_Setup :: "host_env \<Rightarrow> ProvisionRequest \<Rightarrow> EdgeFilteringService io" where
  "edge_Setup env p =
     bindE (lift (tunnelOf env ''doublezero0'' p)) (\<lambda>tun.
     bindE (createTunnelWithIP env tun (DoubleZeroIP p)) (\<lambda>_.
     bindE (createIPRules env (DoubleZeroPrefixes p)) (\<lambda>rules.
     bindE (createDefaultRoutingTable env tun (DoubleZeroIP p)) (\<lambda>routes.
     bindE (lift (dzNLRI env p tun)) (\<lambda>nlri.
     bindE (unless env ErrBgpPeerExists (AddPeer (edgePeer p tun) [nlri])) (\<lambda>_.
     pure \<lparr>svc_Tunnel = Some tun, DoubleZeroAddr = DoubleZeroIP p, provisionReq = Some p,
           svc_Routes = routes, svc_Rules = rules\<rparr>))))))"

text \<open>\<open>flushRules\<close> and \<open>flushStaticRoutes\<close>: the error variable is assigned in every iteration, so the last one stays.\<close>

fun flushLoop :: "host_env \<Rightarrow> ('a \<Rightarrow> host_call) \<Rightarrow> 'a list \<Rightarrow> svc_error list \<Rightarrow> trace \<Rightarrow> svc_error list \<times> trace" where
  "flushLoop env del [] err t = (err, t)"
| "flushLoop env del (x # xs) err t =
     (let (e, t') = invoke env (del x) t
      in flushLoop env del xs (if e = None then [] else [CallFailed (del x)]) t')"

definition edge_Teardown :: "host_env \<Rightarrow> EdgeFilteringService \<Rightarrow> trace \<Rightarrow> svc_error list \<times> EdgeFilteringService \<times> trace" where
  "edge_Teardown env s t =
     (let (errFlushRules, t1) = flushLoop env RuleDel (svc_Rules s) [] t;
          (errFlushRoutes, t2) = flushLoop env RouteDelete (svc_Routes s) [] t1;
          s' = s\<lparr>svc_Rules := [], svc_Routes := []\<rparr>
      in case svc_Tunnel s of None \<Rightarrow> ([], s', t2)
         | Some tun \<Rightarrow> (let (errs, t3) = removeTunnel env tun t2 in (errFlushRules @ errFlushRoutes @ errs, s', t3)))"

subsection \<open>Multicast\<close>

definition groupRoute :: "host_env \<Rightarrow> Tunnel \<Rightarrow> IP \<Rightarrow> IP \<Rightarrow> svc_error + Route" where
  "groupRoute env tun src grp =
     (case ParseCIDR (v6parse env) (ip_String (v6text env) grp @ ''/32'') of None \<Rightarrow> Inl BadGroup
      | Some (_, groupNet) \<Rightarrow> Inr \<lparr>Dst = groupNet, Src = src, Table = RT_TABLE_MAIN, NextHop = RemoteOverlay tun,
          Protocol = RTPROT_STATIC\<rparr>)"

definition addGroup :: "host_env \<Rightarrow> Tunnel \<Rightarrow> IP \<Rightarrow> IP \<Rightarrow> unit io" where
  "addGroup env tun src grp = bindE (lift (groupRoute env tun src grp)) (\<lambda>r. must env (RouteAdd r))"

definition deleteGroup :: "host_env \<Rightarrow> Tunnel \<Rightarrow> IP \<Rightarrow> IP \<Rightarrow> unit io" where
  "deleteGroup env tun src grp = bindE (lift (groupRoute env tun src grp)) (\<lambda>r. must env (RouteDelete r))"

definition containsIP :: "IP list \<Rightarrow> IP \<Rightarrow> bool" where
  "containsIP ips target = list_ex (\<lambda>ip. IP_Equal ip target) ips"

definition startPIM :: "host_env \<Rightarrow> Tunnel \<Rightarrow> IP list \<Rightarrow> unit io" where
  "startPIM env tun groups =
     bindE (must env ListenPIM) (\<lambda>_. bindE (must env NewRawConn) (\<lambda>_.
     must env (PIMStart (tun_Name tun) (RemoteOverlay tun) groups)))"

definition publisherSetup :: "host_env \<Rightarrow> ProvisionRequest \<Rightarrow> Tunnel \<Rightarrow> NLRI list io" where
  "publisherSetup env p tun =
     bindE (createTunnelWithIP env tun (DoubleZeroIP p)) (\<lambda>_.
     bindE (lift (dzNLRI env p tun)) (\<lambda>rt.
     bindE (each (addGroup env tun (DoubleZeroIP p)) (MulticastPubGroups p)) (\<lambda>_.
     bindE (must env (HeartbeatStart (tun_Name tun) (DoubleZeroIP p) (MulticastPubGroups p))) (\<lambda>_.
     bindE (must env (RegisterStart (tun_Name tun) (LocalOverlay tun) (DoubleZeroIP p) (MulticastPubGroups p)
              (MulticastRpAddress p))) (\<lambda>_.
     pure [rt])))))"

definition subscriberSetup :: "host_env \<Rightarrow> ProvisionRequest \<Rightarrow> Tunnel \<Rightarrow> unit io" where
  "subscriberSetup env p tun =
     (let isPublisher = length (MulticastPubGroups p) > 0 in
      bindE (if \<not> isPublisher then createBaseTunnel env tun else pure ()) (\<lambda>_.
      bindE (each (\<lambda>grp. if isPublisher \<and> containsIP (MulticastPubGroups p) grp then pure () else addGroup env tun [] grp)
        (MulticastSubGroups p)) (\<lambda>_.
      startPIM env tun (MulticastSubGroups p))))"

definition multicastPeer :: "ProvisionRequest \<Rightarrow> Tunnel \<Rightarrow> PeerConfig" where
  "multicastPeer p tun =
     \<lparr>LocalAddress = LocalOverlay tun, RemoteAddress = RemoteOverlay tun, LocalAs = BgpLocalAsn p, RemoteAs = BgpRemoteAsn p,
      RouteSrc = [], RouteTable = 0, peer_NoUninstall = False, NoInstall = True, peer_Interface = '''', AllowLivenessEnabled = False\<rparr>"

definition multicast_Setup :: "host_env \<Rightarrow> ProvisionRequest \<Rightarrow> MulticastService io" where
  "multicast_Setup env p =
     (let isPublisher = length (MulticastPubGroups p) > 0; isSubscriber = length (MulticastSubGroups p) > 0 in
      if \<not> isPublisher \<and> \<not> isSubscriber then fail NoGroups
      else
       bindE (lift (tunnelOf env ''doublezero1'' p)) (\<lambda>tun.
       bindE (if isPublisher then publisherSetup env p tun else pure []) (\<lambda>nlri.
       bindE (if isSubscriber then subscriberSetup env p tun else pure ()) (\<lambda>_.
       bindE (unless env ErrBgpPeerExists (AddPeer (multicastPeer p tun) nlri)) (\<lambda>_.
       pure \<lparr>svc_Tunnel = Some tun, DoubleZeroAddr = (if isPublisher then DoubleZeroIP p else []), provisionReq = Some p,
             svc_PubGroups = MulticastPubGroups p, svc_SubGroups = MulticastSubGroups p\<rparr>)))))"

definition isPublisher :: "MulticastService \<Rightarrow> bool" where "isPublisher s = (length (svc_PubGroups s) > 0)"
definition isSubscriber :: "MulticastService \<Rightarrow> bool" where "isSubscriber s = (length (svc_SubGroups s) > 0)"

definition multicast_Teardown :: "host_env \<Rightarrow> MulticastService \<Rightarrow> trace \<Rightarrow> svc_error list \<times> trace" where
  "multicast_Teardown env s t =
     (case svc_Tunnel s of None \<Rightarrow> ([], t)
      | Some tun \<Rightarrow>
          (let t1 = (if isPublisher s then snd (invoke env RegisterClose (snd (invoke env HeartbeatClose t))) else t);
               t2 = (if isSubscriber s then snd (invoke env PIMClose t1) else t1)
           in removeTunnel env tun t2))"

text \<open>
  Changing the groups of a running service. A nil tunnel, which no service that was set up has, would
  make the code panic; the model fails.
\<close>

definition updatePublisher :: "host_env \<Rightarrow> Tunnel \<Rightarrow> IP \<Rightarrow> IP list \<Rightarrow> IP list \<Rightarrow> ProvisionRequest \<Rightarrow> unit io" where
  "updatePublisher env tun src pubAdded pubRemoved newPR =
     bindE (each (deleteGroup env tun src) pubRemoved) (\<lambda>_.
     bindE (each (addGroup env tun src) pubAdded) (\<lambda>_.
     if length (MulticastPubGroups newPR) > 0 \<and> (length pubAdded > 0 \<or> length pubRemoved > 0)
     then bindE (must env (HeartbeatUpdateGroups (MulticastPubGroups newPR))) (\<lambda>_.
          must env (RegisterUpdateGroups (MulticastPubGroups newPR)))
     else pure ()))"

definition updateSubscriber :: "host_env \<Rightarrow> Tunnel \<Rightarrow> IP list \<Rightarrow> IP list \<Rightarrow> bool \<Rightarrow> ProvisionRequest \<Rightarrow> unit io" where
  "updateSubscriber env tun subAdded subRemoved wasSubscriber newPR =
     (let published = (\<lambda>grp. length (MulticastPubGroups newPR) > 0 \<and> containsIP (MulticastPubGroups newPR) grp);
          nowSubscriber = length (MulticastSubGroups newPR) > 0 in
      bindE (each (\<lambda>grp. if published grp then pure () else deleteGroup env tun [] grp) subRemoved) (\<lambda>_.
      bindE (each (\<lambda>grp. if published grp then pure () else addGroup env tun [] grp) subAdded) (\<lambda>_.
      bindE (if wasSubscriber \<and> \<not> nowSubscriber then attempt env PIMClose else pure ()) (\<lambda>_.
      if \<not> wasSubscriber \<and> nowSubscriber then startPIM env tun (MulticastSubGroups newPR)
      else if nowSubscriber \<and> (length subAdded > 0 \<or> length subRemoved > 0)
      then must env (PIMUpdateGroups (MulticastSubGroups newPR)) else pure ()))))"

definition svc_UpdateGroups :: "host_env \<Rightarrow> MulticastService \<Rightarrow> ProvisionRequest \<Rightarrow> MulticastService io" where
  "svc_UpdateGroups env s newPR t =
     (if isPublisher s \<noteq> (length (MulticastPubGroups newPR) > 0) then (Inl RoleTransition, t)
      else let (pubAdded, pubRemoved) = IPSetDiff (v6text env) (order env t) (svc_PubGroups s) (MulticastPubGroups newPR);
               (subAdded, subRemoved) = IPSetDiff (v6text env) (order env t) (svc_SubGroups s) (MulticastSubGroups newPR)
           in case svc_Tunnel s of None \<Rightarrow> (Inl MissingOverlay, t)
              | Some tun \<Rightarrow>
                  bindE (updatePublisher env tun (DoubleZeroAddr s) pubAdded pubRemoved newPR) (\<lambda>_.
                  bindE (updateSubscriber env tun subAdded subRemoved (isSubscriber s) newPR) (\<lambda>_.
                  pure (s\<lparr>svc_PubGroups := MulticastPubGroups newPR, svc_SubGroups := MulticastSubGroups newPR,
                          provisionReq := Some newPR\<rparr>))) t)"

end
