(* ===== verification/Spec2Isabelle.thy ===== *)
theory Spec2Isabelle
  imports Liveness_Receiver Serviceability_Accounts Telemetry_Submitter BGP_Status PIM_Server Client_Services
begin

text \<open>
  A verification library for the DoubleZero network (repository malbeclabs/doublezero). DoubleZero keeps its devices, links,
  users and multicast groups in accounts of an on-chain program. A client daemon builds a tunnel to a device and
  exchanges routes with it, supervised by a route-liveness protocol and, for multicast, by a PIM speaker. Agents on the
  devices measure latencies, report the BGP status of users and write both back to the ledger. The library models the Go
  code of these parts, and of the Rust program the layout of the accounts the Go code reads.

  \<^bold>\<open>Conventions.\<close> A Go struct is a record and an enumeration a datatype or its integer type; \<open>uintN\<close> is a word of N
  bits, \<open>int64\<close> and \<open>time.Duration\<close> are integers with the wrap-around written out where it can happen, \<open>time.Time\<close> is
  an integer count of nanoseconds. Errors and panics are values. Clock readings, random numbers, answers of the kernel, of
  the ledger and of sockets are arguments or come from an environment that answers from the calls made so far. Go_Prelude
  holds these types, the operations of the Go library that are used, and the two contracts \<open>wire_codec\<close> (decoding an
  encoded value gives it back) and \<open>step_invariant\<close> (an invariant of a step relation holds on every run). Go_Net adds
  the text of addresses and networks and its parser.

  \<^bold>\<open>Route liveness\<close> (client/doublezerod/internal/liveness).
  \<^item> Liveness_Packet: packet.go. The control packet, encoder and decoder; both are inverse on valid packets.
  \<^item> Liveness_Version: version.go. Printing and parsing the client version.
  \<^item> Liveness_Session: session.go. The record \<open>Session\<close>, intervals, jitter and back-off, detection and the state
    machine \<open>HandleRx\<close> / \<open>ExpireIfDue\<close>; the invariant of a session, its refinement of an abstract state machine, the exact
    moment of detection and the bounds of the next transmission.
  \<^item> Container_Heap and Event_Queue: container/heap over slices and the event queue of scheduler.go, which is a stable
    priority queue.
  \<^item> Liveness_Scheduler: the rest of scheduler.go. One iteration of \<open>Run\<close>; a silent peer is detected, unless the
    queue is full.
  \<^item> Liveness_Pair: two sessions that talk to each other; the handshake, and packets of a restarted peer.
  \<^item> Liveness_Manager and Liveness_Kernel: manager.go. Registration, withdrawal, dispatch, installation; the
    kernel's routes are those the manager believes installed, in every run in which netlink does not fail and the
    handlers run in order, and the cases in which they are not.
  \<^item> Liveness_Receiver: receiver.go. No datagram stops the receive loop.

  \<^bold>\<open>Reading the ledger\<close> (smartcontract/sdk/go/serviceability, sdk/borsh-incremental/go).
  \<^item> Borsh_Reader and Byte_Reader: reader.go and bytereader.go. Strict and lenient cursors; they agree on complete data, never
    leave the data, and read older records with defaults.
  \<^item> Serviceability_State and Serviceability_Deserialize: state.go, deserialize.go and the dispatch of client.go.
  \<^item> Serviceability_Wire and Serviceability_Accounts: the layouts that the program
    (smartcontract/programs/doublezero-serviceability/src/state) writes, and what the Go code makes of them: current accounts
    are read back exactly, older ones with defaults, unknown interface versions are skipped.

  \<^bold>\<open>Telemetry agents\<close> (controlplane/telemetry).
  \<^item> Sample_Buffer and Telemetry_Submitter: pkg/buffer/memory.go and internal/telemetry/submitter.go. A tick submits every
    sample or keeps it, and when it may submit one twice.
  \<^item> BGP_Status: internal/bgpstatus and internal/netutil. Tick and worker interleaved; the ledger follows the
    sessions, and no user stays blocked by a submission.

  \<^bold>\<open>Multicast and tunnels of the client\<close> (client/doublezerod/internal).
  \<^item> PIM_Message and PIM_Server: pim. Messages are read back with a verifying checksum, and a router that reads what the
    server sends knows exactly the wanted groups.
  \<^item> Client_Requests and Client_Services: api/requests.go and services. Provision requests with their comparisons, and the
    tunnel services as sequences of calls.

  \<^bold>\<open>Contracts.\<close> Interfaces are locales, interpreted on the definitions of the model: \<open>wire_codec\<close>, \<open>step_invariant\<close>,
  \<open>heap_order\<close>, \<open>priority_queue\<close>, \<open>cursor_reader\<close>, \<open>scalar_reader\<close>, \<open>slice_reader\<close>, \<open>field_reader\<close>,
  \<open>partition_store\<close>.

  \<^bold>\<open>Bounds.\<close> No function runs on fuel: loops over data are structural or have a termination proof, and the endless loops of
  the code (scheduler, receiver, submitter, PIM server) are given by one iteration or by the list of the events
  they wait for. Bounds in hypotheses are those of the code: 255 groups fit the count byte of a PIM message, 256 submissions
  the channel of the BGP status reporter, and lengths are below the width of the fields that hold them.

  \<^bold>\<open>Not modelled.\<close> Sockets, files, HTTP handlers, metrics and logging; the libraries behind BGP (corebgp), netlink, Solana
  RPC, gopacket, Kafka and ClickHouse; generated code (protocol buffers, the OpenConfig model of gnmi-writer); the
  templates of the controller; statistics and geographic distances in floating point; the reconciler of the client, which
  polls the ledger and calls the services; the Rust programs apart from the account layouts; tests and operator tools.
\<close>

end
